(* ===== verification/Prelude.thy ===== *)
theory Prelude
  imports Main "HOL-Library.Word" "HOL-Library.Char_ord" "HOL-Library.List_Lexorder"
begin

text \<open>
  Shared vocabulary of the development: how a C++ failure is a value (\<open>cpp_error\<close>, \<open>'a res\<close>),
  sequencing of fallible steps (\<open>bindR\<close>, \<open>mapR\<close>, \<open>foldR\<close>), the searches of \<open>std::string\<close> on
  \<open>char list\<close>, and the generic lemmas about them that the component theories use.
  Strings are byte strings, compared as \<open>std::string\<close> compares them: lexicographically by
  unsigned byte (\<open>Char_ord\<close> and \<open>List_Lexorder\<close>).
\<close>

named_theorems res_simps "rewriting of fallible computations"
named_theorems step_defs "definitions unfolded by the step proofs of the components"

section \<open>Failures as values\<close>

text \<open>
  What ends a C++ call without a result. \<open>Null_deref\<close>, \<open>Ub\<close>: undefined behaviour (a null
  \<open>shared_ptr\<close> dereferenced, an access out of bounds); \<open>Assert_fail\<close>: an \<open>assert\<close> of a build
  without \<open>NDEBUG\<close> (the build files set none); \<open>Blocks\<close>: the call never returns; the others are exceptions
  by their class.
\<close>

datatype cpp_error =
    Null_deref
  | Ub
  | Assert_fail
  | Out_of_range
  | Invalid_argument
  | Runtime_error string
  | Exit_process
  | Blocks

type_synonym 'a res = "cpp_error + 'a"

primrec bindR :: "'e + 'a \<Rightarrow> ('a \<Rightarrow> 'e + 'b) \<Rightarrow> 'e + 'b" where
  "bindR (Inl e) f = Inl e"
| "bindR (Inr x) f = f x"

lemma bindR_Inr_iff [res_simps]:
  "bindR r f = Inr y \<longleftrightarrow> (\<exists>x. r = Inr x \<and> f x = Inr y)"
  by (cases r) auto

lemma bindR_Inl_iff [res_simps]:
  "bindR r f = Inl e \<longleftrightarrow> r = Inl e \<or> (\<exists>x. r = Inr x \<and> f x = Inl e)"
  by (cases r) auto

lemma bindR_assoc: "bindR (bindR r f) g = bindR r (\<lambda>x. bindR (f x) g)"
  by (cases r) auto

lemma bindR_cong [fundef_cong]:
  "r = r' \<Longrightarrow> (\<And>x. r' = Inr x \<Longrightarrow> f x = g x) \<Longrightarrow> bindR r f = bindR r' g"
  by (cases r') auto

primrec mapR :: "('a \<Rightarrow> 'e + 'b) \<Rightarrow> 'a list \<Rightarrow> 'e + 'b list" where
  "mapR f [] = Inr []"
| "mapR f (x # xs) = bindR (f x) (\<lambda>y. bindR (mapR f xs) (\<lambda>ys. Inr (y # ys)))"

lemma mapR_cong [fundef_cong]:
  "xs = ys \<Longrightarrow> (\<And>x. x \<in> set ys \<Longrightarrow> f x = g x) \<Longrightarrow> mapR f xs = mapR g ys"
  by (induction ys arbitrary: xs) auto

lemma mapR_Inr_map: "(\<And>x. x \<in> set xs \<Longrightarrow> f x = Inr (g x)) \<Longrightarrow> mapR f xs = Inr (map g xs)"
  by (induction xs) auto

lemma mapR_length: "mapR f xs = Inr ys \<Longrightarrow> length ys = length xs"
  by (induction xs arbitrary: ys) (auto simp: res_simps)

primrec foldR :: "('a \<Rightarrow> 's \<Rightarrow> 'e + 's) \<Rightarrow> 'a list \<Rightarrow> 's \<Rightarrow> 'e + 's" where
  "foldR f [] s = Inr s"
| "foldR f (x # xs) s = bindR (f x s) (foldR f xs)"

lemma foldR_append: "foldR f (xs @ ys) s = bindR (foldR f xs s) (foldR f ys)"
proof (induction xs arbitrary: s)
  case Nil
  then show ?case by simp
next
  case (Cons x xs)
  then have "foldR f (xs @ ys) = (\<lambda>s. bindR (foldR f xs s) (foldR f ys))" by (simp add: fun_eq_iff)
  then show ?case by (simp add: bindR_assoc)
qed

lemma foldR_invariant:
  assumes "foldR f xs s = Inr t" "P s"
    and "\<And>x s t. x \<in> set xs \<Longrightarrow> P s \<Longrightarrow> f x s = Inr t \<Longrightarrow> P t"
  shows "P t"
  using assms
proof (induction xs arbitrary: s)
  case Nil
  then show ?case by simp
next
  case (Cons x xs)
  from Cons.prems(1) obtain s' where s': "f x s = Inr s'" "foldR f xs s' = Inr t"
    by (auto simp: res_simps)
  from Cons.prems(2,3) s'(1) have "P s'" by (meson list.set_intros(1))
  with Cons.IH [OF s'(2)] Cons.prems(3) show ?case by (meson list.set_intros(2))
qed

text \<open>The same for total steps: \<open>fold\<close> keeps what every step keeps.\<close>

lemma fold_invariant_set:
  "P s \<Longrightarrow> (\<And>x s. x \<in> set xs \<Longrightarrow> P s \<Longrightarrow> P (f x s)) \<Longrightarrow> P (fold f xs s)"
  by (induction xs arbitrary: s) auto

section \<open>Searches of \<open>std::string\<close>\<close>

text \<open>
  A position is a \<open>nat\<close>; \<open>std::string::npos\<close> is \<open>None\<close>, or the number \<open>npos\<close> where the code
  computes with it. \<open>sz_add\<close> is addition of \<open>size_t\<close>.
\<close>

definition npos :: nat where
  "npos = 2 ^ 64 - 1"

definition sz_add :: "nat \<Rightarrow> nat \<Rightarrow> nat" where
  "sz_add a b = (a + b) mod 2 ^ 64"

primrec find_idx :: "('a \<Rightarrow> bool) \<Rightarrow> 'a list \<Rightarrow> nat option" where
  "find_idx P [] = None"
| "find_idx P (x # xs) = (if P x then Some 0 else map_option Suc (find_idx P xs))"

definition find_from :: "('a \<Rightarrow> bool) \<Rightarrow> 'a list \<Rightarrow> nat \<Rightarrow> nat option" where
  "find_from P s from = map_option ((+) from) (find_idx P (drop from s))"

text \<open>The last position at or before \<open>n\<close> (\<open>rfind\<close> with a position).\<close>

definition rfind_upto :: "('a \<Rightarrow> bool) \<Rightarrow> 'a list \<Rightarrow> nat \<Rightarrow> nat option" where
  "rfind_upto P s n =
     (let t = take (Suc n) s
      in map_option (\<lambda>j. length t - Suc j) (find_idx P (rev t)))"

fun find_sub :: "string \<Rightarrow> string \<Rightarrow> nat option" where
  "find_sub pat [] = (if pat = [] then Some 0 else None)"
| "find_sub pat (c # cs) =
     (if take (length pat) (c # cs) = pat then Some 0 else map_option Suc (find_sub pat cs))"

definition find_sub_from :: "string \<Rightarrow> string \<Rightarrow> nat \<Rightarrow> nat option" where
  "find_sub_from pat s from =
     (if from \<le> length s then map_option ((+) from) (find_sub pat (drop from s)) else None)"

text \<open>\<open>substr(pos, len)\<close> throws \<open>std::out_of_range\<close> beyond the end and clips the length.\<close>

definition substr :: "string \<Rightarrow> nat \<Rightarrow> nat \<Rightarrow> string res" where
  "substr s p n = (if p \<le> length s then Inr (take n (drop p s)) else Inl Out_of_range)"

definition num_of_pos :: "nat option \<Rightarrow> nat" where
  "num_of_pos r = (case r of None \<Rightarrow> npos | Some p \<Rightarrow> p)"

lemma find_idx_None: "find_idx P xs = None \<longleftrightarrow> (\<forall>x\<in>set xs. \<not> P x)"
  by (induction xs) auto

lemma find_idx_SomeD:
  "find_idx P xs = Some i \<Longrightarrow>
     i < length xs \<and> P (xs ! i) \<and> (\<forall>x\<in>set (take i xs). \<not> P x)"
  by (induction xs arbitrary: i) (auto split: if_splits)

lemma find_idx_split:
  assumes "find_idx P xs = Some i"
  shows "xs = take i xs @ xs ! i # drop (Suc i) xs" "P (xs ! i)" "\<forall>x\<in>set (take i xs). \<not> P x"
  using find_idx_SomeD [OF assms] by (auto simp: id_take_nth_drop)

lemma find_idx_append:
  "(\<forall>x\<in>set xs. \<not> P x) \<Longrightarrow> P y \<Longrightarrow> find_idx P (xs @ y # ys) = Some (length xs)"
  by (induction xs) auto

lemma find_idx_less: "find_idx P xs = Some i \<Longrightarrow> i < length xs"
  by (drule find_idx_SomeD) simp

lemma find_sub_SomeD:
  "find_sub pat s = Some i \<Longrightarrow> i + length pat \<le> length s \<and> take (length pat) (drop i s) = pat"
proof (induction pat s arbitrary: i rule: find_sub.induct)
  case (1 pat)
  then show ?case by (auto split: if_splits)
next
  case (2 pat c cs)
  show ?case
  proof (cases "take (length pat) (c # cs) = pat")
    case True
    then have "length pat \<le> length (c # cs)" by (metis length_take min.cobounded1)
    with True 2 show ?thesis by auto
  next
    case False
    with 2 show ?thesis by auto
  qed
qed

lemma find_sub_lower:
  "find_sub pat s = Some i \<Longrightarrow> j < i \<Longrightarrow> take (length pat) (drop j s) \<noteq> pat"
proof (induction pat s arbitrary: i j rule: find_sub.induct)
  case (1 pat)
  then show ?case by (auto split: if_splits)
next
  case (2 pat c cs)
  then show ?case by (cases j) (auto split: if_splits)
qed

lemma rfind_upto_SomeD:
  assumes "rfind_upto P s n = Some p"
  shows "p \<le> n" "p < length s" "P (s ! p)" "\<forall>j. p < j \<and> j \<le> n \<and> j < length s \<longrightarrow> \<not> P (s ! j)"
proof -
  define t where "t = take (Suc n) s"
  from assms obtain j where j: "find_idx P (rev t) = Some j" and p: "p = length t - Suc j"
    by (auto simp: rfind_upto_def t_def Let_def)
  from find_idx_SomeD [OF j] have lt: "j < length t" and Pj: "P (rev t ! j)"
    and before: "\<forall>x\<in>set (take j (rev t)). \<not> P x" by auto
  show "p \<le> n" "p < length s" using lt p by (auto simp: t_def)
  show "P (s ! p)" using Pj lt p by (auto simp: rev_nth t_def)
  show "\<forall>i. p < i \<and> i \<le> n \<and> i < length s \<longrightarrow> \<not> P (s ! i)"
  proof (intro allI impI)
    fix i assume i: "p < i \<and> i \<le> n \<and> i < length s"
    then have it: "i < length t" "s ! i = t ! i" by (auto simp: t_def)
    have "t ! i = take j (rev t) ! (length t - Suc i)" and "length t - Suc i < length (take j (rev t))"
      using it i lt p by (auto simp: rev_nth Suc_diff_Suc)
    then have "t ! i \<in> set (take j (rev t))" by (metis nth_mem)
    with before it show "\<not> P (s ! i)" by auto
  qed
qed

lemma rfind_upto_None:
  "rfind_upto P s n = None \<longleftrightarrow> (\<forall>j\<le>n. j < length s \<longrightarrow> \<not> P (s ! j))"
proof -
  have "(\<forall>x\<in>set (take (Suc n) s). \<not> P x) \<longleftrightarrow> (\<forall>j\<le>n. j < length s \<longrightarrow> \<not> P (s ! j))"
    by (auto simp: set_conv_nth less_Suc_eq_le)
  then show ?thesis by (simp add: rfind_upto_def Let_def find_idx_None)
qed

end
