(* ===== verification/Act.thy ===== *)
theory Act
  imports Prelude
begin

text \<open>
  Code that changes state, has effects on the outside and may throw: an action takes the state and
  returns its result or the exception, the effects so far in order, and the state as it is then. An
  exception ends the action but undoes nothing. The rules carry an invariant of the state through an
  action, on its error paths too.
\<close>

type_synonym ('s, 'o, 'a) act = "'s \<Rightarrow> 'a res \<times> 'o list \<times> 's"

definition retA :: "'a \<Rightarrow> ('s, 'o, 'a) act" where
  "retA x s = (Inr x, [], s)"

definition liftA :: "'a res \<Rightarrow> ('s, 'o, 'a) act" where
  "liftA r s = (r, [], s)"

definition emitA :: "'o list \<Rightarrow> ('s, 'o, unit) act" where
  "emitA out s = (Inr (), out, s)"

definition getA :: "('s \<Rightarrow> 'a) \<Rightarrow> ('s, 'o, 'a) act" where
  "getA f s = (Inr (f s), [], s)"

definition modA :: "('s \<Rightarrow> 's) \<Rightarrow> ('s, 'o, unit) act" where
  "modA f s = (Inr (), [], f s)"

definition bindA :: "('s, 'o, 'a) act \<Rightarrow> ('a \<Rightarrow> ('s, 'o, 'b) act) \<Rightarrow> ('s, 'o, 'b) act" where
  "bindA m f s = (case m s of (r, out, s1) \<Rightarrow>
     (case r of Inl e \<Rightarrow> (Inl e, out, s1)
      | Inr x \<Rightarrow> (case f x s1 of (r', out', s2) \<Rightarrow> (r', out @ out', s2))))"

definition thenA :: "('s, 'o, unit) act \<Rightarrow> ('s, 'o, 'b) act \<Rightarrow> ('s, 'o, 'b) act" where
  "thenA m n s = bindA m (\<lambda>_. n) s"

definition ifA :: "bool \<Rightarrow> ('s, 'o, unit) act \<Rightarrow> ('s, 'o, unit) act" where
  "ifA b m = (if b then m else retA ())"

text \<open>A loop with an accumulator.\<close>

primrec forA :: "('x \<Rightarrow> 'a \<Rightarrow> ('s, 'o, 'a) act) \<Rightarrow> 'x list \<Rightarrow> 'a \<Rightarrow> ('s, 'o, 'a) act" where
  "forA f [] a = retA a"
| "forA f (x # xs) a = bindA (f x a) (forA f xs)"

definition result :: "'a res \<times> 'o list \<times> 's \<Rightarrow> 'a res" where "result r = fst r"
definition effects :: "'a res \<times> 'o list \<times> 's \<Rightarrow> 'o list" where "effects r = fst (snd r)"
definition final :: "'a res \<times> 'o list \<times> 's \<Rightarrow> 's" where "final r = snd (snd r)"

lemmas act_defs = retA_def liftA_def emitA_def getA_def modA_def thenA_def ifA_def

lemma thenA_bindA: "thenA m n = bindA m (\<lambda>_. n)"
  by (simp add: fun_eq_iff thenA_def)

lemma result_simps [simp]:
  "result (r, out, s) = r" "effects (r, out, s) = out" "final (r, out, s) = s"
  by (simp_all add: result_def effects_def final_def)

section \<open>Runs that return\<close>

lemma bindA_InrE:
  assumes "bindA m f s = (Inr y, out, t)"
  obtains x out1 s1 out2 where "m s = (Inr x, out1, s1)" "f x s1 = (Inr y, out2, t)" "out = out1 @ out2"
  using assms by (auto simp: bindA_def split: prod.splits sum.splits)

lemma bindA_Inr_iff:
  "bindA m f s = (Inr y, out, t) \<longleftrightarrow>
     (\<exists>x out1 s1 out2. m s = (Inr x, out1, s1) \<and> f x s1 = (Inr y, out2, t) \<and> out = out1 @ out2)"
  by (auto simp: bindA_def split: prod.splits sum.splits)

lemma thenA_Inr_iff:
  "thenA m n s = (Inr y, out, t) \<longleftrightarrow>
     (\<exists>out1 s1 out2. m s = (Inr (), out1, s1) \<and> n s1 = (Inr y, out2, t) \<and> out = out1 @ out2)"
  by (simp add: thenA_def bindA_Inr_iff)

lemma thenA_InrE:
  assumes "thenA m n s = (Inr y, out, t)"
  obtains out1 s1 out2 where "m s = (Inr (), out1, s1)" "n s1 = (Inr y, out2, t)" "out = out1 @ out2"
  using assms by (auto simp: thenA_Inr_iff)

lemma act_Inr_iffs:
  "retA x s = (Inr y, out, t) \<longleftrightarrow> y = x \<and> out = [] \<and> t = s"
  "liftA r s = (Inr y, out, t) \<longleftrightarrow> r = Inr y \<and> out = [] \<and> t = s"
  "emitA o1 s = (Inr (), out, t) \<longleftrightarrow> out = o1 \<and> t = s"
  "getA g s = (Inr y, out, t) \<longleftrightarrow> y = g s \<and> out = [] \<and> t = s"
  "modA h s = (Inr (), out, t) \<longleftrightarrow> out = [] \<and> t = h s"
  by (auto simp: act_defs)

lemma forA_Inr_inv:
  assumes "forA f xs a s = (Inr b, out, t)" "P a s"
    and "\<And>x a s out b t. x \<in> set xs \<Longrightarrow> P a s \<Longrightarrow> f x a s = (Inr b, out, t) \<Longrightarrow> P b t"
  shows "P b t"
  using assms
proof (induction xs arbitrary: a s out)
  case Nil
  then show ?case by (simp add: retA_def)
next
  case (Cons x xs)
  from Cons.prems(1) obtain a1 out1 s1 out2 where
    st: "f x a s = (Inr a1, out1, s1)" "forA f xs a1 s1 = (Inr b, out2, t)"
    by (auto simp: bindA_Inr_iff)
  have "P a1 s1" by (rule Cons.prems(3) [OF _ Cons.prems(2) st(1)]) simp
  from Cons.IH [OF st(2) this] Cons.prems(3) show ?case by (meson list.set_intros(2))
qed

section \<open>Invariants\<close>

definition keepsA :: "('s \<Rightarrow> bool) \<Rightarrow> ('s, 'o, 'a) act \<Rightarrow> bool" where
  "keepsA I m = (\<forall>s. I s \<longrightarrow> I (final (m s)))"

lemma keepsAI: "(\<And>s. I s \<Longrightarrow> I (final (m s))) \<Longrightarrow> keepsA I m"
  by (simp add: keepsA_def)

lemma keepsAD: "keepsA I m \<Longrightarrow> I s \<Longrightarrow> I (final (m s))"
  by (simp add: keepsA_def)

lemma keepsA_basic [intro, simp]:
  "keepsA I (retA x)" "keepsA I (liftA r)" "keepsA I (emitA out)" "keepsA I (getA g)"
  by (simp_all add: keepsA_def act_defs)

lemma keepsA_mod: "(\<And>s. I s \<Longrightarrow> I (h s)) \<Longrightarrow> keepsA I (modA h)"
  by (simp add: keepsA_def modA_def)

lemma keepsA_bind [intro]:
  assumes "keepsA I m" "\<And>x. keepsA I (f x)"
  shows "keepsA I (bindA m f)"
proof (rule keepsAI)
  fix s assume I: "I s"
  obtain r out s1 where m: "m s = (r, out, s1)" by (cases "m s")
  with keepsAD [OF assms(1) I] have s1: "I s1" by simp
  show "I (final (bindA m f s))"
  proof (cases r)
    case (Inl e)
    with m s1 show ?thesis by (simp add: bindA_def)
  next
    case (Inr x)
    obtain r2 out2 s2 where f: "f x s1 = (r2, out2, s2)" by (cases "f x s1")
    with keepsAD [OF assms(2) s1, of x] have "I s2" by simp
    with m Inr f show ?thesis by (simp add: bindA_def)
  qed
qed

lemma keepsA_then [intro]: "keepsA I m \<Longrightarrow> keepsA I n \<Longrightarrow> keepsA I (thenA m n)"
  by (simp add: thenA_bindA keepsA_bind)

lemma keepsA_ifA [intro]: "keepsA I m \<Longrightarrow> keepsA I (ifA b m)"
  by (simp add: ifA_def)

lemma keepsA_if [intro]: "keepsA I m \<Longrightarrow> keepsA I n \<Longrightarrow> keepsA I (if b then m else n)"
  by simp

lemma keepsA_option [intro]:
  "keepsA I m \<Longrightarrow> (\<And>x. keepsA I (f x)) \<Longrightarrow> keepsA I (case y of None \<Rightarrow> m | Some x \<Rightarrow> f x)"
  by (simp split: option.splits)

lemma keepsA_sum [intro]:
  "(\<And>x. keepsA I (f x)) \<Longrightarrow> (\<And>x. keepsA I (g x)) \<Longrightarrow> keepsA I (case y of Inl x \<Rightarrow> f x | Inr x \<Rightarrow> g x)"
  by (simp split: sum.splits)

lemma keepsA_prod [intro]: "(\<And>x y. keepsA I (f x y)) \<Longrightarrow> keepsA I (case p of (x, y) \<Rightarrow> f x y)"
  by (simp split: prod.splits)

lemma keepsA_for [intro]: "(\<And>x a. keepsA I (f x a)) \<Longrightarrow> keepsA I (forA f xs a)"
  by (induction xs arbitrary: a) (auto intro: keepsA_bind)

section \<open>Frames\<close>

text \<open>An action that does not touch the part \<open>g\<close> of the state, whatever its result.\<close>

definition frameA :: "('s \<Rightarrow> 'v) \<Rightarrow> ('s, 'o, 'a) act \<Rightarrow> bool" where
  "frameA g m = (\<forall>s. g (final (m s)) = g s)"

lemma frameA_keeps: "frameA g m \<longleftrightarrow> (\<forall>c. keepsA (\<lambda>s. g s = c) m)"
  by (auto simp: frameA_def keepsA_def)

lemma frameAD: "frameA g m \<Longrightarrow> m s = (r, out, t) \<Longrightarrow> g t = g s"
  unfolding frameA_def by (metis result_simps(3))

lemma frameA_keepsA: "frameA g m \<Longrightarrow> keepsA (\<lambda>s. P (g s)) m"
  by (simp add: frameA_def keepsA_def)

lemma frameA_mono: "frameA g m \<Longrightarrow> frameA (\<lambda>s. f (g s)) m"
  by (simp add: frameA_def)

lemma frameA_basic [intro, simp]:
  "frameA g (retA x)" "frameA g (liftA r)" "frameA g (emitA out)" "frameA g (getA f)"
  by (simp_all add: frameA_keeps)

lemma frameA_mod: "(\<And>s. g (h s) = g s) \<Longrightarrow> frameA g (modA h)"
  by (simp add: frameA_def modA_def)

lemma frameA_bind [intro]: "frameA g m \<Longrightarrow> (\<And>x. frameA g (f x)) \<Longrightarrow> frameA g (bindA m f)"
  by (simp add: frameA_keeps keepsA_bind)

lemma frameA_then [intro]: "frameA g m \<Longrightarrow> frameA g n \<Longrightarrow> frameA g (thenA m n)"
  by (simp add: frameA_keeps keepsA_then)

lemma frameA_ifA [intro]: "frameA g m \<Longrightarrow> frameA g (ifA b m)"
  by (simp add: frameA_keeps keepsA_ifA)

lemma frameA_if [intro]: "frameA g m \<Longrightarrow> frameA g n \<Longrightarrow> frameA g (if b then m else n)"
  by simp

lemma frameA_for [intro]: "(\<And>x a. frameA g (f x a)) \<Longrightarrow> frameA g (forA f xs a)"
  by (simp add: frameA_keeps keepsA_for)

lemma frameA_option [intro]:
  "frameA g m \<Longrightarrow> (\<And>x. frameA g (f x)) \<Longrightarrow> frameA g (case y of None \<Rightarrow> m | Some x \<Rightarrow> f x)"
  by (simp split: option.splits)

lemma frameA_prod [intro]: "(\<And>x y. frameA g (f x y)) \<Longrightarrow> frameA g (case p of (x, y) \<Rightarrow> f x y)"
  by (simp split: prod.splits)

lemmas frame_rules = frameA_bind frameA_then frameA_ifA frameA_if frameA_for frameA_option frameA_prod frameA_basic
lemmas keep_rules = keepsA_bind keepsA_then keepsA_ifA keepsA_if keepsA_for keepsA_basic

section \<open>Effects\<close>

text \<open>An action that has no effects but those of a kind, whatever its result.\<close>

definition emitsA :: "('o \<Rightarrow> bool) \<Rightarrow> ('s, 'o, 'a) act \<Rightarrow> bool" where
  "emitsA Q m = (\<forall>s. list_all Q (effects (m s)))"

lemma emitsAD: "emitsA Q m \<Longrightarrow> m s = (r, out, t) \<Longrightarrow> list_all Q out"
  unfolding emitsA_def by (metis result_simps(2))

lemma emitsA_basic [intro, simp]:
  "emitsA Q (retA x)" "emitsA Q (liftA r)" "emitsA Q (getA g)" "emitsA Q (modA h)"
  by (simp_all add: emitsA_def act_defs)

lemma emitsA_emit [intro]: "list_all Q out \<Longrightarrow> emitsA Q (emitA out)"
  by (simp add: emitsA_def emitA_def)

lemma emitsA_bind [intro]:
  assumes "emitsA Q m" "\<And>x. emitsA Q (f x)"
  shows "emitsA Q (bindA m f)"
  unfolding emitsA_def
proof
  fix s
  obtain r out s1 where m: "m s = (r, out, s1)" by (cases "m s")
  with assms(1) have q: "list_all Q out" by (rule emitsAD)
  show "list_all Q (effects (bindA m f s))"
  proof (cases r)
    case (Inl e)
    with m q show ?thesis by (simp add: bindA_def)
  next
    case (Inr x)
    obtain r2 out2 s2 where f: "f x s1 = (r2, out2, s2)" by (cases "f x s1")
    with assms(2) [of x] have "list_all Q out2" by (rule emitsAD)
    with m q Inr f show ?thesis by (simp add: bindA_def)
  qed
qed

lemma emitsA_then [intro]: "emitsA Q m \<Longrightarrow> emitsA Q n \<Longrightarrow> emitsA Q (thenA m n)"
  by (simp add: thenA_bindA emitsA_bind)

lemma emitsA_option [intro]:
  "emitsA Q m \<Longrightarrow> (\<And>x. emitsA Q (f x)) \<Longrightarrow> emitsA Q (case y of None \<Rightarrow> m | Some x \<Rightarrow> f x)"
  by (simp split: option.splits)

lemma emitsA_sum [intro]:
  "(\<And>x. emitsA Q (f x)) \<Longrightarrow> (\<And>x. emitsA Q (g x)) \<Longrightarrow> emitsA Q (case y of Inl x \<Rightarrow> f x | Inr x \<Rightarrow> g x)"
  by (simp split: sum.splits)

lemma emitsA_prod [intro]: "(\<And>x y. emitsA Q (f x y)) \<Longrightarrow> emitsA Q (case p of (x, y) \<Rightarrow> f x y)"
  by (simp split: prod.splits)

lemma emitsA_ifA [intro]: "emitsA Q m \<Longrightarrow> emitsA Q (ifA b m)"
  by (simp add: ifA_def)

lemma emitsA_if [intro]: "emitsA Q m \<Longrightarrow> emitsA Q n \<Longrightarrow> emitsA Q (if b then m else n)"
  by simp

lemma emitsA_for [intro]: "(\<And>x a. emitsA Q (f x a)) \<Longrightarrow> emitsA Q (forA f xs a)"
  by (induction xs arbitrary: a) (auto intro: emitsA_bind)

lemma emitsA_mono: "emitsA Q m \<Longrightarrow> (\<And>e. Q e \<Longrightarrow> R e) \<Longrightarrow> emitsA R m"
  by (auto simp: emitsA_def list_all_iff)

lemmas emit_rules = emitsA_bind emitsA_then emitsA_option emitsA_sum emitsA_prod emitsA_emit emitsA_basic
  emitsA_ifA emitsA_if emitsA_for

section \<open>Effects under an invariant\<close>

definition safeA :: "('s \<Rightarrow> bool) \<Rightarrow> ('o \<Rightarrow> bool) \<Rightarrow> ('s, 'o, 'a) act \<Rightarrow> bool" where
  "safeA I Q m = (\<forall>s. I s \<longrightarrow> I (final (m s)) \<and> list_all Q (effects (m s)))"

lemma safeAI: "(\<And>s r out t. I s \<Longrightarrow> m s = (r, out, t) \<Longrightarrow> I t \<and> list_all Q out) \<Longrightarrow> safeA I Q m"
  unfolding safeA_def by (metis result_simps(2,3) prod_cases3)

lemma safeAD: "safeA I Q m \<Longrightarrow> I s \<Longrightarrow> m s = (r, out, t) \<Longrightarrow> I t \<and> list_all Q out"
  unfolding safeA_def by (metis result_simps(2,3))

lemma safeA_basic [intro, simp]: "safeA I Q (retA x)" "safeA I Q (liftA r)" "safeA I Q (getA g)"
  by (simp_all add: safeA_def act_defs)

lemma safeA_bind [intro]:
  assumes "safeA I Q m" "\<And>x. safeA I Q (f x)"
  shows "safeA I Q (bindA m f)"
proof (rule safeAI)
  fix s r out t assume s: "I s" and b: "bindA m f s = (r, out, t)"
  obtain r1 out1 s1 where m: "m s = (r1, out1, s1)" by (cases "m s")
  from safeAD [OF assms(1) s m] have 1: "I s1" "list_all Q out1" by simp_all
  show "I t \<and> list_all Q out"
  proof (cases r1)
    case (Inl e)
    with m b 1 show ?thesis by (simp add: bindA_def)
  next
    case (Inr x)
    obtain r2 out2 s2 where f: "f x s1 = (r2, out2, s2)" by (cases "f x s1")
    from safeAD [OF assms(2) 1(1) f] m b Inr f 1 show ?thesis by (auto simp: bindA_def)
  qed
qed

lemma safeA_then [intro]: "safeA I Q m \<Longrightarrow> safeA I Q n \<Longrightarrow> safeA I Q (thenA m n)"
  by (simp add: thenA_bindA safeA_bind)

lemma safeA_for: "(\<And>x a. x \<in> set xs \<Longrightarrow> safeA I Q (f x a)) \<Longrightarrow> safeA I Q (forA f xs a)"
  by (induction xs arbitrary: a) (auto intro: safeA_bind)

end
