(* ===== verification/Lib.thy ===== *)
theory Lib
  imports Prelude
begin

unbundle bit_operations_syntax

text \<open>
  \<open>src/lib.cpp\<close> and \<open>include/phntm_bridge/const.hpp\<close>: the string helpers, the message type tests,
  the hexadecimal printer and the conversion of a ROS time stamp to the 90 kHz clock of RTP.
  \<open>replace\<close> is a loop that need not end (an empty search string is found everywhere), so it is a
  \<open>partial_function (option)\<close>; the other loops are total.
\<close>

section \<open>Definitions\<close>

definition IMAGE_MSG_TYPE :: string where
  "IMAGE_MSG_TYPE = ''sensor_msgs/msg/Image''"

definition COMPRESSED_IMAGE_MSG_TYPE :: string where
  "COMPRESSED_IMAGE_MSG_TYPE = ''sensor_msgs/msg/CompressedImage''"

definition VIDEO_STREAM_MSG_TYPE :: string where
  "VIDEO_STREAM_MSG_TYPE = ''ffmpeg_image_transport_msgs/msg/FFMPEGPacket''"

definition HEARTBEAT_CHANNEL_ID :: string where
  "HEARTBEAT_CHANNEL_ID = ''_heartbeat''"

text \<open>The default of \<open>trim\<close>'s second argument: space, tab, newline, return, form feed, vertical tab.\<close>

definition ws_chars :: string where
  "ws_chars = [CHR '' '', CHR 0x09, CHR 0x0A, CHR 0x0D, CHR 0x0C, CHR 0x0B]"

definition trim :: "string \<Rightarrow> string \<Rightarrow> string" where
  "trim str trim_chars =
     (case find_idx (\<lambda>c. c \<notin> set trim_chars) str of
        None \<Rightarrow> []
      | Some start \<Rightarrow>
          (case rfind_upto (\<lambda>c. c \<notin> set trim_chars) str (length str) of
             None \<Rightarrow> []
           | Some en \<Rightarrow> take (en - start + 1) (drop start str)))"

partial_function (option) replace_loop :: "string \<Rightarrow> string \<Rightarrow> string \<Rightarrow> nat \<Rightarrow> string option" where
  "replace_loop search repl str pos =
     (case find_sub_from search str pos of
        None \<Rightarrow> Some str
      | Some p \<Rightarrow> replace_loop search repl
                    (take p str @ repl @ drop (p + length search) str) (p + length repl))"

declare replace_loop.simps [code]

definition replace_str :: "string \<Rightarrow> string \<Rightarrow> string \<Rightarrow> string option" where
  "replace_str str search repl = replace_loop search repl str 0"

text \<open>\<open>std::getline\<close> on a string stream: a delimiter at the very end starts no further token.\<close>

function split :: "string \<Rightarrow> char \<Rightarrow> string list" where
  "split str d =
     (if str = [] then []
      else case find_idx (\<lambda>c. c = d) str of
             None \<Rightarrow> [str]
           | Some i \<Rightarrow> take i str # split (drop (Suc i) str) d)"
  by pat_completeness auto
termination
  by (relation "measure (\<lambda>(s, d). length s)") auto

function rsplit_loop ::
  "string \<Rightarrow> char \<Rightarrow> int \<Rightarrow> string list \<Rightarrow> nat \<Rightarrow> nat option \<Rightarrow> string list \<times> nat" where
  "rsplit_loop str d maxsplit result last_pos None = (result, last_pos)"
| "rsplit_loop str d maxsplit result last_pos (Some pos) =
     (if maxsplit = -1 \<or> int (length result) < maxsplit
      then rsplit_loop str d maxsplit
             (result @ [take (last_pos - pos - 1) (drop (pos + 1) str)]) pos
             (if pos = 0 then None else rfind_upto (\<lambda>c. c = d) str (pos - 1))
      else (result, last_pos))"
  by pat_completeness auto
termination
  by (relation "measure (\<lambda>(s, d, m, r, l, p). case p of None \<Rightarrow> 0 | Some q \<Rightarrow> Suc q)")
     (auto split: option.splits dest!: rfind_upto_SomeD(1))

definition rsplit :: "string \<Rightarrow> char \<Rightarrow> int \<Rightarrow> string list" where
  "rsplit str d maxsplit =
     (let (result, last_pos) =
            rsplit_loop str d maxsplit [] (length str) (rfind_upto (\<lambda>c. c = d) str (length str))
      in rev (if last_pos > 0 then result @ [take last_pos str] else result @ [[]]))"

definition join :: "string list \<Rightarrow> string \<Rightarrow> string" where
  "join vec separator =
     (if vec = [] then []
      else fold (\<lambda>i result. result @ vec ! i @ (if i < length vec - 1 then separator else []))
             [0..<length vec] [])"

definition to_lower :: "char \<Rightarrow> char" where
  "to_lower c =
     (let n = (of_char c :: nat) in if 65 \<le> n \<and> n \<le> 90 then char_of (n + 32) else c)"

definition strToLower :: "string \<Rightarrow> string" where
  "strToLower s = map to_lower s"

definition isImageType :: "string \<Rightarrow> bool" where
  "isImageType msg_type = (msg_type = IMAGE_MSG_TYPE)"

definition isCompressedImageType :: "string \<Rightarrow> bool" where
  "isCompressedImageType msg_type = (msg_type = COMPRESSED_IMAGE_MSG_TYPE)"

definition isEncodedVideoType :: "string \<Rightarrow> bool" where
  "isEncodedVideoType msg_type = (msg_type = VIDEO_STREAM_MSG_TYPE)"

definition isImageOrVideoType :: "string \<Rightarrow> bool" where
  "isImageOrVideoType msg_type =
     (msg_type = IMAGE_MSG_TYPE \<or> msg_type = COMPRESSED_IMAGE_MSG_TYPE \<or>
      msg_type = VIDEO_STREAM_MSG_TYPE)"

definition hex_chars :: "bool \<Rightarrow> string" where
  "hex_chars uppercase = (if uppercase then ''0123456789ABCDEF'' else ''0123456789abcdef'')"

definition toHex :: "32 word \<Rightarrow> bool \<Rightarrow> string" where
  "toHex num uppercase =
     (let result = fold (\<lambda>i result.
            let nibble = unat (drop_bit i num AND 15)
            in if nibble \<noteq> 0 \<or> result \<noteq> [] then result @ [hex_chars uppercase ! nibble] else result)
          [28, 24, 20, 16, 12, 8, 4, 0] []
      in if result = [] then ''0'' else result)"

definition convertToRtpTimestamp :: "32 word \<Rightarrow> 32 word \<Rightarrow> 64 word" where
  "convertToRtpTimestamp sec nanosec =
     (let total_ns = (scast sec :: 64 word) * 1000000000 + ucast nanosec
      in (total_ns * 90000) div 1000000000)"

text \<open>\<open>uuid\<close> stands for the text libuuid returns.\<close>

definition generateId :: "string \<Rightarrow> nat \<Rightarrow> string option" where
  "generateId uuid len = map_option (take len) (replace_str uuid ''-'' [])"

text \<open>\<open>now_ns\<close>: nanoseconds since the epoch; \<open>seconds.count()\<close> is narrowed to \<open>int32_t\<close>.\<close>

definition getCurrentRtpTimestamp :: "64 word \<Rightarrow> 64 word" where
  "getCurrentRtpTimestamp now_ns =
     convertToRtpTimestamp (ucast (now_ns div 1000000000)) (ucast (now_ns mod 1000000000))"

declare split.simps [simp del]

section \<open>trim\<close>

lemma dropWhile_find_idx:
  "dropWhile (\<lambda>c. \<not> P c) s = (case find_idx P s of None \<Rightarrow> [] | Some i \<Rightarrow> drop i s)"
  by (induction s) (auto split: option.splits)

lemma rev_dropWhile_rfind:
  "rev (dropWhile (\<lambda>c. \<not> P c) (rev s)) =
     (case rfind_upto P s (length s) of None \<Rightarrow> [] | Some e \<Rightarrow> take (Suc e) s)"
proof (cases "find_idx P (rev s)")
  case None
  then show ?thesis by (simp add: dropWhile_find_idx rfind_upto_def)
next
  case (Some j)
  then have "j < length s" by (auto dest: find_idx_less)
  then show ?thesis
    using Some by (simp add: dropWhile_find_idx rfind_upto_def rev_drop Suc_diff_Suc)
qed

lemma rfind_upto_length_drop:
  assumes "find_idx P s = Some i"
  shows "\<exists>e. rfind_upto P s (length s) = Some e \<and> i \<le> e \<and>
             rfind_upto P (drop i s) (length (drop i s)) = Some (e - i)"
proof -
  from find_idx_SomeD [OF assms] have i: "i < length s" "P (s ! i)" by auto
  then obtain e where e: "rfind_upto P s (length s) = Some e"
    by (metis not_None_eq rfind_upto_None order.strict_implies_order)
  from i e have ie: "i \<le> e"
    using rfind_upto_SomeD [OF e] by (metis leI less_imp_le_nat)
  from i obtain f where f: "rfind_upto P (drop i s) (length (drop i s)) = Some f"
    by (metis (no_types, lifting) add.right_neutral length_drop not_None_eq nth_drop rfind_upto_None
        zero_le zero_less_diff less_imp_le_nat)
  have "e \<le> i + f"
  proof (rule ccontr)
    assume "\<not> e \<le> i + f"
    moreover have "P (drop i s ! (e - i))" "e - i < length (drop i s)"
      using rfind_upto_SomeD [OF e] ie by auto
    moreover have "f < e - i" using \<open>\<not> e \<le> i + f\<close> by simp
    ultimately show False using rfind_upto_SomeD(4) [OF f] by (meson less_imp_le_nat)
  qed
  moreover have "i + f \<le> e"
  proof (rule ccontr)
    assume a: "\<not> i + f \<le> e"
    moreover have "P (s ! (i + f))" "i + f < length s"
      using rfind_upto_SomeD [OF f] i by auto
    ultimately show False using rfind_upto_SomeD(4) [OF e] by auto
  qed
  ultimately have "f = e - i" by simp
  with e f ie show ?thesis by auto
qed

lemma trim_eq:
  "trim s cs = rev (dropWhile (\<lambda>c. c \<in> set cs) (rev (dropWhile (\<lambda>c. c \<in> set cs) s)))"
proof (cases "find_idx (\<lambda>c. c \<notin> set cs) s")
  case None
  then have dn: "dropWhile (\<lambda>c. c \<in> set cs) s = []"
    by (auto simp: find_idx_None dropWhile_eq_Nil_conv)
  show ?thesis unfolding dn trim_def None by simp
next
  case (Some i)
  from rfind_upto_length_drop [OF Some] obtain e
    where e: "rfind_upto (\<lambda>c. c \<notin> set cs) s (length s) = Some e" "i \<le> e"
      "rfind_upto (\<lambda>c. c \<notin> set cs) (drop i s) (length (drop i s)) = Some (e - i)" by blast
  have "dropWhile (\<lambda>c. c \<in> set cs) s = drop i s"
    using dropWhile_find_idx [of "\<lambda>c. c \<notin> set cs" s] Some by simp
  then show ?thesis
    using rev_dropWhile_rfind [of "\<lambda>c. c \<notin> set cs" "drop i s"] Some e by (simp add: trim_def)
qed

text \<open>\<open>trim\<close> removes exactly the leading and the trailing characters of the given set.\<close>

theorem trim_correct:
  "trim s cs = rev (dropWhile (\<lambda>c. c \<in> set cs) (rev (dropWhile (\<lambda>c. c \<in> set cs) s)))"
  by (rule trim_eq)

section \<open>replace\<close>

lemma find_sub_from_SomeD:
  "find_sub_from pat s from = Some p \<Longrightarrow> from \<le> p \<and> p + length pat \<le> length s"
  by (auto simp: find_sub_from_def dest!: find_sub_SomeD split: if_splits)

lemma replace_loop_total:
  assumes "search \<noteq> []"
  shows "\<exists>r. replace_loop search repl str pos = Some r"
proof (induction "length str - pos" arbitrary: str pos rule: less_induct)
  case less
  show ?case
  proof (cases "find_sub_from search str pos")
    case None
    then show ?thesis by (simp add: replace_loop.simps)
  next
    case (Some p)
    let ?s = "take p str @ repl @ drop (p + length search) str"
    from find_sub_from_SomeD [OF Some] assms
    have "length ?s - (p + length repl) < length str - pos"
      by (cases search) auto
    from less.hyps [OF this] Some show ?thesis by (simp add: replace_loop.simps)
  qed
qed

lemma find_sub_Nil: "find_sub [] s = Some 0"
  by (cases s) auto

lemma replace_loop_empty_diverges:
  assumes "pos \<le> length str"
  shows "replace_loop [] repl str pos = None"
proof (rule ccontr)
  assume "replace_loop [] repl str pos \<noteq> None"
  then obtain r where r: "replace_loop [] repl str pos = Some r" by auto
  have "\<not> (([]::string) = [] \<and> pos \<le> length str)"
  proof (rule replace_loop.raw_induct [where P = "\<lambda>se re s p _. \<not> (se = [] \<and> p \<le> length s)", OF _ r])
    fix f :: "string \<Rightarrow> string \<Rightarrow> string \<Rightarrow> nat \<Rightarrow> string option" and se re s p t
    assume IH: "\<And>se re s p r. f se re s p = Some r \<Longrightarrow> \<not> (se = [] \<and> p \<le> length s)"
      and eq: "(case find_sub_from se s p of None \<Rightarrow> Some s
        | Some q \<Rightarrow> f se re (take q s @ re @ drop (q + length se) s) (q + length re)) = Some t"
    show "\<not> (se = [] \<and> p \<le> length s)"
    proof
      assume h: "se = [] \<and> p \<le> length s"
      then have "find_sub_from se s p = Some p" by (simp add: find_sub_from_def find_sub_Nil)
      with eq have "f se re (take p s @ re @ drop (p + length se) s) (p + length re) = Some t" by simp
      from IH [OF this] h show False by simp
    qed
  qed
  with assms show False by simp
qed

text \<open>\<open>replace\<close> returns if and only if the text searched for is not empty: with an empty one its
  loop finds a match at every position and never ends.\<close>

theorem replace_returns_iff: "(\<exists>r. replace_str str search repl = Some r) \<longleftrightarrow> search \<noteq> []"
  by (cases "search = []") (auto simp: replace_str_def replace_loop_empty_diverges replace_loop_total)

text \<open>A one-character search text: what the code uses for \<open>-\<close> and \<open>_\<close>.\<close>

lemma find_sub_single: "find_sub [c] s = find_idx (\<lambda>x. x = c) s"
  by (induction s) auto

lemma replace_loop_single:
  "pos \<le> length str \<Longrightarrow> replace_loop [c] repl str pos =
     Some (take pos str @ concat (map (\<lambda>x. if x = c then repl else [x]) (drop pos str)))"
proof (induction "length str - pos" arbitrary: str pos rule: less_induct)
  case less
  let ?f = "\<lambda>x. if x = c then repl else [x]"
  show ?case
  proof (cases "find_idx (\<lambda>x. x = c) (drop pos str)")
    case None
    then have "map ?f (drop pos str) = map (\<lambda>x. [x]) (drop pos str)"
      by (intro map_cong) (auto simp: find_idx_None)
    then have "concat (map ?f (drop pos str)) = concat (map (\<lambda>x. [x]) (drop pos str))"
      by (rule arg_cong)
    also have "\<dots> = drop pos str" by (simp add: concat_map_singleton)
    finally have "concat (map ?f (drop pos str)) = drop pos str" .
    with None less.prems show ?thesis
      by (simp add: replace_loop.simps find_sub_from_def find_sub_single)
  next
    case (Some i)
    define a where "a = take i (drop pos str)"
    define b where "b = drop (Suc i) (drop pos str)"
    from find_idx_split [OF Some] have d: "drop pos str = a @ c # b" "\<forall>x\<in>set a. x \<noteq> c"
      by (auto simp: a_def b_def)
    have la: "length a = i" using find_idx_less [OF Some] by (simp add: a_def)
    let ?s = "take (pos + i) str @ repl @ drop (pos + i + 1) str"
    have tk: "take (pos + i) str = take pos str @ a" by (simp add: a_def take_add)
    have dr: "drop (pos + i + 1) str = b" by (simp add: b_def add.commute add.left_commute)
    have len: "length (take (pos + i) str) = pos + i"
      using find_idx_less [OF Some] less.prems by simp
    have "length ?s - (pos + i + length repl) < length str - pos"
      using find_idx_less [OF Some] less.prems by simp
    moreover have "pos + i + length repl \<le> length ?s" using len by simp
    ultimately have "replace_loop [c] repl ?s (pos + i + length repl) =
        Some (take (pos + i + length repl) ?s @ concat (map ?f (drop (pos + i + length repl) ?s)))"
      by (rule less.hyps)
    also have "take (pos + i + length repl) ?s = take pos str @ a @ repl"
      using len by (simp add: tk)
    also have "drop (pos + i + length repl) ?s = b"
      using len dr by simp
    finally have step: "replace_loop [c] repl ?s (pos + i + length repl) =
        Some ((take pos str @ a @ repl) @ concat (map ?f b))" .
    have "concat (map ?f a) = a" using d(2) by (induction a) auto
    then have "concat (map ?f (drop pos str)) = a @ repl @ concat (map ?f b)" by (simp add: d(1))
    with step less.prems Some show ?thesis
      by (simp add: replace_loop.simps [of "[c]" repl str] find_sub_from_def find_sub_single)
  qed
qed

lemma replace_str_single:
  "replace_str str [c] repl = Some (concat (map (\<lambda>x. if x = c then repl else [x]) str))"
  by (simp add: replace_str_def replace_loop_single)

lemma generateId_eq: "generateId uuid len = Some (take len (filter (\<lambda>x. x \<noteq> CHR ''-'') uuid))"
proof -
  have "concat (map (\<lambda>x. if x = CHR ''-'' then [] else [x]) uuid) = filter (\<lambda>x. x \<noteq> CHR ''-'') uuid"
    by (induction uuid) auto
  then show ?thesis by (simp add: generateId_def replace_str_single)
qed

section \<open>split, rsplit, join\<close>

fun intercalate :: "string \<Rightarrow> string list \<Rightarrow> string" where
  "intercalate sep [] = []"
| "intercalate sep [x] = x"
| "intercalate sep (x # y # zs) = x @ sep @ intercalate sep (y # zs)"

lemma intercalate_Cons: "xs \<noteq> [] \<Longrightarrow> intercalate sep (x # xs) = x @ sep @ intercalate sep xs"
  by (cases xs) auto

lemma intercalate_snoc: "xs \<noteq> [] \<Longrightarrow> intercalate sep (xs @ [x]) = intercalate sep xs @ sep @ x"
  by (induction sep xs rule: intercalate.induct) (auto simp: intercalate_Cons)

lemma fold_join_prefix:
  "fold (\<lambda>i result. result @ f i) xs acc = acc @ concat (map f xs)"
  by (induction xs arbitrary: acc) auto

lemma concat_separated:
  "vec \<noteq> [] \<Longrightarrow>
   concat (map (\<lambda>i. vec ! i @ (if i < length vec - 1 then sep else [])) [0..<length vec]) = intercalate sep vec"
proof (induction vec)
  case Nil
  then show ?case by simp
next
  case (Cons x xs)
  have "[0..<length (x # xs)] = 0 # map Suc [0..<length xs]"
    by (simp add: upt_conv_Cons map_Suc_upt del: upt_Suc)
  then have "concat (map (\<lambda>i. (x # xs) ! i @ (if i < length (x # xs) - 1 then sep else [])) [0..<length (x # xs)])
      = x @ (if xs = [] then [] else sep) @
        concat (map (\<lambda>i. xs ! i @ (if Suc i < length xs then sep else [])) [0..<length xs])"
    by (simp add: comp_def del: upt_Suc)
  moreover have "(\<lambda>i. xs ! i @ (if Suc i < length xs then sep else [])) = (\<lambda>i. xs ! i @ (if i < length xs - 1 then sep else []))"
    by (auto simp: fun_eq_iff)
  ultimately show ?case using Cons.IH by (cases "xs = []") (auto simp: intercalate_Cons)
qed

lemma join_intercalate: "join vec sep = intercalate sep vec"
  by (cases "vec = []")
     (simp_all add: join_def fold_join_prefix concat_separated del: One_nat_def)

lemma split_nonempty: "s \<noteq> [] \<Longrightarrow> split s d \<noteq> []"
  by (subst split.simps) (auto split: option.splits)

text \<open>\<open>split\<close> loses nothing: joining the tokens with the delimiter gives the text back, but for a
  delimiter at its very end; and no token contains the delimiter.\<close>

theorem split_join:
  "join (split s d) [d] @ (if s \<noteq> [] \<and> last s = d then [d] else []) = s \<and>
   d \<notin> \<Union> (set ` set (split s d))"
proof (induction s d rule: split.induct)
  case (1 s d)
  show ?case
  proof (cases "s = []")
    case True
    then show ?thesis by (simp add: split.simps join_def)
  next
    case False
    show ?thesis
    proof (cases "find_idx (\<lambda>c. c = d) s")
      case None
      then have "split s d = [s]" using False by (simp add: split.simps)
      moreover have "d \<notin> set s" using None by (auto simp: find_idx_None)
      ultimately show ?thesis using False by (auto simp: join_intercalate)
    next
      case (Some i)
      let ?r = "drop (Suc i) s"
      have eq: "split s d = take i s # split ?r d" using False Some by (simp add: split.simps)
      from find_idx_split [OF Some] have s: "s = take i s @ d # ?r" "d \<notin> set (take i s)" by auto
      from "1.IH" [OF False Some]
      have IH: "join (split ?r d) [d] @ (if ?r \<noteq> [] \<and> last ?r = d then [d] else []) = ?r"
        "d \<notin> \<Union> (set ` set (split ?r d))" by auto
      have last: "last s = (if ?r = [] then d else last ?r)" by (subst s(1)) simp
      show ?thesis
      proof (cases "?r = []")
        case True
        then have "split s d = [take i s]" "last s = d" using eq last by (simp_all add: split.simps)
        moreover have "take i s @ [d] = s" using s(1) True by simp
        ultimately show ?thesis using s(2) False by (simp add: join_intercalate)
      next
        case ne: False
        then have "join (split s d) [d] = take i s @ [d] @ join (split ?r d) [d]"
          using eq split_nonempty [OF ne] by (simp add: join_intercalate intercalate_Cons)
        moreover have "(s \<noteq> [] \<and> last s = d) = (?r \<noteq> [] \<and> last ?r = d)"
          using last ne False by (simp only: if_False)
        ultimately have "join (split s d) [d] @ (if s \<noteq> [] \<and> last s = d then [d] else []) = take i s @ [d] @ ?r"
          by (simp only: IH(1) append_assoc)
        then have "join (split s d) [d] @ (if s \<noteq> [] \<and> last s = d then [d] else []) = s"
          by (simp only: append.simps s(1) [symmetric])
        moreover have "d \<notin> \<Union> (set ` set (split s d))" using eq s(2) IH(2) by simp
        ultimately show ?thesis by blast
      qed
    qed
  qed
qed

lemma rsplit_loop_inv:
  assumes "rsplit_loop str d m res last_pos pos = (res', last')"
    and "last_pos \<le> length str"
    and "intercalate [d] (take last_pos str # rev res) = str"
    and "\<forall>p. pos = Some p \<longrightarrow> p < last_pos \<and> str ! p = d \<and> (\<forall>j. p < j \<and> j < last_pos \<longrightarrow> str ! j \<noteq> d)"
    and "d \<notin> \<Union> (set ` set res)"
  shows "last' \<le> length str \<and> intercalate [d] (take last' str # rev res') = str \<and>
         d \<notin> \<Union> (set ` set res')"
  using assms
proof (induction str d m res last_pos pos rule: rsplit_loop.induct)
  case (1 str d m res l)
  then show ?case by simp
next
  case (2 str d m res l p)
  show ?case
  proof (cases "m = -1 \<or> int (length res) < m")
    case False
    with 2 show ?thesis by simp
  next
    case True
    let ?piece = "take (l - p - 1) (drop (p + 1) str)"
    let ?next = "if p = 0 then None else rfind_upto (\<lambda>c. c = d) str (p - 1)"
    from 2(5) have p: "p < l" "str ! p = d" "\<And>j. p < j \<Longrightarrow> j < l \<Longrightarrow> str ! j \<noteq> d" by auto
    have l: "l \<le> length str" by fact
    have "take l str = take p str @ d # ?piece"
    proof -
      have "take l str = take p (take l str) @ take l str ! p # drop (Suc p) (take l str)"
        using p(1) l by (intro id_take_nth_drop) simp
      with p l show ?thesis by (simp add: drop_take)
    qed
    then have inter: "intercalate [d] (take p str # rev (res @ [?piece])) = str"
      using "2.prems"(3) by (cases "rev res") auto
    have piece: "d \<notin> set ?piece"
    proof
      assume "d \<in> set ?piece"
      then obtain j where "j < length ?piece" "?piece ! j = d" by (auto simp: in_set_conv_nth)
      moreover from this have "p + 1 + j < l" by (simp add: less_diff_conv)
      ultimately show False using p(3) [of "p + 1 + j"] l by auto
    qed
    have nxt: "\<forall>q. ?next = Some q \<longrightarrow> q < p \<and> str ! q = d \<and> (\<forall>j. q < j \<and> j < p \<longrightarrow> str ! j \<noteq> d)"
    proof (intro allI impI)
      fix q assume q: "?next = Some q"
      then have r: "p \<noteq> 0" "rfind_upto (\<lambda>c. c = d) str (p - 1) = Some q" by (auto split: if_splits)
      from rfind_upto_SomeD [OF r(2)] r(1) p(1) l
      show "q < p \<and> str ! q = d \<and> (\<forall>j. q < j \<and> j < p \<longrightarrow> str ! j \<noteq> d)" by force
    qed
    have "rsplit_loop str d m (res @ [?piece]) p ?next = (res', last')"
      using "2.prems"(1) True by simp
    moreover have "p \<le> length str" using p(1) l by simp
    moreover have "d \<notin> \<Union> (set ` set (res @ [?piece]))"
      using piece "2.prems"(5) by (simp only: set_append image_Un Union_Un_distrib) simp
    ultimately show ?thesis by (rule "2.IH" [OF True _ _ inter nxt])
  qed
qed

lemma rsplit_loop_length:
  "rsplit_loop str d m res l pos = (res', l') \<Longrightarrow> m \<noteq> -1 \<Longrightarrow> int (length res) \<le> max 0 m \<Longrightarrow>
   int (length res') \<le> max 0 m"
  by (induction str d m res l pos rule: rsplit_loop.induct) (auto split: if_splits)

text \<open>\<open>rsplit\<close> splits from the right and loses nothing: joining the parts gives the text back for
  every \<open>maxsplit\<close>, and only the first part can still contain the delimiter.\<close>

theorem rsplit_join:
  "join (rsplit str d maxsplit) [d] = str \<and> d \<notin> \<Union> (set ` set (tl (rsplit str d maxsplit)))"
proof -
  let ?pos = "rfind_upto (\<lambda>c. c = d) str (length str)"
  obtain res l where r: "rsplit_loop str d maxsplit [] (length str) ?pos = (res, l)"
    by (cases "rsplit_loop str d maxsplit [] (length str) ?pos")
  have "\<forall>p. ?pos = Some p \<longrightarrow> p < length str \<and> str ! p = d \<and> (\<forall>j. p < j \<and> j < length str \<longrightarrow> str ! j \<noteq> d)"
  proof (intro allI impI)
    fix p assume p: "?pos = Some p"
    show "p < length str \<and> str ! p = d \<and> (\<forall>j. p < j \<and> j < length str \<longrightarrow> str ! j \<noteq> d)"
      using rfind_upto_SomeD(2-4) [OF p] by simp
  qed
  from rsplit_loop_inv [OF r _ _ this]
  have inv: "intercalate [d] (take l str # rev res) = str" "d \<notin> \<Union> (set ` set res)" by auto
  have "rsplit str d maxsplit = take l str # rev res"
    by (auto simp: rsplit_def r)
  with inv show ?thesis by (simp add: join_intercalate)
qed

lemma rsplit_length_bound:
  assumes "0 \<le> maxsplit"
  shows "length (rsplit str d maxsplit) \<le> nat maxsplit + 1"
proof -
  let ?pos = "rfind_upto (\<lambda>c. c = d) str (length str)"
  obtain res l where r: "rsplit_loop str d maxsplit [] (length str) ?pos = (res, l)"
    by (cases "rsplit_loop str d maxsplit [] (length str) ?pos")
  from rsplit_loop_length [OF r] assms have "int (length res) \<le> maxsplit" by simp
  then show ?thesis by (auto simp: rsplit_def r)
qed

section \<open>toHex\<close>

definition hexdigit :: "char \<Rightarrow> nat" where
  "hexdigit c =
     (let n = (of_char c :: nat)
      in if n < 58 then n - 48 else if n < 71 then n - 55 else n - 87)"

definition hexval :: "string \<Rightarrow> nat" where
  "hexval s = fold (\<lambda>c a. 16 * a + hexdigit c) s 0"

definition hex_step :: "bool \<Rightarrow> 32 word \<Rightarrow> nat \<Rightarrow> string \<Rightarrow> string" where
  "hex_step uppercase num i result =
     (let nibble = unat (drop_bit i num AND 15)
      in if nibble \<noteq> 0 \<or> result \<noteq> [] then result @ [hex_chars uppercase ! nibble] else result)"

lemma nibble_eq: "unat (drop_bit i (num :: 32 word) AND 15) = unat num div 2 ^ i mod 16"
proof -
  have "drop_bit i num AND 15 = take_bit 4 (drop_bit i num)"
    by (simp add: take_bit_eq_mask mask_numeral mask_eq_exp_minus_1)
  moreover have "unat (take_bit 4 (drop_bit i num)) = take_bit 4 (drop_bit i (unat num))"
    by (simp only: unsigned_take_bit_eq unat_drop_bit_eq)
  ultimately show ?thesis by (simp only: take_bit_eq_mod drop_bit_eq_div) simp
qed

lemma hex_chars_value:
  assumes "n < 16"
  shows "hexdigit (hex_chars u ! n) = n" "n \<noteq> 0 \<Longrightarrow> hex_chars u ! n \<noteq> CHR ''0''"
proof -
  have "\<forall>n\<in>set [0..<16]. \<forall>u. hexdigit (hex_chars u ! n) = n \<and> (n \<noteq> 0 \<longrightarrow> hex_chars u ! n \<noteq> CHR ''0'')"
    by (simp add: upt_rec hex_chars_def hexdigit_def)
  with assms show "hexdigit (hex_chars u ! n) = n" "n \<noteq> 0 \<Longrightarrow> hex_chars u ! n \<noteq> CHR ''0''" by auto
qed

lemma hex_step_value:
  assumes "hexval res = unat num div 2 ^ (i + 4)" "res = [] \<or> hd res \<noteq> CHR ''0''"
  shows "hexval (hex_step u num i res) = unat num div 2 ^ i"
    and "hex_step u num i res = [] \<or> hd (hex_step u num i res) \<noteq> CHR ''0''"
    and "length (hex_step u num i res) \<le> Suc (length res)"
proof -
  let ?n = "unat num div 2 ^ i mod 16"
  have n: "?n < 16" by simp
  have "unat num div 2 ^ (i + 4) = unat num div 2 ^ i div 16" by (simp add: power_add div_mult2_eq)
  then have v: "16 * hexval res + ?n = unat num div 2 ^ i" using assms(1) by simp
  have ap: "hexval (res @ [hex_chars u ! ?n]) = 16 * hexval res + ?n"
    using hex_chars_value(1) [OF n] by (simp add: hexval_def)
  show "hexval (hex_step u num i res) = unat num div 2 ^ i"
    using v ap by (auto simp: hex_step_def nibble_eq Let_def hexval_def)
  show "hex_step u num i res = [] \<or> hd (hex_step u num i res) \<noteq> CHR ''0''"
    using assms(2) hex_chars_value(2) [OF n] by (cases res) (auto simp: hex_step_def nibble_eq Let_def)
  show "length (hex_step u num i res) \<le> Suc (length res)"
    by (simp add: hex_step_def Let_def)
qed

lemma hex_steps_value:
  assumes "\<forall>j<length is. is ! j = 4 * (length is - Suc j)" "unat num < 2 ^ (4 * length is)"
    and "res = fold (hex_step u num) is []"
  shows "hexval res = unat num" "res = [] \<or> hd res \<noteq> CHR ''0''" "length res \<le> length is"
proof -
  have "\<And>k. k \<le> length is \<Longrightarrow>
      (let r = fold (hex_step u num) (take k is) []
       in hexval r = unat num div 2 ^ (4 * (length is - k)) \<and> (r = [] \<or> hd r \<noteq> CHR ''0'') \<and> length r \<le> k)"
  proof -
    fix k
    show "k \<le> length is \<Longrightarrow>
      (let r = fold (hex_step u num) (take k is) []
       in hexval r = unat num div 2 ^ (4 * (length is - k)) \<and> (r = [] \<or> hd r \<noteq> CHR ''0'') \<and> length r \<le> k)"
    proof (induction k)
      case 0
      with assms(2) show ?case by (simp add: hexval_def)
    next
      case (Suc k)
      let ?r = "fold (hex_step u num) (take k is) []"
      have k: "k < length is" using Suc.prems by simp
      have ik: "is ! k = 4 * (length is - Suc k)" using assms(1) k by simp
      have "4 * (length is - k) = is ! k + 4" using k ik by simp
      then have h: "hexval ?r = unat num div 2 ^ (is ! k + 4)" "?r = [] \<or> hd ?r \<noteq> CHR ''0''" "length ?r \<le> k"
        using Suc by (auto simp: Let_def)
      have "fold (hex_step u num) (take (Suc k) is) [] = hex_step u num (is ! k) ?r"
        using k by (simp add: take_Suc_conv_app_nth)
      then show ?case using hex_step_value [OF h(1,2), of u] h(3) ik by (simp add: Let_def)
    qed
  qed
  from this [of "length is"] assms(3)
  show "hexval res = unat num" "res = [] \<or> hd res \<noteq> CHR ''0''" "length res \<le> length is"
    by (auto simp: Let_def)
qed

lemma toHex_steps:
  "toHex num u = (let r = fold (hex_step u num) [28, 24, 20, 16, 12, 8, 4, 0] [] in if r = [] then ''0'' else r)"
  by (simp add: toHex_def hex_step_def)

text \<open>\<open>toHex\<close> prints the number: its digits read as base 16 give the number back, at most eight of
  them, without a leading zero unless the number is zero.\<close>

theorem toHex_value:
  "hexval (toHex num uppercase) = unat num \<and> length (toHex num uppercase) \<in> {1..8} \<and>
   (hd (toHex num uppercase) = CHR ''0'' \<longleftrightarrow> num = 0)"
proof -
  let ?is = "[28, 24, 20, 16, 12, 8, 4, 0] :: nat list"
  let ?r = "fold (hex_step uppercase num) ?is []"
  have a: "\<forall>j<length ?is. ?is ! j = 4 * (length ?is - Suc j)"
    by (simp add: less_Suc_eq numeral_eq_Suc)
  have b: "unat num < 2 ^ (4 * length ?is)" using unsigned_less [of num] by simp
  from hex_steps_value [OF a b refl, of uppercase]
  have r: "hexval ?r = unat num" "?r = [] \<or> hd ?r \<noteq> CHR ''0''" "length ?r \<le> length ?is" .
  have z: "num = 0" if "?r = []" using r(1) that by (simp add: hexval_def unat_eq_zero)
  have ns: "?r \<noteq> []" if "num \<noteq> 0" using that z by blast
  show ?thesis
  proof (cases "?r = []")
    case True
    then show ?thesis using z by (simp add: toHex_steps hexval_def hexdigit_def)
  next
    case False
    have "num \<noteq> 0"
    proof
      assume "num = 0"
      then have "?r = []" by (simp add: hex_step_def)
      with False show False by simp
    qed
    with False r show ?thesis
      by (simp only: toHex_steps Let_def if_False) (auto simp: Suc_le_eq)
  qed
qed

section \<open>RTP time\<close>

lemma rtp_uint:
  assumes "0 \<le> sint sec"
  shows "uint (convertToRtpTimestamp sec ns) =
         ((sint sec * 1000000000 + uint ns) * 90000) mod 2 ^ 64 div 1000000000"
proof -
  have s: "uint (scast sec :: 64 word) = sint sec"
  proof -
    have "sint sec < 2 ^ 31" using sint_lt [of sec] by simp
    then have "sint sec < 2 ^ 64" by (rule less_trans) simp
    then have "sint sec mod 2 ^ 64 = sint sec" by (rule mod_pos_pos_trivial [OF assms])
    moreover have "uint (word_of_int (sint sec) :: 64 word) = sint sec mod 2 ^ 64"
      by (simp only: uint_word_of_int) simp
    ultimately show ?thesis by (simp only: scast_eq)
  qed
  have n: "uint (ucast ns :: 64 word) = uint ns" by (simp add: uint_up_ucast is_up)
  have t: "uint ((scast sec :: 64 word) * 1000000000 + ucast ns) = (sint sec * 1000000000 + uint ns) mod 2 ^ 64"
    unfolding uint_word_ariths(1,3) s n by (simp only: mod_add_left_eq uint_numeral) simp
  have "uint (((scast sec :: 64 word) * 1000000000 + ucast ns) * 90000) =
      (sint sec * 1000000000 + uint ns) mod 2 ^ 64 * 90000 mod 2 ^ 64"
    unfolding uint_word_ariths(3) t by simp
  then have "uint (((scast sec :: 64 word) * 1000000000 + ucast ns) * 90000) =
      (sint sec * 1000000000 + uint ns) * 90000 mod 2 ^ 64"
    by (simp only: mod_mult_left_eq)
  then show ?thesis by (simp add: convertToRtpTimestamp_def uint_div)
qed

text \<open>While \<open>total_ns * 90000\<close> fits in 64 bits the conversion is exact: the time in units of
  1/90000 s, rounded down.\<close>

theorem convertToRtpTimestamp_exact:
  assumes "0 \<le> sint sec" "(sint sec * 1000000000 + uint nanosec) * 90000 < 2 ^ 64"
  shows "uint (convertToRtpTimestamp sec nanosec) =
         (sint sec * 1000000000 + uint nanosec) * 90000 div 1000000000"
  using assms by (simp add: rtp_uint mod_pos_pos_trivial uint_lt2p)

theorem convertToRtpTimestamp_exact_witness:
  "uint (convertToRtpTimestamp 204000 500000000) = 18360045000"
proof -
  have a: "0 \<le> sint (204000 :: 32 word)" by simp
  have b: "(sint (204000 :: 32 word) * 1000000000 + uint (500000000 :: 32 word)) * 90000 < 2 ^ 64" by simp
  show ?thesis using convertToRtpTimestamp_exact [OF a b] by simp
qed

text \<open>
  The product does not fit for the clock of a running robot: it exceeds 64 bits from 204964 seconds
  (57 hours) after the epoch, so real stamps wrap, and the result is not monotone.
\<close>

lemma convertToRtpTimestamp_wraps:
  "convertToRtpTimestamp 204963 0 = 18446670000 \<and> convertToRtpTimestamp 204964 0 = 15926"
  by (simp add: convertToRtpTimestamp_def)

text \<open>The value never reaches 2 ^ 64 / 10 ^ 9: every conversion, so also the clock reading the
  bridge offsets its streams by, is below 18446744074 ticks (57 hours), whatever the date.\<close>

theorem rtp_timestamp_bound:
  "uint (convertToRtpTimestamp sec nanosec) \<le> 18446744073 \<and>
   uint (getCurrentRtpTimestamp now_ns) \<le> 18446744073"
proof -
  have "uint (convertToRtpTimestamp a b) \<le> 18446744073" for a b
  proof -
    define t where "t = ((scast a :: 64 word) * 1000000000 + ucast b) * 90000"
    have "uint t < 2 ^ 64" using uint_lt2p [of t] by simp
    then have "uint t div 1000000000 \<le> 18446744073" by simp
    then show ?thesis by (simp add: convertToRtpTimestamp_def uint_div t_def)
  qed
  then show ?thesis by (simp add: getCurrentRtpTimestamp_def)
qed

end
