(* ===== verification/StdMap.thy ===== *)
theory StdMap
  imports Prelude
begin

text \<open>
  \<open>std::map\<close>: an association list in strictly increasing key order, which is also the order in
  which the code iterates. \<open>find\<close>/\<open>at\<close> is \<open>map_of\<close>; \<open>mput\<close> is \<open>insert_or_assign\<close> and
  \<open>operator[] =\<close>; \<open>memplace\<close> is \<open>emplace\<close>, which keeps an existing entry; \<open>mdel\<close> is \<open>erase\<close>.
  The locale \<open>keyed_store\<close> is the interface the components rely on.
\<close>

type_synonym ('k, 'v) omap = "('k \<times> 'v) list"

fun mput :: "'k::linorder \<Rightarrow> 'v \<Rightarrow> ('k, 'v) omap \<Rightarrow> ('k, 'v) omap" where
  "mput k v [] = [(k, v)]"
| "mput k v ((k', v') # m) =
     (if k < k' then (k, v) # (k', v') # m
      else if k = k' then (k, v) # m
      else (k', v') # mput k v m)"

definition memplace :: "'k::linorder \<Rightarrow> 'v \<Rightarrow> ('k, 'v) omap \<Rightarrow> ('k, 'v) omap" where
  "memplace k v m = (case map_of m k of None \<Rightarrow> mput k v m | Some _ \<Rightarrow> m)"

definition mdel :: "'k \<Rightarrow> ('k, 'v) omap \<Rightarrow> ('k, 'v) omap" where
  "mdel k m = filter (\<lambda>p. fst p \<noteq> k) m"

definition mhas :: "('k, 'v) omap \<Rightarrow> 'k \<Rightarrow> bool" where
  "mhas m k = (map_of m k \<noteq> None)"

definition omap_ok :: "('k::linorder, 'v) omap \<Rightarrow> bool" where
  "omap_ok m = sorted_wrt (<) (map fst m)"

text \<open>\<open>map::at\<close> throws \<open>std::out_of_range\<close> for a missing key.\<close>

definition mat :: "('k, 'v) omap \<Rightarrow> 'k \<Rightarrow> 'v res" where
  "mat m k = (case map_of m k of None \<Rightarrow> Inl Out_of_range | Some v \<Rightarrow> Inr v)"

section \<open>The laws of the operations\<close>

lemma map_of_mput [simp]: "map_of (mput k v m) = (map_of m)(k \<mapsto> v)"
  by (induction k v m rule: mput.induct) (auto simp: fun_eq_iff)

lemma map_of_memplace: "map_of (memplace k v m) = (if mhas m k then map_of m else (map_of m)(k \<mapsto> v))"
  by (auto simp: memplace_def mhas_def split: option.splits)

lemma map_of_mdel [simp]: "map_of (mdel k m) = (map_of m)(k := None)"
  by (induction m) (auto simp: mdel_def fun_eq_iff)

lemma mhas_mput [simp]: "mhas (mput k v m) k' \<longleftrightarrow> k' = k \<or> mhas m k'"
  by (simp add: mhas_def)

lemma mhas_mdel [simp]: "mhas (mdel k m) k' \<longleftrightarrow> k' \<noteq> k \<and> mhas m k'"
  by (simp add: mhas_def)

lemma mhas_memplace [simp]: "mhas (memplace k v m) k' \<longleftrightarrow> k' = k \<or> mhas m k'"
  by (auto simp: memplace_def mhas_def split: option.splits)

lemma mhas_iff: "mhas m k \<longleftrightarrow> k \<in> fst ` set m"
  by (simp add: mhas_def map_of_eq_None_iff)

lemma mat_Inr [res_simps]: "mat m k = Inr v \<longleftrightarrow> map_of m k = Some v"
  by (auto simp: mat_def split: option.splits)

lemma set_mput_keys: "fst ` set (mput k v m) = insert k (fst ` set m)"
  by (induction k v m rule: mput.induct) auto

lemma omap_ok_Nil [simp]: "omap_ok []"
  by (simp add: omap_ok_def)

lemma omap_ok_Cons: "omap_ok ((k, v) # m) \<longleftrightarrow> (\<forall>k'\<in>fst ` set m. k < k') \<and> omap_ok m"
  by (auto simp: omap_ok_def)

lemma omap_ok_mput [simp]: "omap_ok m \<Longrightarrow> omap_ok (mput k v m)"
proof (induction k v m rule: mput.induct)
  case (1 k v)
  then show ?case by (simp add: omap_ok_def)
next
  case (2 k v k' v' m)
  then show ?case
    by (auto simp: omap_ok_Cons set_mput_keys neq_iff)
qed

lemma omap_ok_memplace [simp]: "omap_ok m \<Longrightarrow> omap_ok (memplace k v m)"
  by (simp add: memplace_def split: option.splits)

lemma sorted_wrt_map_filter: "sorted_wrt R (map f xs) \<Longrightarrow> sorted_wrt R (map f (filter P xs))"
  by (induction xs) auto

lemma omap_ok_mdel [simp]: "omap_ok m \<Longrightarrow> omap_ok (mdel k m)"
  by (simp add: omap_ok_def mdel_def sorted_wrt_map_filter)

lemma omap_ok_distinct: "omap_ok m \<Longrightarrow> distinct (map fst m)"
  by (simp add: omap_ok_def strict_sorted_iff)

text \<open>An ordered map is determined by its lookups: what \<open>==\<close> of two maps compares.\<close>

lemma omap_eqI:
  assumes "omap_ok m" "omap_ok n" "map_of m = map_of n"
  shows "m = n"
proof -
  have keys: "map fst m = map fst n"
  proof (rule strict_sorted_equal)
    show "sorted_wrt (<) (map fst m)" "sorted_wrt (<) (map fst n)"
      using assms by (simp_all add: omap_ok_def)
    show "set (map fst m) = set (map fst n)"
      by (metis assms(3) dom_map_of_conv_image_fst list.set_map)
  qed
  have d: "distinct (map fst m)" "distinct (map fst n)"
    using assms by (simp_all add: omap_ok_distinct)
  have vals: "m = map (\<lambda>k. (k, the (map_of m k))) (map fst m)" if "distinct (map fst m)" for m :: "('a \<times> 'b) list"
  proof -
    have "map (\<lambda>p. (fst p, the (map_of m (fst p)))) m = m"
      by (rule map_idI) (use that in auto)
    then show ?thesis by (simp add: comp_def)
  qed
  from vals [OF d(1)] vals [OF d(2)] show ?thesis by (metis keys assms(3))
qed

section \<open>The interface\<close>

text \<open>
  What the components use of a keyed store: a new entry only if the key is absent, and erasing.
\<close>

locale keyed_store =
  fixes look :: "'s \<Rightarrow> 'k \<Rightarrow> 'v option"
    and add :: "'k \<Rightarrow> 'v \<Rightarrow> 's \<Rightarrow> 's"
    and del :: "'k \<Rightarrow> 's \<Rightarrow> 's"
    and ok :: "'s \<Rightarrow> bool"
  assumes look_add: "look (add k v s) k' = (if k' = k \<and> look s k = None then Some v else look s k')"
    and look_del: "look (del k s) k' = (if k' = k then None else look s k')"
    and ok_add: "ok s \<Longrightarrow> ok (add k v s)"
    and ok_del: "ok s \<Longrightarrow> ok (del k s)"
begin

lemma look_add_absent: "look s k = None \<Longrightarrow> look (add k v s) k = Some v"
  by (simp add: look_add)

lemma look_add_present: "look s k = Some w \<Longrightarrow> look (add k v s) k = Some w"
  by (simp add: look_add)

lemma look_add_other: "k' \<noteq> k \<Longrightarrow> look (add k v s) k' = look s k'"
  by (simp add: look_add)

lemma look_add_twice: "look (add k w (add k v s)) k' = look (add k v s) k'"
  by (simp add: look_add)

lemma look_del_add: "look s k = None \<Longrightarrow> look (del k (add k v s)) = look s"
  by (auto simp: look_add look_del fun_eq_iff)

lemma fold_del_look: "look (fold del ks s) k = (if k \<in> set ks then None else look s k)"
  by (induction ks arbitrary: s) (auto simp: look_del)

lemma fold_del_ok: "ok s \<Longrightarrow> ok (fold del ks s)"
  by (rule fold_invariant_set) (auto intro: ok_del)

end

interpretation smap: keyed_store map_of "memplace :: 'k::linorder \<Rightarrow> 'v \<Rightarrow> ('k, 'v) omap \<Rightarrow> ('k, 'v) omap" mdel omap_ok
  by unfold_locales (auto simp: map_of_memplace mhas_def)

end
