(* ===== verification/Message.thy ===== *)
theory Message
  imports StdMap
begin

text \<open>
  \<open>sioclient/sio_message.h\<close>: the value exchanged with the cloud bridge. A \<open>message::ptr\<close> may be
  null, so it is a \<open>message option\<close>; containers hold pointers. A double is its 64 bits (no
  arithmetic is done on it); the conversion of an integer to a double is a parameter. An accessor
  called on a message of another flag runs into \<open>assert(false)\<close>.
\<close>

section \<open>Messages\<close>

datatype message =
    Int_msg "64 word"
  | Double_msg "64 word"
  | String_msg string
  | Binary_msg string
  | Array_msg "message option list"
  | Object_msg "(string \<times> message option) list"
  | Bool_msg bool
  | Null_msg

type_synonym msg_ptr = "message option"

datatype flag =
    flag_integer | flag_double | flag_string | flag_binary
  | flag_array | flag_object | flag_boolean | flag_null

fun get_flag :: "message \<Rightarrow> flag" where
  "get_flag (Int_msg _) = flag_integer"
| "get_flag (Double_msg _) = flag_double"
| "get_flag (String_msg _) = flag_string"
| "get_flag (Binary_msg _) = flag_binary"
| "get_flag (Array_msg _) = flag_array"
| "get_flag (Object_msg _) = flag_object"
| "get_flag (Bool_msg _) = flag_boolean"
| "get_flag Null_msg = flag_null"

definition deref :: "msg_ptr \<Rightarrow> message res" where
  "deref p = (case p of None \<Rightarrow> Inl Null_deref | Some m \<Rightarrow> Inr m)"

fun get_bool :: "message \<Rightarrow> bool res" where
  "get_bool (Bool_msg v) = Inr v"
| "get_bool _ = Inl Assert_fail"

fun get_int :: "message \<Rightarrow> 64 word res" where
  "get_int (Int_msg v) = Inr v"
| "get_int _ = Inl Assert_fail"

text \<open>\<open>int_message\<close> overrides \<open>get_double\<close> with a conversion.\<close>

fun get_double :: "(64 word \<Rightarrow> 64 word) \<Rightarrow> message \<Rightarrow> 64 word res" where
  "get_double conv (Int_msg v) = Inr (conv v)"
| "get_double conv (Double_msg v) = Inr v"
| "get_double conv _ = Inl Assert_fail"

fun get_string :: "message \<Rightarrow> string res" where
  "get_string (String_msg v) = Inr v"
| "get_string _ = Inl Assert_fail"

fun get_binary :: "message \<Rightarrow> string res" where
  "get_binary (Binary_msg v) = Inr v"
| "get_binary _ = Inl Assert_fail"

fun get_vector :: "message \<Rightarrow> msg_ptr list res" where
  "get_vector (Array_msg v) = Inr v"
| "get_vector _ = Inl Assert_fail"

fun get_map :: "message \<Rightarrow> (string, msg_ptr) omap res" where
  "get_map (Object_msg v) = Inr v"
| "get_map _ = Inl Assert_fail"

section \<open>array_message, object_message, message::list\<close>

text \<open>What can be pushed: a pointer, a text, or a shared binary buffer (which may be null).\<close>

datatype item = Ptr msg_ptr | Text string | Buffer "string option"

fun item_ptr :: "item \<Rightarrow> msg_ptr" where
  "item_ptr (Ptr p) = p"
| "item_ptr (Text s) = Some (String_msg s)"
| "item_ptr (Buffer b) = map_option Binary_msg b"

definition array_push :: "item \<Rightarrow> msg_ptr list \<Rightarrow> msg_ptr list" where
  "array_push x v = (case item_ptr x of None \<Rightarrow> v | Some m \<Rightarrow> v @ [Some m])"

text \<open>\<open>insert\<close> at \<open>begin() + pos\<close>; of the pointers only a null buffer is refused.\<close>

definition array_insert :: "nat \<Rightarrow> item \<Rightarrow> msg_ptr list \<Rightarrow> msg_ptr list res" where
  "array_insert pos x v =
     (if x = Buffer None then Inr v
      else if pos \<le> length v then Inr (take pos v @ item_ptr x # drop pos v)
      else Inl Ub)"

definition array_at :: "msg_ptr list \<Rightarrow> nat \<Rightarrow> msg_ptr res" where
  "array_at v i = (if i < length v then Inr (v ! i) else Inl Ub)"

definition object_insert :: "string \<Rightarrow> item \<Rightarrow> (string, msg_ptr) omap \<Rightarrow> (string, msg_ptr) omap" where
  "object_insert key x m = (if x = Buffer None then m else mput key (item_ptr x) m)"

definition object_has :: "(string, msg_ptr) omap \<Rightarrow> string \<Rightarrow> bool" where
  "object_has m key = mhas m key"

text \<open>\<open>object_message::at\<close> returns a static null pointer for a missing key.\<close>

definition object_at :: "(string, msg_ptr) omap \<Rightarrow> string \<Rightarrow> msg_ptr" where
  "object_at m key = (case map_of m key of None \<Rightarrow> None | Some p \<Rightarrow> p)"

text \<open>\<open>message::list\<close>: the constructors keep a null pointer out, as \<open>push\<close> does; \<open>insert\<close> does not.\<close>

definition mlist_of :: "item \<Rightarrow> msg_ptr list" where
  "mlist_of x = (case item_ptr x of None \<Rightarrow> [] | Some m \<Rightarrow> [Some m])"

definition mlist_push :: "item \<Rightarrow> msg_ptr list \<Rightarrow> msg_ptr list" where
  "mlist_push x v = (case item_ptr x of None \<Rightarrow> v | Some m \<Rightarrow> v @ [Some m])"

definition mlist_insert :: "nat \<Rightarrow> item \<Rightarrow> msg_ptr list \<Rightarrow> msg_ptr list res" where
  "mlist_insert pos x v =
     (if x = Buffer None then Inr v
      else if pos \<le> length v then Inr (take pos v @ item_ptr x # drop pos v)
      else Inl Ub)"

definition mlist_at :: "msg_ptr list \<Rightarrow> nat \<Rightarrow> msg_ptr res" where
  "mlist_at v i = (if i < length v then Inr (v ! i) else Inl Ub)"

definition to_array_message :: "msg_ptr list \<Rightarrow> message" where
  "to_array_message v = Array_msg v"

definition to_array_message_named :: "string \<Rightarrow> msg_ptr list \<Rightarrow> message" where
  "to_array_message_named event_name v = Array_msg (Some (String_msg event_name) # v)"

section \<open>Well-formed messages\<close>

text \<open>
  A message the packet codec can carry: no null pointer in any container, maps in key order, and no
  object that has the member \<open>_placeholder\<close> itself.
\<close>

definition BIN_PLACE_HOLDER :: string where
  "BIN_PLACE_HOLDER = ''_placeholder''"

lemma size_message_array [termination_simp]:
  "Some m \<in> set xs \<Longrightarrow> size m < Suc (size_list (size_option size) xs)"
  by (induction xs) auto

lemma size_message_object [termination_simp]:
  "(k, Some m) \<in> set xs \<Longrightarrow> size m < Suc (size_list (size_prod (\<lambda>_. 0) (size_option size)) xs)"
  by (induction xs) auto

function msg_ok :: "message \<Rightarrow> bool" where
  "msg_ok (Int_msg _) = True"
| "msg_ok (Double_msg _) = True"
| "msg_ok (String_msg _) = True"
| "msg_ok (Binary_msg _) = True"
| "msg_ok (Bool_msg _) = True"
| "msg_ok Null_msg = True"
| "msg_ok (Array_msg xs) = list_all (\<lambda>x. case x of None \<Rightarrow> False | Some m \<Rightarrow> msg_ok m) xs"
| "msg_ok (Object_msg xs) =
     (omap_ok xs \<and> \<not> mhas xs BIN_PLACE_HOLDER \<and>
      list_all (\<lambda>p. case snd p of None \<Rightarrow> False | Some m \<Rightarrow> msg_ok m) xs)"
  by pat_completeness auto
termination
  by (relation "measure size")
     (auto simp: size_message_array intro: size_message_object)

lemmas message_get_simps [res_simps] = deref_def

lemma deref_Some [simp]: "deref (Some m) = Inr m"
  by (simp add: deref_def)

lemma deref_None [simp]: "deref None = Inl Null_deref"
  by (simp add: deref_def)

lemma array_push_no_null: "None \<notin> set v \<Longrightarrow> None \<notin> set (array_push x v)"
  by (auto simp: array_push_def split: option.splits)

lemma object_at_insert:
  "object_at (object_insert key x m) k =
     (if k = key \<and> x \<noteq> Buffer None then item_ptr x else object_at m k)"
  by (simp add: object_at_def object_insert_def)

lemma omap_ok_object_insert: "omap_ok m \<Longrightarrow> omap_ok (object_insert key x m)"
  by (simp add: object_insert_def)

text \<open>Building a list of messages by construction and \<open>push\<close> never stores a null pointer, so the
  array sent for it is well formed when the pushed messages are.\<close>

theorem mlist_pushes_ok:
  "msg_ok (to_array_message_named name (fold mlist_push items [])) \<longleftrightarrow>
   list_all (\<lambda>x. case item_ptr x of None \<Rightarrow> True | Some m \<Rightarrow> msg_ok m) items"
proof -
  have "msg_ok (Array_msg (fold mlist_push items v)) \<longleftrightarrow>
      msg_ok (Array_msg v) \<and> list_all (\<lambda>x. case item_ptr x of None \<Rightarrow> True | Some m \<Rightarrow> msg_ok m) items" for v
    by (induction items arbitrary: v) (auto simp: mlist_push_def split: option.splits)
  from this [of "[]"] show ?thesis by (simp add: to_array_message_named_def)
qed

end
