(* ===== verification/Packet.thy ===== *)
theory Packet
  imports Message
begin

text \<open>
  \<open>sioclient/internal/sio_packet.cpp\<close> and \<open>sio_packet.h\<close>: a message as a JSON document with its
  binary buffers on the side (\<open>accept_message\<close>) and back (\<open>from_json\<close>), the textual packet
  (\<open>accept\<close>, \<open>parse\<close>, \<open>parse_buffer\<close>) and the \<open>packet_manager\<close> that reassembles packets.
  The JSON text itself is rapidjson's: \<open>jwrite\<close> and \<open>jparse\<close> are parameters, \<open>json\<close> is its
  document value. rapidjson's accessors assert the kind of the value they read.
\<close>

section \<open>Documents\<close>

text \<open>\<open>JUint\<close> is an integer of 64 bits that does not fit a signed one.\<close>

datatype json =
    JNull
  | JBool bool
  | JInt "64 word"
  | JUint "64 word"
  | JDouble "64 word"
  | JString string
  | JArray "json list"
  | JObject "(string \<times> json) list"

lemma size_json_array [termination_simp]:
  "j \<in> set js \<Longrightarrow> size j < Suc (size_list size js)"
  by (induction js) auto

lemma size_json_object [termination_simp]:
  "(k, j) \<in> set js \<Longrightarrow> size j < Suc (size_list (size_prod (\<lambda>_. 0) size) js)"
  by (induction js) auto

section \<open>From messages to documents\<close>

definition num_value :: "nat \<Rightarrow> json" where
  "num_value n = JInt (scast (word_of_nat n :: 32 word))"

function accept_message :: "message \<Rightarrow> string list \<Rightarrow> (json \<times> string list) res"
  and accept_items :: "msg_ptr list \<Rightarrow> string list \<Rightarrow> (json list \<times> string list) res"
  and accept_members ::
    "(string \<times> msg_ptr) list \<Rightarrow> string list \<Rightarrow> ((string \<times> json) list \<times> string list) res" where
  "accept_message (Int_msg v) bufs = Inr (JInt v, bufs)"
| "accept_message (Double_msg v) bufs = Inr (JDouble v, bufs)"
| "accept_message (String_msg s) bufs = Inr (JString s, bufs)"
| "accept_message (Bool_msg b) bufs = Inr (JBool b, bufs)"
| "accept_message Null_msg bufs = Inr (JNull, bufs)"
| "accept_message (Binary_msg b) bufs =
     Inr (JObject [(BIN_PLACE_HOLDER, JBool True), (''num'', num_value (length bufs))], bufs @ [b])"
| "accept_message (Array_msg xs) bufs =
     bindR (accept_items xs bufs) (\<lambda>(js, bufs'). Inr (JArray js, bufs'))"
| "accept_message (Object_msg xs) bufs =
     bindR (accept_members xs bufs) (\<lambda>(js, bufs'). Inr (JObject js, bufs'))"
| "accept_items [] bufs = Inr ([], bufs)"
| "accept_items (p # ps) bufs =
     (case p of None \<Rightarrow> Inl Null_deref
      | Some m \<Rightarrow> bindR (accept_message m bufs) (\<lambda>(j, bufs1).
                  bindR (accept_items ps bufs1) (\<lambda>(js, bufs2). Inr (j # js, bufs2))))"
| "accept_members [] bufs = Inr ([], bufs)"
| "accept_members ((k, p) # ps) bufs =
     (case p of None \<Rightarrow> Inl Null_deref
      | Some m \<Rightarrow> bindR (accept_message m bufs) (\<lambda>(j, bufs1).
                  bindR (accept_members ps bufs1) (\<lambda>(js, bufs2). Inr ((k, j) # js, bufs2))))"
  by pat_completeness auto
termination
  by (relation "measure (\<lambda>x. case x of
        Inl (m, _) \<Rightarrow> size m
      | Inr (Inl (ps, _)) \<Rightarrow> size_list (size_option size) ps
      | Inr (Inr (ps, _)) \<Rightarrow> size_list (size_prod (\<lambda>_. 0) (size_option size)) ps)")
     auto

section \<open>From documents to messages\<close>

definition find_member :: "(string \<times> json) list \<Rightarrow> string \<Rightarrow> json option" where
  "find_member = map_of"

definition json_bool :: "json \<Rightarrow> bool res" where
  "json_bool j = (case j of JBool b \<Rightarrow> Inr b | _ \<Rightarrow> Inl Assert_fail)"

text \<open>\<open>GetInt\<close> asserts that the value is an integer of 32 bits.\<close>

definition json_int :: "json \<Rightarrow> int res" where
  "json_int j =
     (case j of
        JInt v \<Rightarrow> (if -(2 ^ 31) \<le> sint v \<and> sint v < 2 ^ 31 then Inr (sint v) else Inl Assert_fail)
      | _ \<Rightarrow> Inl Assert_fail)"

definition placeholder_num :: "(string \<times> json) list \<Rightarrow> int res" where
  "placeholder_num ms =
     (case find_member ms ''num'' of None \<Rightarrow> Inl Assert_fail | Some j \<Rightarrow> json_int j)"

text \<open>Whether the object stands for a binary buffer.\<close>

definition is_placeholder :: "(string \<times> json) list \<Rightarrow> bool res" where
  "is_placeholder ms =
     (case find_member ms BIN_PLACE_HOLDER of None \<Rightarrow> Inr False | Some j \<Rightarrow> json_bool j)"

function from_json :: "json \<Rightarrow> string list \<Rightarrow> msg_ptr res" where
  "from_json (JInt v) buffers = Inr (Some (Int_msg v))"
| "from_json (JUint v) buffers = Inr None"
| "from_json (JDouble v) buffers = Inr (Some (Double_msg v))"
| "from_json (JString s) buffers = Inr (Some (String_msg s))"
| "from_json (JArray js) buffers =
     bindR (mapR (\<lambda>j. from_json j buffers) js) (\<lambda>ps. Inr (Some (Array_msg ps)))"
| "from_json (JObject ms) buffers =
     bindR (is_placeholder ms) (\<lambda>b.
       if b then
         bindR (placeholder_num ms) (\<lambda>num.
           Inr (if 0 \<le> num \<and> num < int (length buffers)
                then Some (Binary_msg (buffers ! nat num)) else None))
       else
         bindR (mapR (\<lambda>p. bindR (from_json (snd p) buffers) (\<lambda>v. Inr (fst p, v))) ms)
           (\<lambda>kvs. Inr (Some (Object_msg (fold (\<lambda>(k, v). mput k v) kvs [])))))"
| "from_json (JBool b) buffers = Inr (Some (Bool_msg b))"
| "from_json JNull buffers = Inr (Some Null_msg)"
  by pat_completeness auto
termination
  by (relation "measure (\<lambda>(j, _). size j)") (auto simp: size_json_array intro: size_json_object)

section \<open>The round trip through a document\<close>

lemma accept_extends_aux:
  "accept_message m bufs = Inr (j, b') \<Longrightarrow> \<exists>c. b' = bufs @ c"
  "accept_items ps bufs = Inr (js, b') \<Longrightarrow> \<exists>c. b' = bufs @ c"
  "accept_members ks bufs = Inr (ms, b') \<Longrightarrow> \<exists>c. b' = bufs @ c"
proof (induction m bufs and ps bufs and ks bufs arbitrary: j b' and js b' and ms b'
    rule: accept_message_accept_items_accept_members.induct)
qed (force simp: res_simps split: option.splits)+

lemma accept_total_aux:
  "msg_ok m \<Longrightarrow> \<exists>j b'. accept_message m bufs = Inr (j, b')"
  "list_all (\<lambda>x. case x of None \<Rightarrow> False | Some m \<Rightarrow> msg_ok m) ps \<Longrightarrow>
     \<exists>js b'. accept_items ps bufs = Inr (js, b')"
  "list_all (\<lambda>p. case snd p of None \<Rightarrow> False | Some m \<Rightarrow> msg_ok m) ks \<Longrightarrow>
     \<exists>ms b'. accept_members ks bufs = Inr (ms, b')"
proof (induction m bufs and ps bufs and ks bufs
    rule: accept_message_accept_items_accept_members.induct)
qed (fastforce split: option.splits)+

lemma accept_members_keys:
  "accept_members ks bufs = Inr (ms, b') \<Longrightarrow> map fst ms = map fst ks"
  by (induction ks arbitrary: bufs ms b') (auto simp: res_simps split: option.splits)

lemma mput_snoc:
  "(\<forall>k'\<in>fst ` set m. k' < k) \<Longrightarrow> mput k v m = m @ [(k, v)]"
  by (induction k v m rule: mput.induct) auto

lemma fold_mput_sorted:
  "omap_ok (acc @ kvs) \<Longrightarrow> fold (\<lambda>(k, v). mput k v) kvs acc = acc @ kvs"
proof (induction kvs arbitrary: acc)
  case Nil
  then show ?case by simp
next
  case (Cons p kvs)
  obtain k v where p: "p = (k, v)" by (cases p)
  have "\<forall>k'\<in>fst ` set acc. k' < k"
    using Cons.prems by (auto simp: omap_ok_def p sorted_wrt_append)
  then have "mput k v acc = acc @ [(k, v)]" by (rule mput_snoc)
  moreover have "omap_ok ((acc @ [(k, v)]) @ kvs)" using Cons.prems p by simp
  ultimately show ?case using Cons.IH [of "acc @ [(k, v)]"] p by simp
qed

lemma num_value_read:
  "n < 2 ^ 31 \<Longrightarrow> json_int (num_value n) = Inr (int n)"
proof -
  assume n: "n < 2 ^ 31"
  have a: "sint (word_of_nat n :: 32 word) = int n"
  proof -
    have "sint (word_of_int (int n) :: 32 word) = signed_take_bit 31 (int n)"
      unfolding sint_sbintrunc' by simp
    also have "\<dots> = int n" using n by (intro signed_take_bit_int_eq_self) auto
    finally show ?thesis by simp
  qed
  have b: "sint (scast (word_of_nat n :: 32 word) :: 64 word) = int n"
    using a by (simp add: sint_up_scast is_up)
  show ?thesis using n by (simp add: json_int_def num_value_def b)
qed

lemma json_index_read:
  assumes "length bufs < 2 ^ 31"
  shows "from_json (JObject [(BIN_PLACE_HOLDER, JBool True), (''num'', num_value (length bufs))]) ((bufs @ [b]) @ more)
         = Inr (Some (Binary_msg b))"
  using assms
  by (simp add: is_placeholder_def find_member_def json_bool_def placeholder_num_def num_value_read
      BIN_PLACE_HOLDER_def)

definition members_back :: "(string \<times> json) list \<Rightarrow> string list \<Rightarrow> (string \<times> msg_ptr) list res" where
  "members_back ms buffers = mapR (\<lambda>p. bindR (from_json (snd p) buffers) (\<lambda>v. Inr (fst p, v))) ms"

lemma members_back_simps [simp]:
  "members_back [] buffers = Inr []"
  "members_back ((k, j) # ms) buffers =
     bindR (from_json j buffers) (\<lambda>v. bindR (members_back ms buffers) (\<lambda>ys. Inr ((k, v) # ys)))"
  by (simp_all add: members_back_def bindR_assoc)

lemma accept_from_json_aux:
  "accept_message m bufs = Inr (j, b') \<Longrightarrow> msg_ok m \<Longrightarrow> length b' < 2 ^ 31 \<Longrightarrow>
     from_json j (b' @ more) = Inr (Some m)"
  "accept_items ps bufs = Inr (js, b') \<Longrightarrow>
     list_all (\<lambda>x. case x of None \<Rightarrow> False | Some m \<Rightarrow> msg_ok m) ps \<Longrightarrow> length b' < 2 ^ 31 \<Longrightarrow>
     mapR (\<lambda>j. from_json j (b' @ more)) js = Inr ps"
  "accept_members ks bufs = Inr (ms, b') \<Longrightarrow>
     list_all (\<lambda>p. case snd p of None \<Rightarrow> False | Some m \<Rightarrow> msg_ok m) ks \<Longrightarrow> length b' < 2 ^ 31 \<Longrightarrow>
     members_back ms (b' @ more) = Inr ks"
proof (induction m bufs and ps bufs and ks bufs arbitrary: j b' more and js b' more and ms b' more
    rule: accept_message_accept_items_accept_members.induct)
  case (6 b bufs)
  then have "length bufs < 2 ^ 31" "b' = bufs @ [b]"
    "j = JObject [(BIN_PLACE_HOLDER, JBool True), (''num'', num_value (length bufs))]" by auto
  then show ?case using json_index_read [of bufs b more] by simp
next
  case (7 xs bufs)
  from "7.prems"(1) obtain js where js: "accept_items xs bufs = Inr (js, b')" "j = JArray js"
    by (auto simp: res_simps)
  from "7.prems"(2) have ok: "list_all (\<lambda>x. case x of None \<Rightarrow> False | Some m \<Rightarrow> msg_ok m) xs" by simp
  from "7.IH" [OF js(1) ok "7.prems"(3)] js(2) show ?case by simp
next
  case (8 xs bufs)
  from "8.prems"(1) obtain ms where ms: "accept_members xs bufs = Inr (ms, b')" "j = JObject ms"
    by (auto simp: res_simps)
  from "8.prems"(2) have ok: "omap_ok xs" "\<not> mhas xs BIN_PLACE_HOLDER"
    "list_all (\<lambda>p. case snd p of None \<Rightarrow> False | Some m \<Rightarrow> msg_ok m) xs" by auto
  have "map fst ms = map fst xs" using ms(1) by (rule accept_members_keys)
  then have "\<not> mhas ms BIN_PLACE_HOLDER" using ok(2) by (metis list.set_map mhas_iff)
  then have np: "is_placeholder ms = Inr False"
    by (simp add: is_placeholder_def find_member_def mhas_def)
  from "8.IH" [OF ms(1) ok(3) "8.prems"(3)]
  have "mapR (\<lambda>p. bindR (from_json (snd p) (b' @ more)) (\<lambda>v. Inr (fst p, v))) ms = Inr xs"
    by (simp add: members_back_def)
  then show ?case using ms(2) np fold_mput_sorted [of "[]" xs] ok(1) by simp
next
  case (10 p ps bufs)
  from "10.prems"(2) obtain m where p: "p = Some m" and ok: "msg_ok m"
    "list_all (\<lambda>x. case x of None \<Rightarrow> False | Some m \<Rightarrow> msg_ok m) ps"
    by (auto split: option.splits)
  from "10.prems"(1) p obtain j1 b1 js2 where a: "accept_message m bufs = Inr (j1, b1)"
    "accept_items ps b1 = Inr (js2, b')" "js = j1 # js2"
    by (auto simp: res_simps)
  from accept_extends_aux(2) [OF a(2)] obtain c where c: "b' = b1 @ c" by blast
  with "10.prems"(3) have "length b1 < 2 ^ 31" by simp
  from "10.IH"(1) [OF p a(1) ok(1) this, of "c @ more"]
  have "from_json j1 (b' @ more) = Inr (Some m)" using c by simp
  moreover have "mapR (\<lambda>j. from_json j (b' @ more)) js2 = Inr ps"
    using "10.IH"(2) [OF p a(1) refl a(2) ok(2) "10.prems"(3)] by simp
  ultimately show ?case using a(3) p by simp
next
  case (12 k p ps bufs)
  from "12.prems"(2) obtain m where p: "p = Some m" and ok: "msg_ok m"
    "list_all (\<lambda>p. case snd p of None \<Rightarrow> False | Some m \<Rightarrow> msg_ok m) ps"
    by (auto split: option.splits)
  from "12.prems"(1) p obtain j1 b1 js2 where a: "accept_message m bufs = Inr (j1, b1)"
    "accept_members ps b1 = Inr (js2, b')" "ms = (k, j1) # js2"
    by (auto simp: res_simps)
  from accept_extends_aux(3) [OF a(2)] obtain c where c: "b' = b1 @ c" by blast
  with "12.prems"(3) have "length b1 < 2 ^ 31" by simp
  from "12.IH"(1) [OF p a(1) ok(1) this, of "c @ more"]
  have "from_json j1 (b' @ more) = Inr (Some m)" using c by simp
  moreover have "members_back js2 (b' @ more) = Inr ps"
    using "12.IH"(2) [OF p a(1) refl a(2) ok(2) "12.prems"(3)] by simp
  ultimately show ?case using a(3) p by simp
qed (auto split: option.splits)

text \<open>C28. A well-formed message survives the document form: every value, array and object comes back,
  and each binary buffer is found again by the index its placeholder holds.\<close>

theorem message_document_roundtrip:
  assumes "msg_ok m" "accept_message m bufs = Inr (j, bufs')" "length bufs' < 2 ^ 31"
  shows "from_json j bufs' = Inr (Some m)"
  using accept_from_json_aux(1) [OF assms(2,1,3), of "[]"] by simp

theorem message_document_roundtrip_witness:
  "\<exists>j bufs'. accept_message (Array_msg [Some (String_msg ''f''), Some (Binary_msg ''xy'')]) [] = Inr (j, bufs') \<and>
     from_json j bufs' = Inr (Some (Array_msg [Some (String_msg ''f''), Some (Binary_msg ''xy'')]))"
proof -
  let ?m = "Array_msg [Some (String_msg ''f''), Some (Binary_msg ''xy'')]"
  have ok: "msg_ok ?m" by simp
  have acc: "accept_message ?m [] =
      Inr (JArray [JString ''f'', JObject [(BIN_PLACE_HOLDER, JBool True), (''num'', num_value 0)]], [''xy''])"
    by simp
  have len: "length [''xy''] < 2 ^ 31" by simp
  from message_document_roundtrip [OF ok acc len] acc show ?thesis by blast
qed

section \<open>Numbers in text\<close>

definition digit_char :: "nat \<Rightarrow> char" where
  "digit_char d = char_of (48 + d)"

fun show_nat :: "nat \<Rightarrow> string" where
  "show_nat n = (if n < 10 then [digit_char n] else show_nat (n div 10) @ [digit_char (n mod 10)])"

declare show_nat.simps [simp del]

definition is_digit :: "char \<Rightarrow> bool" where
  "is_digit c = (48 \<le> (of_char c :: nat) \<and> (of_char c :: nat) \<le> 57)"

definition digits_value :: "string \<Rightarrow> nat" where
  "digits_value s = fold (\<lambda>c a. 10 * a + (of_char c - 48)) s 0"

text \<open>
  \<open>std::stoul\<close> and \<open>std::stoi\<close>: leading white space, an optional sign, the longest run of digits (an
  exception if there is none), and an exception if the value is out of range. \<open>stoul\<close> negates
  modulo 2 ^ 64.
\<close>

definition is_space :: "char \<Rightarrow> bool" where
  "is_space c = (c \<in> {CHR '' '', CHR 0x09, CHR 0x0A, CHR 0x0B, CHR 0x0C, CHR 0x0D})"

definition strto_parts :: "string \<Rightarrow> (bool \<times> nat) option" where
  "strto_parts s =
     (let t = dropWhile is_space s;
          neg = (t \<noteq> [] \<and> hd t = CHR ''-'');
          u = (if t \<noteq> [] \<and> (hd t = CHR ''-'' \<or> hd t = CHR ''+'') then tl t else t);
          ds = takeWhile is_digit u
      in if ds = [] then None else Some (neg, digits_value ds))"

definition stoul :: "string \<Rightarrow> nat res" where
  "stoul s =
     (case strto_parts s of
        None \<Rightarrow> Inl Invalid_argument
      | Some (neg, n) \<Rightarrow>
          if n \<ge> 2 ^ 64 then Inl Out_of_range
          else Inr (if neg then nat ((- int n) mod 2 ^ 64) else n))"

definition stoi :: "string \<Rightarrow> int res" where
  "stoi s =
     (case strto_parts s of
        None \<Rightarrow> Inl Invalid_argument
      | Some (neg, n) \<Rightarrow>
          (let v = (if neg then - int n else int n)
           in if -(2 ^ 31) \<le> v \<and> v < 2 ^ 31 then Inr v else Inl Out_of_range))"

definition show_int :: "int \<Rightarrow> string" where
  "show_int i = (if i < 0 then ''-'' @ show_nat (nat (- i)) else show_nat (nat i))"

lemma of_char_digit: "d < 10 \<Longrightarrow> (of_char (digit_char d) :: nat) = 48 + d"
  by (simp add: digit_char_def)

lemma show_nat_digits: "show_nat n \<noteq> [] \<and> list_all is_digit (show_nat n)"
proof (induction n rule: show_nat.induct)
  case (1 n)
  then show ?case
    by (cases "n < 10") (auto simp: show_nat.simps [of n] is_digit_def of_char_digit)
qed

lemma digits_value_show: "digits_value (show_nat n) = n"
proof (induction n rule: show_nat.induct)
  case (1 n)
  show ?case
  proof (cases "n < 10")
    case True
    then show ?thesis by (simp add: show_nat.simps [of n] digits_value_def of_char_digit)
  next
    case False
    with 1 have "digits_value (show_nat (n div 10)) = n div 10" by simp
    with False show ?thesis
      by (simp add: show_nat.simps [of n] digits_value_def of_char_digit)
  qed
qed

lemma strto_parts_show: "strto_parts (show_nat n) = Some (False, n)"
proof -
  from show_nat_digits [of n] obtain c cs where s: "show_nat n = c # cs" and d: "list_all is_digit (c # cs)"
    by (cases "show_nat n") auto
  have "is_digit c" using d by simp
  then have nd: "\<not> is_space c" "c \<noteq> CHR ''-''" "c \<noteq> CHR ''+''"
    by (auto simp: is_digit_def is_space_def)
  have "takeWhile is_digit (c # cs) = c # cs"
    using d by (simp only: takeWhile_eq_all_conv list_all_iff)
  then have "takeWhile is_digit (show_nat n) = show_nat n" by (simp only: s)
  then show ?thesis using nd digits_value_show [of n]
    by (simp add: strto_parts_def s Let_def)
qed

lemma stoul_show: "n < 2 ^ 64 \<Longrightarrow> stoul (show_nat n) = Inr n"
  by (simp add: stoul_def strto_parts_show)

lemma stoi_show: "n < 2 ^ 31 \<Longrightarrow> stoi (show_nat n) = Inr (int n)"
  by (simp add: stoi_def strto_parts_show Let_def)

end
