(* ===== verification/Config.thy ===== *)
theory Config
  imports Lib Packet
begin

text \<open>
  \<open>src/config.cpp\<close>: the parameters of the ROS node and what the bridge makes of them. The node's
  parameters are an ordered map; \<open>ov\<close> are the values the user gave. Declaring a parameter fails if
  the user's value has another type than the default, as the parameter API documents. A double is
  its 64 bits; the JSON parser, the arithmetic on doubles and files are parameters.
\<close>

section \<open>Parameters\<close>

datatype param = P_str string | P_strs "string list" | P_bool bool | P_int "64 word" | P_dbl "64 word"

type_synonym node = "(string, param) omap"

fun same_type :: "param \<Rightarrow> param \<Rightarrow> bool" where
  "same_type (P_str _) (P_str _) = True"
| "same_type (P_strs _) (P_strs _) = True"
| "same_type (P_bool _) (P_bool _) = True"
| "same_type (P_int _) (P_int _) = True"
| "same_type (P_dbl _) (P_dbl _) = True"
| "same_type _ _ = False"

definition declare_parameter :: "(string, param) omap \<Rightarrow> string \<Rightarrow> param \<Rightarrow> node \<Rightarrow> node res" where
  "declare_parameter ov name d node =
     (if mhas node name then Inl (Runtime_error ''ParameterAlreadyDeclaredException'')
      else case map_of ov name of
             None \<Rightarrow> Inr (mput name d node)
           | Some v \<Rightarrow> if same_type v d then Inr (mput name v node)
                      else Inl (Runtime_error ''InvalidParameterTypeException''))"

text \<open>A declaration in a \<open>try\<close> block that swallows \<open>ParameterAlreadyDeclaredException\<close>.\<close>

definition try_declare :: "(string, param) omap \<Rightarrow> string \<times> param \<Rightarrow> node \<Rightarrow> node res" where
  "try_declare ov nd node = (if mhas node (fst nd) then Inr node else declare_parameter ov (fst nd) (snd nd) node)"

definition get_parameter :: "node \<Rightarrow> string \<Rightarrow> param res" where
  "get_parameter node name =
     (case map_of node name of None \<Rightarrow> Inl (Runtime_error ''ParameterNotDeclaredException'') | Some v \<Rightarrow> Inr v)"

abbreviation bad_type :: "'a res" where "bad_type \<equiv> Inl (Runtime_error ''ParameterTypeException'')"

definition get_str :: "node \<Rightarrow> string \<Rightarrow> string res" where
  "get_str node name = bindR (get_parameter node name) (\<lambda>v. case v of P_str x \<Rightarrow> Inr x | _ \<Rightarrow> bad_type)"

definition get_strs :: "node \<Rightarrow> string \<Rightarrow> string list res" where
  "get_strs node name = bindR (get_parameter node name) (\<lambda>v. case v of P_strs x \<Rightarrow> Inr x | _ \<Rightarrow> bad_type)"

definition get_bool_param :: "node \<Rightarrow> string \<Rightarrow> bool res" where
  "get_bool_param node name = bindR (get_parameter node name) (\<lambda>v. case v of P_bool x \<Rightarrow> Inr x | _ \<Rightarrow> bad_type)"

definition get_int_param :: "node \<Rightarrow> string \<Rightarrow> 64 word res" where
  "get_int_param node name = bindR (get_parameter node name) (\<lambda>v. case v of P_int x \<Rightarrow> Inr x | _ \<Rightarrow> bad_type)"

definition get_dbl_param :: "node \<Rightarrow> string \<Rightarrow> 64 word res" where
  "get_dbl_param node name = bindR (get_parameter node name) (\<lambda>v. case v of P_dbl x \<Rightarrow> Inr x | _ \<Rightarrow> bad_type)"

definition declare_str :: "(string, param) omap \<Rightarrow> string \<Rightarrow> string \<Rightarrow> node \<Rightarrow> (string \<times> node) res" where
  "declare_str ov name d node =
     bindR (declare_parameter ov name (P_str d) node) (\<lambda>n. bindR (get_str n name) (\<lambda>v. Inr (v, n)))"

definition declare_strs :: "(string, param) omap \<Rightarrow> string \<Rightarrow> string list \<Rightarrow> node \<Rightarrow> (string list \<times> node) res" where
  "declare_strs ov name d node =
     bindR (declare_parameter ov name (P_strs d) node) (\<lambda>n. bindR (get_strs n name) (\<lambda>v. Inr (v, n)))"

definition declare_bool :: "(string, param) omap \<Rightarrow> string \<Rightarrow> bool \<Rightarrow> node \<Rightarrow> (bool \<times> node) res" where
  "declare_bool ov name d node =
     bindR (declare_parameter ov name (P_bool d) node) (\<lambda>n. bindR (get_bool_param n name) (\<lambda>v. Inr (v, n)))"

definition declare_int :: "(string, param) omap \<Rightarrow> string \<Rightarrow> 64 word \<Rightarrow> node \<Rightarrow> (64 word \<times> node) res" where
  "declare_int ov name d node =
     bindR (declare_parameter ov name (P_int d) node) (\<lambda>n. bindR (get_int_param n name) (\<lambda>v. Inr (v, n)))"

definition declare_dbl :: "(string, param) omap \<Rightarrow> string \<Rightarrow> 64 word \<Rightarrow> node \<Rightarrow> (64 word \<times> node) res" where
  "declare_dbl ov name d node =
     bindR (declare_parameter ov name (P_dbl d) node) (\<lambda>n. bindR (get_dbl_param n name) (\<lambda>v. Inr (v, n)))"

section \<open>Widget definitions\<close>

record widget_def =
  wd_class_name :: string
  wd_url :: string

text \<open>Without a space \<open>pos\<close> is \<open>npos\<close>: both \<open>substr\<close> calls give the whole text.\<close>

definition parseCustomPluginDef :: "string \<Rightarrow> widget_def option res" where
  "parseCustomPluginDef one =
     (let pos = num_of_pos (find_idx (\<lambda>c. c = CHR '' '') one)
      in bindR (substr one 0 pos) (\<lambda>a. bindR (substr one (sz_add pos 1) npos) (\<lambda>b.
           let def = \<lparr>wd_class_name = trim a ws_chars, wd_url = trim b ws_chars\<rparr>
           in Inr (if wd_class_name def = [] \<or> wd_url def = [] then None else Some def))))"

record 'j widget_config =
  wc_service :: string
  wc_class_name :: string
  wc_data :: "'j option"

definition parseServiceWidgetConfig :: "(string \<Rightarrow> 'j option) \<Rightarrow> string \<Rightarrow> 'j widget_config option res" where
  "parseServiceWidgetConfig json_parse one =
     (let json_start = find_idx (\<lambda>c. c = CHR ''{'') one;
          assignment = (case json_start of None \<Rightarrow> trim one ws_chars | Some p \<Rightarrow> trim (take p one) ws_chars);
          pos = num_of_pos (find_idx (\<lambda>c. c = CHR '' '') assignment)
      in bindR (substr assignment 0 pos) (\<lambda>a. bindR (substr assignment pos npos) (\<lambda>b.
           let conf = \<lparr>wc_service = trim a ws_chars, wc_class_name = trim b ws_chars, wc_data = None\<rparr>;
               checked = (\<lambda>c. if wc_service c = [] \<or> wc_class_name c = [] then None else Some c)
           in (case json_start of None \<Rightarrow> Inr (checked conf)
               | Some p \<Rightarrow>
                   (case json_parse (trim (drop p one) ws_chars) of None \<Rightarrow> Inr None
                    | Some j \<Rightarrow> Inr (checked (conf\<lparr>wc_data := Some j\<rparr>)))))))"

section \<open>The configuration\<close>

record 'j bridge_config =
  cf_id_robot :: "string"
  cf_auth_key :: "string"
  cf_robot_name :: "string"
  cf_maintainer_email :: "string"
  cf_ros_distro :: "string"
  cf_git_head_sha :: "string"
  cf_latest_git_tag :: "string"
  cf_extra_packages :: "string list"
  cf_use_cloud_ice_config :: "bool"
  cf_ice_servers :: "string list"
  cf_ice_servers_custom :: "string list"
  cf_ice_username :: "string"
  cf_ice_secret :: "string"
  cf_blacklist_topics :: "string list"
  cf_blacklist_services :: "string list"
  cf_blacklist_msg_types :: "string list"
  cf_log_message_every_sec :: "64 word"
  cf_discovery_period_sec :: "64 word"
  cf_stop_discovery_after_sec :: "64 word"
  cf_introspection_verbose :: "bool"
  cf_cloud_bridge_address :: "string"
  cf_sio_path :: "string"
  cf_uploader_address :: "string"
  cf_file_upload_port :: "32 word"
  cf_sio_port :: "32 word"
  cf_sio_ssl_verify :: "bool"
  cf_sio_debug :: "bool"
  cf_sio_verbose :: "bool"
  cf_sio_connection_retry_sec :: "64 word"
  cf_conn_led_topic :: "string"
  cf_data_led_topic :: "string"
  cf_conn_led_gpio_chip :: "string"
  cf_conn_led_pin :: "32 word"
  cf_data_led_pin :: "32 word"
  cf_collapse_services :: "string list"
  cf_ui_battery_topic :: "string"
  cf_ui_wifi_monitor_topic :: "string"
  cf_docker_monitor_topic :: "string"
  cf_docker_control_enabled :: "bool"
  cf_ui_enable_wifi_scan :: "bool"
  cf_ui_enable_wifi_roam :: "bool"
  cf_collapse_unhandled_services :: "bool"
  cf_service_timeout_ns :: "64 word"
  cf_input_drivers :: "string list"
  cf_custom_input_drivers :: "widget_def list"
  cf_custom_service_widgets :: "widget_def list"
  cf_service_widgets :: "'j widget_config list"
  cf_service_calls_verbose :: "bool"
  cf_input_defaults :: "'j option"
  cf_service_defaults :: "'j option"
  cf_webrtc_debug :: "bool"
  cf_webrtc_verbose :: "bool"
  cf_enable_ice_udp_mux :: "bool"
  cf_enable_ice_tcp :: "bool"
  cf_disable_fingerprint_verification :: "bool"
  cf_log_heartbeat :: "bool"
  cf_log_sdp :: "bool"
  cf_file_chunks_topic :: "string"

text \<open>Loading is a list of steps on the configuration and the node's parameters.\<close>

type_synonym 'j ld = "'j bridge_config \<times> node \<Rightarrow> ('j bridge_config \<times> node) res"

definition ld_str :: "(string, param) omap \<Rightarrow> string \<Rightarrow> string \<Rightarrow> (string \<Rightarrow> 'j bridge_config \<Rightarrow> 'j bridge_config) \<Rightarrow> 'j ld" where
  "ld_str ov name d f cn = bindR (declare_str ov name d (snd cn)) (\<lambda>(v, n). Inr (f v (fst cn), n))"

definition ld_strs :: "(string, param) omap \<Rightarrow> string \<Rightarrow> string list \<Rightarrow> (string list \<Rightarrow> 'j bridge_config \<Rightarrow> 'j bridge_config) \<Rightarrow> 'j ld" where
  "ld_strs ov name d f cn = bindR (declare_strs ov name d (snd cn)) (\<lambda>(v, n). Inr (f v (fst cn), n))"

definition ld_bool :: "(string, param) omap \<Rightarrow> string \<Rightarrow> bool \<Rightarrow> (bool \<Rightarrow> 'j bridge_config \<Rightarrow> 'j bridge_config) \<Rightarrow> 'j ld" where
  "ld_bool ov name d f cn = bindR (declare_bool ov name d (snd cn)) (\<lambda>(v, n). Inr (f v (fst cn), n))"

definition ld_int :: "(string, param) omap \<Rightarrow> string \<Rightarrow> 64 word \<Rightarrow> (64 word \<Rightarrow> 'j bridge_config \<Rightarrow> 'j bridge_config) \<Rightarrow> 'j ld" where
  "ld_int ov name d f cn = bindR (declare_int ov name d (snd cn)) (\<lambda>(v, n). Inr (f v (fst cn), n))"

definition ld_dbl :: "(string, param) omap \<Rightarrow> string \<Rightarrow> 64 word \<Rightarrow> (64 word \<Rightarrow> 'j bridge_config \<Rightarrow> 'j bridge_config) \<Rightarrow> 'j ld" where
  "ld_dbl ov name d f cn = bindR (declare_dbl ov name d (snd cn)) (\<lambda>(v, n). Inr (f v (fst cn), n))"

definition exit_if :: "('j bridge_config \<Rightarrow> bool) \<Rightarrow> 'j ld" where
  "exit_if P cn = (if P (fst cn) then Inl Exit_process else Inr cn)"

definition mask :: "string \<Rightarrow> 'j ld" where
  "mask name cn = Inr (fst cn, mput name (P_str ''*************'') (snd cn))"

definition load_identity ::
  "(string, param) omap \<Rightarrow> 'j ld list" where
  "load_identity ov =
    [
     ld_str ov ''id_robot'' [] (\<lambda>v c. c\<lparr>cf_id_robot := v\<rparr>),
     ld_str ov ''key'' [] (\<lambda>v c. c\<lparr>cf_auth_key := v\<rparr>),
     exit_if (\<lambda>c. cf_id_robot c = []),
     exit_if (\<lambda>c. cf_auth_key c = []),
     ld_str ov ''name'' ''Unnamed Robot'' (\<lambda>v c. c\<lparr>cf_robot_name := v\<rparr>),
     ld_str ov ''maintainer_email'' [] (\<lambda>v c. c\<lparr>cf_maintainer_email := v\<rparr>),
     ld_strs ov ''extra_packages'' [] (\<lambda>v c. c\<lparr>cf_extra_packages := v\<rparr>)]"

definition load_ice ::
  "(string, param) omap \<Rightarrow> 'j ld list" where
  "load_ice ov =
    [
     ld_bool ov ''use_cloud_ice_config'' True (\<lambda>v c. c\<lparr>cf_use_cloud_ice_config := v\<rparr>),
     ld_strs ov ''ice_servers'' [] (\<lambda>v c. c\<lparr>cf_ice_servers_custom := v, cf_ice_servers := cf_ice_servers c @ v\<rparr>),
     ld_str ov ''ice_username'' [] (\<lambda>v c. c\<lparr>cf_ice_username := (if v = [] then cf_id_robot c else v)\<rparr>),
     ld_str ov ''ice_secret'' [] (\<lambda>v c. c\<lparr>cf_ice_secret := v\<rparr>),
     ld_bool ov ''enable_ice_udp_mux'' True (\<lambda>v c. c\<lparr>cf_enable_ice_udp_mux := v\<rparr>),
     ld_bool ov ''enable_ice_tcp'' False (\<lambda>v c. c\<lparr>cf_enable_ice_tcp := v\<rparr>),
     ld_bool ov ''disable_fingerprint_verification'' False (\<lambda>v c. c\<lparr>cf_disable_fingerprint_verification := v\<rparr>),
     mask ''key'',
     mask ''ice_username'',
     mask ''ice_secret'']"

text \<open>
  Lists with system defaults: \<open>std::find\<close> compared with the end of the same list; for two lists the
  code compares with the end of \<open>blacklist_services\<close> instead, whose outcome (\<open>foreign_end\<close>, from the
  list and the position found in it) the language leaves open.
\<close>

definition merge_list :: "string list \<Rightarrow> string list \<Rightarrow> string list" where
  "merge_list base extra = fold (\<lambda>x xs. if x \<in> set xs then xs else xs @ [x]) extra base"

definition merge_foreign :: "(string list \<Rightarrow> nat \<Rightarrow> bool) \<Rightarrow> string list \<Rightarrow> string list \<Rightarrow> string list" where
  "merge_foreign foreign_end base extra =
     fold (\<lambda>x xs. if foreign_end xs (case find_idx (\<lambda>y. y = x) xs of None \<Rightarrow> length xs | Some i \<Rightarrow> i)
                 then xs @ [x] else xs) extra base"

definition collapse_services_default :: "string list" where
  "collapse_services_default =
     [''rcl_interfaces/srv/DescribeParameters'', ''rcl_interfaces/srv/GetParameterTypes'',
      ''rcl_interfaces/srv/GetParameters'', ''rcl_interfaces/srv/ListParameters'',
      ''rcl_interfaces/srv/SetParameters'', ''rcl_interfaces/srv/SetParametersAtomically'',
      ''type_description_interfaces/srv/GetTypeDescription'', ''rcl_interfaces/srv/GetLoggerLevels'',
      ''rcl_interfaces/srv/SetLoggerLevels'']"

definition blacklist_msg_types_default :: "string list" where
  "blacklist_msg_types_default =
     [''sensor_msgs/PointCloud'', ''sensor_msgs/msg/PointCloud2'', ''cost_map_msgs/CostMap'',
      ''nav_msgs/msg/OccupancyGrid'', ''phntm_interfaces/msg/FileChunk'']"

definition load_lists :: "(string list \<Rightarrow> nat \<Rightarrow> bool) \<Rightarrow> (string, param) omap \<Rightarrow> 'j ld list" where
  "load_lists foreign_end ov =
    [ld_strs ov ''collapse_services_default'' collapse_services_default (\<lambda>v c. c\<lparr>cf_collapse_services := v\<rparr>),
     ld_strs ov ''collapse_services'' [] (\<lambda>v c. c\<lparr>cf_collapse_services := merge_list (cf_collapse_services c) v\<rparr>),
     ld_bool ov ''collapse_unhandled_services'' True (\<lambda>v c. c\<lparr>cf_collapse_unhandled_services := v\<rparr>),
     ld_strs ov ''blacklist_topics_default'' [] (\<lambda>v c. c\<lparr>cf_blacklist_topics := v\<rparr>),
     ld_strs ov ''blacklist_topics'' [] (\<lambda>v c. c\<lparr>cf_blacklist_topics := merge_foreign foreign_end (cf_blacklist_topics c) v\<rparr>),
     ld_strs ov ''blacklist_services_default'' [''phntm_interfaces/srv/FileRequest''] (\<lambda>v c. c\<lparr>cf_blacklist_services := v\<rparr>),
     ld_strs ov ''blacklist_services'' [] (\<lambda>v c. c\<lparr>cf_blacklist_services := merge_list (cf_blacklist_services c) v\<rparr>),
     ld_strs ov ''blacklist_msg_types_default'' blacklist_msg_types_default (\<lambda>v c. c\<lparr>cf_blacklist_msg_types := v\<rparr>),
     ld_strs ov ''blacklist_msg_types'' [] (\<lambda>v c. c\<lparr>cf_blacklist_msg_types := merge_foreign foreign_end (cf_blacklist_msg_types c) v\<rparr>),
     ld_bool ov ''log_sdp'' False (\<lambda>v c. c\<lparr>cf_log_sdp := v\<rparr>),
     ld_bool ov ''log_heartbeat'' False (\<lambda>v c. c\<lparr>cf_log_heartbeat := v\<rparr>),
     ld_dbl ov ''log_message_every_sec'' 0x4024000000000000 (\<lambda>v c. c\<lparr>cf_log_message_every_sec := v\<rparr>)]"

text \<open>The parameters of the cloud connection are declared before the lists and read after them.\<close>

definition load_cloud ::
  "(string, param) omap \<Rightarrow> 'j ld list" where
  "load_cloud ov =
    [
     ld_str ov ''cloud_bridge_address'' ''https://us-ca.bridge.phntm.io'' (\<lambda>v c. c\<lparr>cf_cloud_bridge_address := v\<rparr>),
     ld_int ov ''file_upload_port'' 1336 (\<lambda>v c. c\<lparr>cf_file_upload_port := ucast v\<rparr>),
     ld_int ov ''sio_port'' 1337 (\<lambda>v c. c\<lparr>cf_sio_port := ucast v\<rparr>),
     ld_str ov ''sio_path'' ''/robot/socket.io/'' (\<lambda>v c. c\<lparr>cf_sio_path := v\<rparr>),
     ld_dbl ov ''sio_connection_retry_sec'' 0x4000000000000000 (\<lambda>v c. c\<lparr>cf_sio_connection_retry_sec := v\<rparr>),
     ld_bool ov ''sio_ssl_verify'' True (\<lambda>v c. c\<lparr>cf_sio_ssl_verify := v\<rparr>),
     ld_bool ov ''sio_debug'' False (\<lambda>v c. c\<lparr>cf_sio_debug := v\<rparr>),
     ld_bool ov ''sio_verbose'' False (\<lambda>v c. c\<lparr>cf_sio_verbose := v\<rparr>)]"

definition check_cloud :: "'j ld list" where
  "check_cloud =
    [exit_if (\<lambda>c. cf_cloud_bridge_address c = []),
     \<lambda>(c, n). Inr (c\<lparr>cf_uploader_address := cf_cloud_bridge_address c @ '':'' @ show_int (sint (cf_file_upload_port c))\<rparr>, n)]"

definition load_led_params ::
  "(string, param) omap \<Rightarrow> 'j ld list" where
  "load_led_params ov =
    [
     ld_str ov ''conn_led_topic'' [] (\<lambda>v c. c\<lparr>cf_conn_led_topic := v\<rparr>),
     ld_str ov ''data_led_topic'' [] (\<lambda>v c. c\<lparr>cf_data_led_topic := v\<rparr>),
     ld_str ov ''conn_led_gpio_chip'' ''/dev/gpiochip0'' (\<lambda>v c. c\<lparr>cf_conn_led_gpio_chip := v\<rparr>),
     ld_int ov ''conn_led_pin'' (-1) (\<lambda>v c. c\<lparr>cf_conn_led_pin := ucast v\<rparr>),
     ld_int ov ''data_led_pin'' (-1) (\<lambda>v c. c\<lparr>cf_data_led_pin := ucast v\<rparr>)]"

definition load_ui ::
  "(string, param) omap \<Rightarrow> 'j ld list" where
  "load_ui ov =
    [
     ld_dbl ov ''discovery_period_sec'' 0x4000000000000000 (\<lambda>v c. c\<lparr>cf_discovery_period_sec := v\<rparr>),
     ld_dbl ov ''stop_discovery_after_sec'' 0xBFF0000000000000 (\<lambda>v c. c\<lparr>cf_stop_discovery_after_sec := v\<rparr>),
     ld_bool ov ''introspection_verbose'' False (\<lambda>v c. c\<lparr>cf_introspection_verbose := v\<rparr>),
     ld_str ov ''ui_wifi_monitor_topic'' ''/iw_status'' (\<lambda>v c. c\<lparr>cf_ui_wifi_monitor_topic := v\<rparr>),
     ld_bool ov ''ui_enable_wifi_scan'' True (\<lambda>v c. c\<lparr>cf_ui_enable_wifi_scan := v\<rparr>),
     ld_bool ov ''ui_enable_wifi_roam'' False (\<lambda>v c. c\<lparr>cf_ui_enable_wifi_roam := v\<rparr>),
     ld_str ov ''ui_battery_topic'' ''/battery'' (\<lambda>v c. c\<lparr>cf_ui_battery_topic := v\<rparr>),
     ld_bool ov ''ui_docker_control'' True (\<lambda>v c. c\<lparr>cf_docker_control_enabled := v\<rparr>),
     ld_str ov ''docker_monitor_topic'' ''/docker_info'' (\<lambda>v c. c\<lparr>cf_docker_monitor_topic := v\<rparr>),
     ld_strs ov ''input_drivers'' [''Joy''] (\<lambda>v c. c\<lparr>cf_input_drivers := v\<rparr>)]"

definition add_plugins :: "(widget_def \<Rightarrow> 'j bridge_config \<Rightarrow> 'j bridge_config) \<Rightarrow> string list \<Rightarrow> 'j ld" where
  "add_plugins add defs =
     foldR (\<lambda>one (c, n). if one = [] then Inr (c, n)
       else bindR (parseCustomPluginDef one) (\<lambda>def.
         case def of None \<Rightarrow> Inl Exit_process | Some d \<Rightarrow> Inr (add d c, n))) defs"

definition add_service_widgets :: "(string \<Rightarrow> 'j option) \<Rightarrow> string list \<Rightarrow> 'j ld" where
  "add_service_widgets json_parse defs =
     foldR (\<lambda>one (c, n). if one = [] then Inr (c, n)
       else bindR (parseServiceWidgetConfig json_parse one) (\<lambda>conf.
         case conf of None \<Rightarrow> Inl Exit_process
         | Some w \<Rightarrow> Inr (c\<lparr>cf_service_widgets := cf_service_widgets c @ [w]\<rparr>, n))) defs"

definition load_custom :: "(string \<Rightarrow> 'j option) \<Rightarrow> (string, param) omap \<Rightarrow> 'j ld list" where
  "load_custom json_parse ov =
    [\<lambda>(c, n). bindR (declare_strs ov ''custom_input_drivers'' [] n) (\<lambda>(v, n).
       add_plugins (\<lambda>d c. c\<lparr>cf_custom_input_drivers := cf_custom_input_drivers c @ [d]\<rparr>) v (c, n)),
     \<lambda>(c, n). bindR (declare_strs ov ''custom_service_widgets'' [] n) (\<lambda>(v, n).
       add_plugins (\<lambda>d c. c\<lparr>cf_custom_service_widgets := cf_custom_service_widgets c @ [d]\<rparr>) v (c, n)),
     \<lambda>(c, n). bindR (declare_strs ov ''service_widgets'' [] n) (\<lambda>(v, n). add_service_widgets json_parse v (c, n))]"

text \<open>\<open>read_json\<close>: the document in a file, if it can be read and parsed.\<close>

definition load_json_file :: "(string \<Rightarrow> 'j option) \<Rightarrow> ('j \<Rightarrow> 'j bridge_config \<Rightarrow> 'j bridge_config) \<Rightarrow> string \<Rightarrow> 'j ld" where
  "load_json_file read_json f file cn =
     (if file = [] then Inr cn
      else case read_json file of None \<Rightarrow> Inl Exit_process | Some j \<Rightarrow> Inr (f j (fst cn), snd cn))"

definition load_defaults ::
  "(string \<Rightarrow> 'j option) \<Rightarrow> (64 word \<Rightarrow> 64 word) \<Rightarrow> (string, param) omap \<Rightarrow> 'j ld list" where
  "load_defaults read_json sec_to_ns ov =
    [\<lambda>(c, n). bindR (declare_str ov ''input_defaults'' [] n) (\<lambda>(v, n).
       load_json_file read_json (\<lambda>j c. c\<lparr>cf_input_defaults := Some j\<rparr>) v (c, n)),
     \<lambda>(c, n). bindR (declare_str ov ''service_defaults'' [] n) (\<lambda>(v, n).
       load_json_file read_json (\<lambda>j c. c\<lparr>cf_service_defaults := Some j\<rparr>) v (c, n)),
     ld_dbl ov ''service_timeout_sec'' 0x4034000000000000 (\<lambda>v c. c\<lparr>cf_service_timeout_ns := sec_to_ns v\<rparr>),
     ld_bool ov ''service_calls_verbose'' False (\<lambda>v c. c\<lparr>cf_service_calls_verbose := v\<rparr>),
     ld_bool ov ''webrtc_debug'' False (\<lambda>v c. c\<lparr>cf_webrtc_debug := v\<rparr>),
     ld_bool ov ''webrtc_verbose'' False (\<lambda>v c. c\<lparr>cf_webrtc_verbose := v\<rparr>),
     ld_str ov ''file_chunks_topic'' ''/file_chunks'' (\<lambda>v c. c\<lparr>cf_file_chunks_topic := v\<rparr>),
     ld_int ov ''low_fps_default'' 30 (\<lambda>v c. c),
     ld_str ov ''encoder_hw_device_default'' [] (\<lambda>v c. c),
     ld_int ov ''encoder_thread_count_default'' 2 (\<lambda>v c. c),
     ld_int ov ''encoder_gop_size_default'' 60 (\<lambda>v c. c),
     ld_int ov ''encoder_bit_rate_default'' 5000000 (\<lambda>v c. c)]"

definition run_ld :: "'j ld list \<Rightarrow> 'j ld" where
  "run_ld = foldR (\<lambda>f. f)"

definition loadConfig ::
  "(string list \<Rightarrow> nat \<Rightarrow> bool) \<Rightarrow> (string \<Rightarrow> 'j option) \<Rightarrow> (string \<Rightarrow> 'j option) \<Rightarrow> (64 word \<Rightarrow> 64 word) \<Rightarrow>
   (string, param) omap \<Rightarrow> 'j ld" where
  "loadConfig foreign_end json_parse read_json sec_to_ns ov =
     run_ld (load_identity ov @ load_ice ov @ load_cloud ov @ load_lists foreign_end ov @ check_cloud @
             load_led_params ov @ load_ui ov @ load_custom json_parse ov @ load_defaults read_json sec_to_ns ov)"

section \<open>Configuration of a topic\<close>

record qos =
  q_depth :: "64 word"
  q_reliability :: "64 word"
  q_durability :: "64 word"
  q_lifespan :: "(int \<times> int) option"

text \<open>
  \<open>dbl_neg\<close>: the double is below zero; \<open>dur\<close>: the whole nanoseconds of a duration in seconds, both
  of the standard library. The lifespan \<open>None\<close> is \<open>Duration::max()\<close>.
\<close>

definition loadTopicQoSConfig ::
  "(64 word \<Rightarrow> bool) \<Rightarrow> (64 word \<Rightarrow> int) \<Rightarrow> (string, param) omap \<Rightarrow> string \<Rightarrow> 64 word \<Rightarrow> 64 word \<Rightarrow> 64 word \<Rightarrow> 64 word \<Rightarrow>
   node \<Rightarrow> (qos \<times> node) res" where
  "loadTopicQoSConfig dbl_neg dur ov topic depth reliability durability lifespan node =
     bindR (try_declare ov (topic @ ''.history_depth'', P_int depth) node) (\<lambda>node.
     bindR (get_int_param node (topic @ ''.history_depth'')) (\<lambda>d.
     bindR (try_declare ov (topic @ ''.reliability'', P_int reliability) node) (\<lambda>node.
     bindR (try_declare ov (topic @ ''.durability'', P_int durability) node) (\<lambda>node.
     bindR (get_int_param node (topic @ ''.reliability'')) (\<lambda>r.
     bindR (get_int_param node (topic @ ''.durability'')) (\<lambda>u.
     bindR (try_declare ov (topic @ ''.lifespan_sec'', P_dbl lifespan) node) (\<lambda>node.
     bindR (get_dbl_param node (topic @ ''.lifespan_sec'')) (\<lambda>l.
       Inr (\<lparr>q_depth = d, q_reliability = r, q_durability = u,
             q_lifespan = (if dbl_neg l then None else Some (dur l div 1000000000, dur l mod 1000000000))\<rparr>, node)))))))))"

text \<open>The declarations of one kind of message, and the entries made of them.\<close>

definition declare_all :: "(string, param) omap \<Rightarrow> string \<Rightarrow> (string \<times> param) list \<Rightarrow> node \<Rightarrow> node res" where
  "declare_all ov topic ps = foldR (\<lambda>p. try_declare ov (topic @ fst p, snd p)) ps"

fun param_message :: "param \<Rightarrow> message" where
  "param_message (P_str s) = String_msg s"
| "param_message (P_strs ss) = Array_msg (map (\<lambda>s. Some (String_msg s)) ss)"
| "param_message (P_bool b) = Bool_msg b"
| "param_message (P_int i) = Int_msg i"
| "param_message (P_dbl d) = Double_msg d"

text \<open>Each entry: its name in the message, the parameter, and a value of the type it is read as.\<close>

definition emplace_param ::
  "node \<Rightarrow> string \<Rightarrow> string \<times> string \<times> param \<Rightarrow> (string, msg_ptr) omap \<Rightarrow> (string, msg_ptr) omap res" where
  "emplace_param node topic e m =
     (case e of (key, suffix, ty) \<Rightarrow>
        bindR (get_parameter node (topic @ suffix)) (\<lambda>v.
          if same_type v ty then Inr (memplace key (Some (param_message v)) m) else bad_type))"

definition extra_group ::
  "(string, param) omap \<Rightarrow> string \<Rightarrow> (string \<times> param) list \<Rightarrow> (string \<times> string \<times> param) list \<Rightarrow>
   node \<times> (string, msg_ptr) omap \<Rightarrow> (node \<times> (string, msg_ptr) omap) res" where
  "extra_group ov topic ps es nm =
     bindR (declare_all ov topic ps (fst nm)) (\<lambda>n.
     bindR (foldR (emplace_param n topic) es (snd nm)) (\<lambda>m. Inr (n, m)))"

definition video_params :: "(string \<times> param) list" where
  "video_params = [(''.debug_num_frames'', P_int 0), (''.debug_verbose'', P_bool False),
                   (''.create_node'', P_bool True), (''.use_pts'', P_bool True)]"

definition video_entries :: "(string \<times> string \<times> param) list" where
  "video_entries = [(''debug_num_frames'', ''.debug_num_frames'', P_int 0), (''debug_verbose'', ''.debug_verbose'', P_bool False),
                    (''use_pts'', ''.use_pts'', P_bool True), (''create_node'', ''.create_node'', P_bool True)]"

definition image_params :: "node \<Rightarrow> (string \<times> param) list res" where
  "image_params node =
     bindR (get_str node ''encoder_hw_device_default'') (\<lambda>hw.
     bindR (get_int_param node ''encoder_thread_count_default'') (\<lambda>tc.
     bindR (get_int_param node ''encoder_gop_size_default'') (\<lambda>gop.
     bindR (get_int_param node ''encoder_bit_rate_default'') (\<lambda>br.
       Inr [(''.colormap'', P_int 0), (''.max_sensor_value'', P_dbl 0x406FE00000000000), (''.encoder_hw_device'', P_str hw),
            (''.encoder_thread_count'', P_int tc), (''.encoder_gop_size'', P_int gop), (''.encoder_bit_rate'', P_int br)]))))"

definition image_entries :: "(string \<times> string \<times> param) list" where
  "image_entries =
     [(''colormap'', ''.colormap'', P_int 0), (''max_sensor_value'', ''.max_sensor_value'', P_dbl 0),
      (''encoder_hw_device'', ''.encoder_hw_device'', P_str []), (''encoder_thread_count'', ''.encoder_thread_count'', P_int 0),
      (''encoder_gop_size'', ''.encoder_gop_size'', P_int 0), (''encoder_bit_rate'', ''.encoder_bit_rate'', P_int 0)]"

definition detection_params :: "(string \<times> param) list" where
  "detection_params = [(''.input_width'', P_int 416), (''.input_height'', P_int 416), (''.label_map'', P_strs [])]"

definition detection_entries :: "(string \<times> string \<times> param) list" where
  "detection_entries = [(''nn_input_w'', ''.input_width'', P_int 0), (''nn_input_h'', ''.input_height'', P_int 0),
                        (''nn_detection_labels'', ''.label_map'', P_strs [])]"

definition camera_params :: "(string \<times> param) list" where
  "camera_params = [(''.frustum_color'', P_str ''cyan''), (''.frustum_near'', P_dbl 0x3F847AE140000000),
                    (''.frustum_far'', P_dbl 0x3FF0000000000000), (''.force_frame_id'', P_str [])]"

definition camera_entries :: "(string \<times> string \<times> param) list" where
  "camera_entries = [(''frustum_color'', ''.frustum_color'', P_str []), (''frustum_near'', ''.frustum_near'', P_dbl 0),
                     (''frustum_far'', ''.frustum_far'', P_dbl 0)]"

definition battery_params :: "(string \<times> param) list" where
  "battery_params = [(''.min_voltage'', P_dbl 0), (''.max_voltage'', P_dbl 0x4028000000000000)]"

definition battery_entries :: "(string \<times> string \<times> param) list" where
  "battery_entries = [(''min_voltage'', ''.min_voltage'', P_dbl 0), (''max_voltage'', ''.max_voltage'', P_dbl 0)]"

definition force_frame_entry ::
  "string \<Rightarrow> node \<times> (string, msg_ptr) omap \<Rightarrow> (node \<times> (string, msg_ptr) omap) res" where
  "force_frame_entry topic nm =
     bindR (get_str (fst nm) (topic @ ''.force_frame_id'')) (\<lambda>f.
       Inr (fst nm, if f = [] then snd nm else memplace ''force_frame_id'' (Some (String_msg f)) (snd nm)))"

definition loadTopicMsgTypeExtraConfig ::
  "(string, param) omap \<Rightarrow> string \<Rightarrow> string \<Rightarrow> node \<Rightarrow> (message \<times> node) res" where
  "loadTopicMsgTypeExtraConfig ov topic msg_type node =
     bindR (get_int_param node ''low_fps_default'') (\<lambda>fps.
     bindR (extra_group ov topic [(''.low_fps'', P_int fps)] [(''low_fps'', ''.low_fps'', P_int 0)] (node, [])) (\<lambda>nm.
     bindR (if isImageOrVideoType msg_type then extra_group ov topic video_params video_entries nm else Inr nm) (\<lambda>nm.
     bindR (if isImageType msg_type
            then bindR (image_params (fst nm)) (\<lambda>ps. extra_group ov topic ps image_entries nm) else Inr nm) (\<lambda>nm.
     bindR (if msg_type = ''vision_msgs/msg/Detection2DArray'' \<or> msg_type = ''vision_msgs/msg/Detection3DArray''
            then extra_group ov topic detection_params detection_entries nm
            else if msg_type = ''sensor_msgs/msg/CameraInfo''
            then bindR (extra_group ov topic camera_params camera_entries nm) (force_frame_entry topic)
            else if msg_type = ''sensor_msgs/msg/BatteryState''
            then extra_group ov topic battery_params battery_entries nm
            else Inr nm) (\<lambda>(n, m).
       Inr (Object_msg m, n))))))"

section \<open>Properties of the node's parameters\<close>

lemma try_declare_has: "try_declare ov (name, d) n = Inr n' \<Longrightarrow> mhas n' name"
  by (auto simp: try_declare_def declare_parameter_def split: if_splits option.splits)

lemma try_declare_id: "mhas n name \<Longrightarrow> try_declare ov (name, d) n = Inr n"
  by (simp add: try_declare_def)

text \<open>A declaration keeps what was declared.\<close>

definition extends :: "node \<Rightarrow> node \<Rightarrow> bool" where
  "extends n n' = (\<forall>k v. map_of n k = Some v \<longrightarrow> map_of n' k = Some v)"

lemma extends_refl [simp]: "extends n n"
  by (simp add: extends_def)

lemma extends_trans: "extends a b \<Longrightarrow> extends b c \<Longrightarrow> extends a c"
  by (simp add: extends_def)

lemma extends_get: "extends n n' \<Longrightarrow> get_parameter n k = Inr v \<Longrightarrow> get_parameter n' k = Inr v"
  by (auto simp: extends_def get_parameter_def split: option.splits)

lemma extends_has: "extends n n' \<Longrightarrow> mhas n k \<Longrightarrow> mhas n' k"
  by (auto simp: extends_def mhas_def)

lemma try_declare_extends: "try_declare ov nd n = Inr n' \<Longrightarrow> extends n n'"
  by (auto simp: try_declare_def declare_parameter_def extends_def mhas_def split: if_splits option.splits)

lemma extends_getters:
  assumes "extends n n'"
  shows "get_int_param n k = Inr i \<Longrightarrow> get_int_param n' k = Inr i"
    "get_dbl_param n k = Inr i \<Longrightarrow> get_dbl_param n' k = Inr i"
    "get_str n k = Inr s \<Longrightarrow> get_str n' k = Inr s"
  using extends_get [OF assms]
  by (auto simp: get_int_param_def get_dbl_param_def get_str_def res_simps)

text \<open>The QoS settings of a topic are fixed by the first call: a later call, with whatever defaults,
  finds the parameters declared, changes nothing and returns the same settings.\<close>

theorem topic_qos_stable:
  assumes "loadTopicQoSConfig dbl_neg dur ov topic d r u l n = Inr (q, n1)"
  shows "loadTopicQoSConfig dbl_neg dur ov topic d' r' u' l' n1 = Inr (q, n1)"
proof -
  let ?k1 = "topic @ ''.history_depth''" and ?k2 = "topic @ ''.reliability''" and ?k3 = "topic @ ''.durability''"
    and ?k4 = "topic @ ''.lifespan_sec''"
  from assms obtain na nb nc vd vr vu vl where st:
    "try_declare ov (?k1, P_int d) n = Inr na" "get_int_param na ?k1 = Inr vd"
    "try_declare ov (?k2, P_int r) na = Inr nb" "try_declare ov (?k3, P_int u) nb = Inr nc"
    "get_int_param nc ?k2 = Inr vr" "get_int_param nc ?k3 = Inr vu"
    "try_declare ov (?k4, P_dbl l) nc = Inr n1" "get_dbl_param n1 ?k4 = Inr vl"
    and q: "q = \<lparr>q_depth = vd, q_reliability = vr, q_durability = vu,
      q_lifespan = (if dbl_neg vl then None else Some (dur vl div 1000000000, dur vl mod 1000000000))\<rparr>"
    unfolding loadTopicQoSConfig_def by (auto simp: res_simps)
  have e: "extends na nb" "extends nb nc" "extends nc n1" using st(3,4,7) by (auto dest: try_declare_extends)
  then have e': "extends na n1" "extends nb n1" by (blast intro: extends_trans)+
  have h: "mhas n1 ?k1" "mhas n1 ?k2" "mhas n1 ?k3" "mhas n1 ?k4"
    using try_declare_has [OF st(1)] try_declare_has [OF st(3)] try_declare_has [OF st(4)] try_declare_has [OF st(7)]
      extends_has e e' by blast+
  have g: "get_int_param n1 ?k1 = Inr vd" "get_int_param n1 ?k2 = Inr vr" "get_int_param n1 ?k3 = Inr vu"
    using extends_getters(1) [OF e'(1) st(2)] extends_getters(1) [OF e(3) st(5)] extends_getters(1) [OF e(3) st(6)] by blast+
  show ?thesis
    unfolding loadTopicQoSConfig_def
    by (simp only: try_declare_id [OF h(1)] try_declare_id [OF h(2)] try_declare_id [OF h(3)] try_declare_id [OF h(4)]
        bindR.simps g st(8) q)
qed

theorem topic_qos_stable_witness:
  "\<exists>q n. loadTopicQoSConfig (\<lambda>_. True) (\<lambda>_. 0) [] ''/t'' 1 2 2 0 [] = Inr (q, n) \<and>
     loadTopicQoSConfig (\<lambda>_. True) (\<lambda>_. 0) [] ''/t'' 10 1 1 5 n = Inr (q, n)"
proof -
  have "\<exists>q n. loadTopicQoSConfig (\<lambda>_. True) (\<lambda>_. 0) [] ''/t'' 1 2 2 0 [] = Inr (q, n)"
    by (simp add: loadTopicQoSConfig_def try_declare_def declare_parameter_def get_int_param_def get_dbl_param_def
        get_parameter_def mhas_def)
  then show ?thesis using topic_qos_stable by blast
qed

section \<open>Lists with defaults\<close>

lemma merge_list_step:
  "distinct base \<Longrightarrow> distinct (merge_list base extra) \<and> set (merge_list base extra) = set base \<union> set extra \<and>
     (\<exists>more. merge_list base extra = base @ more)"
proof (induction extra arbitrary: base)
  case Nil
  then show ?case by (simp add: merge_list_def)
next
  case (Cons x extra)
  show ?case
  proof (cases "x \<in> set base")
    case True
    then have "merge_list base (x # extra) = merge_list base extra" by (simp add: merge_list_def)
    with Cons True show ?thesis by auto
  next
    case False
    then have m: "merge_list base (x # extra) = merge_list (base @ [x]) extra" by (simp add: merge_list_def)
    from Cons.IH [of "base @ [x]"] False Cons.prems show ?thesis unfolding m by auto
  qed
qed

text \<open>What the foreign comparison does where it never succeeds: every entry of the user is dropped.\<close>

lemma merge_foreign_never:
  "base \<noteq> [] \<Longrightarrow> (\<And>xs n. xs \<noteq> [] \<Longrightarrow> \<not> eq xs n) \<Longrightarrow> merge_foreign eq base extra = base"
  by (induction extra) (auto simp: merge_foreign_def)

theorem merge_foreign_drops:
  assumes "\<And>xs n. xs \<noteq> [] \<Longrightarrow> \<not> eq xs n"
  shows "merge_foreign eq blacklist_msg_types_default extra = blacklist_msg_types_default"
  by (rule merge_foreign_never) (use assms in \<open>auto simp: blacklist_msg_types_default_def\<close>)

section \<open>Widget definitions\<close>

definition no_space :: "string \<Rightarrow> bool" where
  "no_space s = (s \<noteq> [] \<and> set s \<inter> set ws_chars = {})"

lemma trim_id: "no_space s \<Longrightarrow> trim s ws_chars = s"
proof -
  assume a: "no_space s"
  have d: "dropWhile (\<lambda>c. c \<in> set ws_chars) t = t" if "set t \<inter> set ws_chars = {}" for t
    using that by (cases t) auto
  have "set (rev s) \<inter> set ws_chars = {}" "set s \<inter> set ws_chars = {}" using a by (auto simp: no_space_def)
  then show ?thesis unfolding trim_eq using d by simp
qed

text \<open>A custom driver written as class name, space, URL is read as written; a definition is accepted
  exactly if both trimmed parts are non-empty, and one without a space becomes its own URL.\<close>

theorem plugin_def_parsed:
  assumes "no_space cls" "no_space url" "length (cls @ '' '' @ url) < npos"
  shows "parseCustomPluginDef (cls @ '' '' @ url) = Inr (Some \<lparr>wd_class_name = cls, wd_url = url\<rparr>) \<and>
    parseCustomPluginDef cls = Inr (Some \<lparr>wd_class_name = cls, wd_url = cls\<rparr>)"
proof -
  have sp: "\<forall>c\<in>set cls. c \<noteq> CHR '' ''" using assms(1) by (auto simp: no_space_def ws_chars_def)
  have f: "find_idx (\<lambda>c. c = CHR '' '') (cls @ CHR '' '' # url) = Some (length cls)"
    using sp by (intro find_idx_append) auto
  have f': "find_idx (\<lambda>c. c = CHR '' '') cls = None" using sp by (simp add: find_idx_None)
  have len: "length cls + 1 < 2 ^ 64" "length url < npos" "length cls \<le> npos"
    using assms(3) by (simp_all add: npos_def)
  have a: "sz_add (length cls) 1 = Suc (length cls)" using len(1) by (simp add: sz_add_def)
  have b: "sz_add npos 1 = 0" by (simp add: sz_add_def npos_def)
  have n: "cls \<noteq> []" "url \<noteq> []" using assms(1,2) by (auto simp: no_space_def)
  have p1: "parseCustomPluginDef (cls @ '' '' @ url) = Inr (Some \<lparr>wd_class_name = cls, wd_url = url\<rparr>)"
    using f a len(2) n trim_id [OF assms(1)] trim_id [OF assms(2)]
    by (simp add: parseCustomPluginDef_def substr_def num_of_pos_def Let_def)
  have p2: "parseCustomPluginDef cls = Inr (Some \<lparr>wd_class_name = cls, wd_url = cls\<rparr>)"
    using f' b len(3) n trim_id [OF assms(1)]
    by (simp add: parseCustomPluginDef_def substr_def num_of_pos_def Let_def)
  from p1 p2 show ?thesis ..
qed

theorem plugin_def_parsed_witness:
  "parseCustomPluginDef ''Joy u/j.js'' = Inr (Some \<lparr>wd_class_name = ''Joy'', wd_url = ''u/j.js''\<rparr>)"
proof -
  have "no_space ''Joy''" "no_space ''u/j.js''" by (auto simp: no_space_def ws_chars_def)
  moreover have "length (''Joy'' @ '' '' @ ''u/j.js'') < npos" by (simp add: npos_def)
  ultimately have "parseCustomPluginDef (''Joy'' @ '' '' @ ''u/j.js'') = Inr (Some \<lparr>wd_class_name = ''Joy'', wd_url = ''u/j.js''\<rparr>)"
    using plugin_def_parsed by blast
  then show ?thesis by simp
qed

text \<open>A service widget with no space in the assignment makes \<open>substr\<close> throw, which nothing catches.\<close>

theorem service_widget_throws:
  assumes "CHR '' '' \<notin> set (trim one ws_chars)" "CHR ''{'' \<notin> set one" "length (trim one ws_chars) < npos"
  shows "parseServiceWidgetConfig json_parse one = Inl Out_of_range"
proof -
  have "find_idx (\<lambda>c. c = CHR ''{'') one = None" using assms(2) by (auto simp: find_idx_None)
  moreover have "find_idx (\<lambda>c. c = CHR '' '') (trim one ws_chars) = None" using assms(1) by (auto simp: find_idx_None)
  ultimately show ?thesis using assms(3)
    by (simp add: parseServiceWidgetConfig_def substr_def num_of_pos_def Let_def)
qed

section \<open>What a successful load guarantees\<close>

text \<open>
  Each step either keeps a fact about configuration and parameters or establishes it; the list of steps
  is followed from the point where the fact is established.
\<close>

definition keeps :: "('j bridge_config \<times> node \<Rightarrow> bool) \<Rightarrow> 'j ld \<Rightarrow> bool" where
  "keeps P f = (\<forall>cn cn'. P cn \<longrightarrow> f cn = Inr cn' \<longrightarrow> P cn')"

lemma run_ld_append: "run_ld (fs @ gs) cn = bindR (run_ld fs cn) (run_ld gs)"
  by (simp add: run_ld_def foldR_append)

lemma run_ld_appendE:
  assumes "run_ld (fs @ gs) cn = Inr cn'"
  obtains c1 where "run_ld fs cn = Inr c1" "run_ld gs c1 = Inr cn'"
  using assms by (auto simp: run_ld_append res_simps)

lemma run_ld_Cons: "run_ld (f # fs) cn = bindR (f cn) (run_ld fs)"
  by (simp add: run_ld_def)

lemma run_ld_keeps: "list_all (keeps P) fs \<Longrightarrow> keeps P (run_ld fs)"
proof (induction fs)
  case Nil
  then show ?case by (simp add: run_ld_def keeps_def)
next
  case (Cons f fs)
  then have k: "keeps P f" "keeps P (run_ld fs)" by simp_all
  show ?case unfolding keeps_def
  proof (intro allI impI)
    fix cn cn' assume "P cn" "run_ld (f # fs) cn = Inr cn'"
    then obtain c1 where "f cn = Inr c1" "run_ld fs c1 = Inr cn'" by (auto simp: run_ld_Cons res_simps)
    with k \<open>P cn\<close> show "P cn'" unfolding keeps_def by blast
  qed
qed

text \<open>The identity and the masked credentials: no later step touches them.\<close>

definition ids_ok :: "bool \<Rightarrow> string set \<Rightarrow> 'j bridge_config \<times> node \<Rightarrow> bool" where
  "ids_ok named masked cn =
     (cf_id_robot (fst cn) \<noteq> [] \<and> cf_auth_key (fst cn) \<noteq> [] \<and> (named \<longrightarrow> cf_ice_username (fst cn) \<noteq> []) \<and>
      (\<forall>k\<in>masked. map_of (snd cn) k = Some (P_str ''*************'')))"

definition same_ids :: "'j bridge_config \<Rightarrow> 'j bridge_config \<Rightarrow> bool" where
  "same_ids c c' = (cf_id_robot c' = cf_id_robot c \<and> cf_auth_key c' = cf_auth_key c \<and> cf_ice_username c' = cf_ice_username c)"

lemma declare_extends: "declare_parameter ov k d n = Inr n' \<Longrightarrow> extends n n'"
  by (auto simp: declare_parameter_def extends_def mhas_def split: if_splits option.splits)

lemma declared_extends:
  "declare_str ov k sd n = Inr (v1, n') \<Longrightarrow> extends n n'" "declare_strs ov k ssd n = Inr (v2, n') \<Longrightarrow> extends n n'"
  "declare_bool ov k bd n = Inr (v3, n') \<Longrightarrow> extends n n'" "declare_int ov k wd n = Inr (v4, n') \<Longrightarrow> extends n n'"
  "declare_dbl ov k wd n = Inr (v4, n') \<Longrightarrow> extends n n'"
  using declare_extends
  by (auto simp: declare_str_def declare_strs_def declare_bool_def declare_int_def declare_dbl_def res_simps)

lemma ids_step: "ids_ok u m (c, n) \<Longrightarrow> same_ids c c' \<Longrightarrow> extends n n' \<Longrightarrow> ids_ok u m (c', n')"
  by (auto simp: ids_ok_def same_ids_def extends_def)

lemma keepsI: "(\<And>c n c' n'. P (c, n) \<Longrightarrow> f (c, n) = Inr (c', n') \<Longrightarrow> P (c', n')) \<Longrightarrow> keeps P f"
  by (auto simp: keeps_def)

lemma keeps_declared:
  assumes "\<And>n v n'. d n = Inr (v, n') \<Longrightarrow> extends n n'" "\<And>v c. same_ids c (f v c)"
  shows "keeps (ids_ok u m) (\<lambda>cn. bindR (d (snd cn)) (\<lambda>(v, n). Inr (f v (fst cn), n)))"
proof (rule keepsI, goal_cases)
  case (1 c n c' n')
  from 1(2) obtain v where a: "d n = Inr (v, n')" "c' = f v c" by (auto simp: res_simps)
  show ?case unfolding a(2) using 1(1) assms(2) assms(1) [OF a(1)] by (rule ids_step)
qed

lemma keeps_ids:
  "(\<And>v c. same_ids c (f1 v c)) \<Longrightarrow> keeps (ids_ok u m) (ld_str ov k sd f1)"
  "(\<And>v c. same_ids c (f2 v c)) \<Longrightarrow> keeps (ids_ok u m) (ld_strs ov k ssd f2)"
  "(\<And>v c. same_ids c (f3 v c)) \<Longrightarrow> keeps (ids_ok u m) (ld_bool ov k bd f3)"
  "(\<And>v c. same_ids c (f4 v c)) \<Longrightarrow> keeps (ids_ok u m) (ld_int ov k wd f4)"
  "(\<And>v c. same_ids c (f4 v c)) \<Longrightarrow> keeps (ids_ok u m) (ld_dbl ov k wd f4)"
  "keeps (ids_ok u m) (exit_if P)"
  subgoal premises same unfolding ld_str_def [abs_def] by (rule keeps_declared, erule declared_extends, rule same)
  subgoal premises same unfolding ld_strs_def [abs_def] by (rule keeps_declared, erule declared_extends, rule same)
  subgoal premises same unfolding ld_bool_def [abs_def] by (rule keeps_declared, erule declared_extends, rule same)
  subgoal premises same unfolding ld_int_def [abs_def] by (rule keeps_declared, erule declared_extends, rule same)
  subgoal premises same unfolding ld_dbl_def [abs_def] by (rule keeps_declared, erule declared_extends, rule same)
  subgoal by (simp add: keeps_def exit_if_def)
  done

lemma keeps_ids_fold:
  assumes "\<And>x. keeps (ids_ok u m) (f x)"
  shows "keeps (ids_ok u m) (foldR f xs)"
  unfolding keeps_def
proof (intro allI impI)
  fix cn cn' assume "ids_ok u m cn" "foldR f xs cn = Inr cn'"
  from foldR_invariant [where P = "ids_ok u m", OF this(2,1)] assms show "ids_ok u m cn'"
    unfolding keeps_def by metis
qed

lemma keeps_ids_add_plugins:
  assumes "\<And>d c. same_ids c (add d c)"
  shows "keeps (ids_ok u m) (add_plugins add defs)"
  unfolding add_plugins_def
  by (rule keeps_ids_fold, rule keepsI)
    (use assms in \<open>auto simp: res_simps split: if_splits option.splits intro: ids_step\<close>)

lemma keeps_ids_add_service_widgets: "keeps (ids_ok u m) (add_service_widgets json_parse defs)"
  unfolding add_service_widgets_def
  by (rule keeps_ids_fold, rule keepsI)
    (auto simp: res_simps same_ids_def split: if_splits option.splits intro: ids_step)

lemma keeps_declare_strs:
  assumes "\<And>v. keeps (ids_ok u m) (g v)"
  shows "keeps (ids_ok u m) (\<lambda>(c, n). bindR (declare_strs ov k d n) (\<lambda>(v, n). g v (c, n)))"
proof (rule keepsI)
  fix c n c' n' assume i: "ids_ok u m (c, n)"
    and "(case (c, n) of (c, n) \<Rightarrow> bindR (declare_strs ov k d n) (\<lambda>(v, n). g v (c, n))) = Inr (c', n')"
  then obtain v n1 where a: "declare_strs ov k d n = Inr (v, n1)" "g v (c, n1) = Inr (c', n')"
    by (auto simp: res_simps)
  have "ids_ok u m (c, n1)"
    using ids_step [OF i _ declared_extends(2) [OF a(1)], of c] by (simp add: same_ids_def)
  with assms [of v] a(2) show "ids_ok u m (c', n')" unfolding keeps_def by blast
qed

lemma keeps_declare_str:
  assumes "\<And>v. keeps (ids_ok u m) (g v)"
  shows "keeps (ids_ok u m) (\<lambda>(c, n). bindR (declare_str ov k d n) (\<lambda>(v, n). g v (c, n)))"
proof (rule keepsI)
  fix c n c' n' assume i: "ids_ok u m (c, n)"
    and "(case (c, n) of (c, n) \<Rightarrow> bindR (declare_str ov k d n) (\<lambda>(v, n). g v (c, n))) = Inr (c', n')"
  then obtain v n1 where a: "declare_str ov k d n = Inr (v, n1)" "g v (c, n1) = Inr (c', n')"
    by (auto simp: res_simps)
  have "ids_ok u m (c, n1)"
    using ids_step [OF i _ declared_extends(1) [OF a(1)], of c] by (simp add: same_ids_def)
  with assms [of v] a(2) show "ids_ok u m (c', n')" unfolding keeps_def by blast
qed

lemma keeps_ids_json:
  assumes "\<And>j c. same_ids c (f j c)"
  shows "keeps (ids_ok u m) (load_json_file read_json f file)"
  by (rule keepsI) (use assms in \<open>auto simp: load_json_file_def split: if_splits option.splits intro: ids_step\<close>)

lemma keeps_ids_check: "list_all (keeps (ids_ok u m)) check_cloud"
  unfolding check_cloud_def
  by (auto intro!: keeps_ids keepsI) (auto simp: ids_ok_def)

lemma keeps_ids_sections:
  "list_all (keeps (ids_ok u m)) (load_cloud ov)" "list_all (keeps (ids_ok u m)) (load_lists fe ov)"
  "list_all (keeps (ids_ok u m)) (load_led_params ov)" "list_all (keeps (ids_ok u m)) (load_ui ov)"
  "list_all (keeps (ids_ok u m)) (load_custom json_parse ov)"
  "list_all (keeps (ids_ok u m)) (load_defaults read_json sec_to_ns ov)"
  unfolding load_cloud_def load_lists_def load_led_params_def load_ui_def load_custom_def load_defaults_def
  by (auto intro!: keeps_ids keeps_declare_strs keeps_declare_str keeps_ids_add_plugins keeps_ids_add_service_widgets
      keeps_ids_json simp: same_ids_def)

lemma identity_checked:
  assumes "run_ld (load_identity ov) cn = Inr cn'"
  shows "ids_ok False {} cn'"
proof -
  let ?a = "[ld_str ov ''id_robot'' [] (\<lambda>v c. c\<lparr>cf_id_robot := v\<rparr>), ld_str ov ''key'' [] (\<lambda>v c. c\<lparr>cf_auth_key := v\<rparr>)]"
  let ?x = "[exit_if (\<lambda>c. cf_id_robot c = []), exit_if (\<lambda>c. cf_auth_key c = [])]"
  let ?b = "[ld_str ov ''name'' ''Unnamed Robot'' (\<lambda>v c. c\<lparr>cf_robot_name := v\<rparr>),
     ld_str ov ''maintainer_email'' [] (\<lambda>v c. c\<lparr>cf_maintainer_email := v\<rparr>),
     ld_strs ov ''extra_packages'' [] (\<lambda>v c. c\<lparr>cf_extra_packages := v\<rparr>)]"
  have e: "load_identity ov = ?a @ ?x @ ?b" by (simp add: load_identity_def)
  from assms [unfolded e] obtain c1 where "run_ld (?x @ ?b) c1 = Inr cn'" by (rule run_ld_appendE)
  then obtain c2 where s: "run_ld ?x c1 = Inr c2" "run_ld ?b c2 = Inr cn'" by (rule run_ld_appendE)
  from s(1) have "ids_ok False {} c2" by (auto simp: run_ld_def exit_if_def res_simps ids_ok_def split: if_splits)
  moreover have "list_all (keeps (ids_ok False {})) ?b" by (auto intro!: keeps_ids simp: same_ids_def)
  ultimately show ?thesis using run_ld_keeps s(2) unfolding keeps_def by blast
qed

lemma ids_mask: "ids_ok u m cn \<Longrightarrow> mask k cn = Inr cn' \<Longrightarrow> ids_ok u (insert k m) cn'"
  by (auto simp: ids_ok_def mask_def)

lemma ids_username:
  assumes "ids_ok False m cn"
    "ld_str ov ''ice_username'' [] (\<lambda>v c. c\<lparr>cf_ice_username := (if v = [] then cf_id_robot c else v)\<rparr>) cn = Inr cn'"
  shows "ids_ok True {} cn'"
proof -
  from assms(2) obtain v n where
    "cn' = ((fst cn)\<lparr>cf_ice_username := (if v = [] then cf_id_robot (fst cn) else v)\<rparr>, n)"
    unfolding ld_str_def bindR_Inr_iff by auto
  with assms(1) show ?thesis by (simp add: ids_ok_def)
qed

lemma ice_named_masked:
  assumes "run_ld (load_ice ov) cn = Inr cn'" "ids_ok False {} cn"
  shows "ids_ok True {''key'', ''ice_username'', ''ice_secret''} cn'"
proof -
  let ?a = "[ld_bool ov ''use_cloud_ice_config'' True (\<lambda>v c. c\<lparr>cf_use_cloud_ice_config := v\<rparr>),
     ld_strs ov ''ice_servers'' [] (\<lambda>v c. c\<lparr>cf_ice_servers_custom := v, cf_ice_servers := cf_ice_servers c @ v\<rparr>)]"
  let ?n = "ld_str ov ''ice_username'' [] (\<lambda>v c. c\<lparr>cf_ice_username := (if v = [] then cf_id_robot c else v)\<rparr>)"
  let ?b = "[ld_str ov ''ice_secret'' [] (\<lambda>v c. c\<lparr>cf_ice_secret := v\<rparr>),
     ld_bool ov ''enable_ice_udp_mux'' True (\<lambda>v c. c\<lparr>cf_enable_ice_udp_mux := v\<rparr>),
     ld_bool ov ''enable_ice_tcp'' False (\<lambda>v c. c\<lparr>cf_enable_ice_tcp := v\<rparr>),
     ld_bool ov ''disable_fingerprint_verification'' False (\<lambda>v c. c\<lparr>cf_disable_fingerprint_verification := v\<rparr>)]"
  let ?m = "[mask ''key'', mask ''ice_username'', mask ''ice_secret'']"
  have e: "load_ice ov = ?a @ [?n] @ ?b @ ?m" by (simp add: load_ice_def)
  from assms(1) [unfolded e] obtain c1 where s1: "run_ld ?a cn = Inr c1" and r1: "run_ld ([?n] @ ?b @ ?m) c1 = Inr cn'"
    by (rule run_ld_appendE)
  from r1 obtain c2 where s2: "run_ld [?n] c1 = Inr c2" and r2: "run_ld (?b @ ?m) c2 = Inr cn'" by (rule run_ld_appendE)
  from r2 obtain c3 where s3: "run_ld ?b c2 = Inr c3" and r3: "run_ld ?m c3 = Inr cn'" by (rule run_ld_appendE)
  from r3 obtain c4 c5 where s4: "mask ''key'' c3 = Inr c4" "mask ''ice_username'' c4 = Inr c5" "mask ''ice_secret'' c5 = Inr cn'"
    by (auto simp: run_ld_def res_simps)
  have s2': "?n c1 = Inr c2" using s2 unfolding run_ld_def foldR.simps by (cases "?n c1") auto
  note s = s1 s2' s3 s4
  have "list_all (keeps (ids_ok False {})) ?a" "list_all (keeps (ids_ok True {})) ?b"
    by (auto intro!: keeps_ids simp: same_ids_def)
  then have k: "keeps (ids_ok False {}) (run_ld ?a)" "keeps (ids_ok True {}) (run_ld ?b)"
    using run_ld_keeps by blast+
  from k(1) assms(2) s(1) have "ids_ok False {} c1" unfolding keeps_def by blast
  then have "ids_ok True {} c2" using s(2) by (rule ids_username)
  with k(2) s(3) have "ids_ok True {} c3" unfolding keeps_def by blast
  from ids_mask [OF ids_mask [OF ids_mask [OF this s(4)] s(5)] s(6)] show ?thesis
    by (simp add: insert_commute)
qed

text \<open>C24. A configuration that loads has a robot id and a key, a name for the ICE servers, and leaves neither
  the key nor the ICE credentials readable in the node's parameters.\<close>

theorem config_identity_and_secrets:
  assumes "loadConfig fe json_parse read_json sec_to_ns ov (c0, []) = Inr (c, n)"
  shows "cf_id_robot c \<noteq> [] \<and> cf_auth_key c \<noteq> [] \<and> cf_ice_username c \<noteq> [] \<and>
    (\<forall>k\<in>{''key'', ''ice_username'', ''ice_secret''}. map_of n k = Some (P_str ''*************''))"
proof -
  let ?rest = "load_cloud ov @ load_lists fe ov @ check_cloud @ load_led_params ov @ load_ui ov @
    load_custom json_parse ov @ load_defaults read_json sec_to_ns ov"
  from assms obtain c1 where s1: "run_ld (load_identity ov) (c0, []) = Inr c1" and r: "run_ld (load_ice ov @ ?rest) c1 = Inr (c, n)"
    unfolding loadConfig_def by (rule run_ld_appendE)
  from r obtain c2 where s2: "run_ld (load_ice ov) c1 = Inr c2" "run_ld ?rest c2 = Inr (c, n)" by (rule run_ld_appendE)
  note s = s1 s2
  let ?m = "{''key'', ''ice_username'', ''ice_secret''}"
  have i: "ids_ok True ?m c2" using ice_named_masked [OF s(2) identity_checked [OF s(1)]] .
  have "list_all (keeps (ids_ok True ?m)) ?rest"
    by (simp only: list_all_append keeps_ids_sections keeps_ids_check simp_thms)
  from run_ld_keeps [OF this] i s(3) have "ids_ok True ?m (c, n)" unfolding keeps_def by blast
  then show ?thesis by (simp add: ids_ok_def)
qed

definition empty_config :: "'j bridge_config" where
  "empty_config = \<lparr>cf_id_robot = [], cf_auth_key = [], cf_robot_name = [], cf_maintainer_email = [], cf_ros_distro = [],
     cf_git_head_sha = [], cf_latest_git_tag = [], cf_extra_packages = [], cf_use_cloud_ice_config = False,
     cf_ice_servers = [], cf_ice_servers_custom = [], cf_ice_username = [], cf_ice_secret = [], cf_blacklist_topics = [],
     cf_blacklist_services = [], cf_blacklist_msg_types = [], cf_log_message_every_sec = 0, cf_discovery_period_sec = 0,
     cf_stop_discovery_after_sec = 0, cf_introspection_verbose = False, cf_cloud_bridge_address = [], cf_sio_path = [],
     cf_uploader_address = [], cf_file_upload_port = 0, cf_sio_port = 0, cf_sio_ssl_verify = False, cf_sio_debug = False,
     cf_sio_verbose = False, cf_sio_connection_retry_sec = 0, cf_conn_led_topic = [], cf_data_led_topic = [],
     cf_conn_led_gpio_chip = [], cf_conn_led_pin = 0, cf_data_led_pin = 0, cf_collapse_services = [],
     cf_ui_battery_topic = [], cf_ui_wifi_monitor_topic = [], cf_docker_monitor_topic = [],
     cf_docker_control_enabled = False, cf_ui_enable_wifi_scan = False, cf_ui_enable_wifi_roam = False,
     cf_collapse_unhandled_services = False, cf_service_timeout_ns = 0, cf_input_drivers = [],
     cf_custom_input_drivers = [], cf_custom_service_widgets = [], cf_service_widgets = [],
     cf_service_calls_verbose = False, cf_input_defaults = None, cf_service_defaults = None, cf_webrtc_debug = False,
     cf_webrtc_verbose = False, cf_enable_ice_udp_mux = False, cf_enable_ice_tcp = False,
     cf_disable_fingerprint_verification = False, cf_log_heartbeat = False, cf_log_sdp = False, cf_file_chunks_topic = []\<rparr>"

definition sample_user_params :: "(string, param) omap" where
  "sample_user_params = [(''id_robot'', P_str ''r''), (''key'', P_str ''k'')]"

lemma sample_config_loads:
  "\<not> isl (loadConfig (\<lambda>_ _. True) (\<lambda>_. None) (\<lambda>_. None) id sample_user_params (empty_config :: unit bridge_config, []))"
  by code_simp

theorem config_identity_and_secrets_witness:
  "\<exists>c n. loadConfig (\<lambda>_ _. True) (\<lambda>_. None) (\<lambda>_. None) id sample_user_params (empty_config :: unit bridge_config, []) = Inr (c, n) \<and>
     cf_ice_username c \<noteq> [] \<and> map_of n ''key'' = Some (P_str ''*************'')"
proof -
  obtain c :: "unit bridge_config" and n where
    l: "loadConfig (\<lambda>_ _. True) (\<lambda>_. None) (\<lambda>_. None) id sample_user_params (empty_config, []) = Inr (c, n)"
    using sample_config_loads by (cases "loadConfig (\<lambda>_ _. True) (\<lambda>_. None) (\<lambda>_. None) id sample_user_params
      (empty_config :: unit bridge_config, [])") auto
  from config_identity_and_secrets [OF l] l show ?thesis by blast
qed

end
