(* ===== verification/SioValue.thy ===== *)
theory SioValue
  imports Config Packet
begin

text \<open>
  \<open>src/sio.cpp\<close>: the conversion of a parsed JSON text into a socket.io message and the printing of a
  message for the log. The JSON values are those of jsoncpp; which scalar counts as what, and the
  conversions of numbers, are its answers (\<open>jsoncpp\<close>).
\<close>

section \<open>From JSON to messages\<close>

datatype jvalue =
    J_null
  | J_int int
  | J_uint int
  | J_real "64 word"
  | J_string string
  | J_bool bool
  | J_array "jvalue list"
  | J_object "(string \<times> jvalue) list"

record jsoncpp =
  jp_isDouble :: "jvalue \<Rightarrow> bool"
  jp_isInt :: "jvalue \<Rightarrow> bool"
  jp_isInt64 :: "jvalue \<Rightarrow> bool"
  jp_isNumeric :: "jvalue \<Rightarrow> bool"
  jp_asDouble :: "jvalue \<Rightarrow> 64 word"
  jp_asInt :: "jvalue \<Rightarrow> 64 word"
  jp_asInt64 :: "jvalue \<Rightarrow> 64 word"

text \<open>The tests in the order of the code; the members of an object are put with \<open>emplace\<close>.\<close>

definition json_scalar :: "jsoncpp \<Rightarrow> jvalue \<Rightarrow> message option" where
  "json_scalar P v =
     (case v of J_bool b \<Rightarrow> Some (Bool_msg b)
      | _ \<Rightarrow> if jp_isDouble P v then Some (Double_msg (jp_asDouble P v))
             else if jp_isInt P v then Some (Int_msg (jp_asInt P v))
             else if jp_isInt64 P v then Some (Int_msg (jp_asInt64 P v))
             else if jp_isNumeric P v then Some (Double_msg (jp_asDouble P v))
             else (case v of J_null \<Rightarrow> Some Null_msg | J_string s \<Rightarrow> Some (String_msg s) | _ \<Rightarrow> None))"

definition text_message :: "string \<Rightarrow> msg_ptr" where
  "text_message s = Some (String_msg s)"

definition emplace_all :: "(string \<times> msg_ptr) list \<Rightarrow> (string, msg_ptr) omap" where
  "emplace_all kvs = fold (\<lambda>(k, x). memplace k x) kvs []"

fun jsonToSioMessage :: "jsoncpp \<Rightarrow> jvalue \<Rightarrow> message" where
  "jsonToSioMessage P v =
     (case json_scalar P v of Some m \<Rightarrow> m
      | None \<Rightarrow>
          (case v of J_array xs \<Rightarrow> Array_msg (map (\<lambda>x. Some (jsonToSioMessage P x)) xs)
           | J_object kvs \<Rightarrow> Object_msg (emplace_all (map (\<lambda>p. (fst p, Some (jsonToSioMessage P (snd p)))) kvs))
           | _ \<Rightarrow> Null_msg))"

declare jsonToSioMessage.simps [simp del]

text \<open>A configuration entry that was not given is the null value.\<close>

definition json_opt :: "jsoncpp \<Rightarrow> jvalue option \<Rightarrow> message" where
  "json_opt P v = (case v of None \<Rightarrow> jsonToSioMessage P J_null | Some j \<Rightarrow> jsonToSioMessage P j)"

section \<open>Printing\<close>

text \<open>\<open>int_text\<close>, \<open>dbl_text\<close>: \<open>std::to_string\<close>.\<close>

definition pad :: "bool \<Rightarrow> nat \<Rightarrow> string" where
  "pad pretty n = (if pretty then replicate (2 * n) (CHR '' '') else [])"

definition newline :: "bool \<Rightarrow> string" where
  "newline pretty = (if pretty then [CHR 0x0A] else [])"

definition shift_lines :: "string \<Rightarrow> string \<Rightarrow> string" where
  "shift_lines prefix out = join (map ((@) prefix) (split out (CHR 0x0A))) [CHR 0x0A]"

function printMessage ::
  "(64 word \<Rightarrow> string) \<Rightarrow> (64 word \<Rightarrow> string) \<Rightarrow> bool \<Rightarrow> nat \<Rightarrow> string \<Rightarrow> msg_ptr \<Rightarrow> string res" where
  "printMessage int_text dbl_text pretty indent prefix p =
     bindR (deref p) (\<lambda>m.
     bindR (case m of
         String_msg s \<Rightarrow> Inr (''\"'' @ s @ ''\"'')
       | Null_msg \<Rightarrow> Inr ''null''
       | Binary_msg b \<Rightarrow> Inr (''b'' @ takeWhile (\<lambda>c. c \<noteq> CHR 0x00) b)
       | Bool_msg b \<Rightarrow> Inr (if b then ''true'' else ''false'')
       | Int_msg i \<Rightarrow> Inr (int_text i)
       | Double_msg d \<Rightarrow> Inr (dbl_text d)
       | Object_msg kvs \<Rightarrow>
           bindR (mapR (\<lambda>kv. bindR (printMessage int_text dbl_text pretty (indent + 1) [] (snd kv)) (\<lambda>t.
                    Inr (pad pretty indent @ fst kv @ '': '' @ t @ '', '' @ newline pretty))) kvs) (\<lambda>ts.
             Inr (''{'' @ newline pretty @ concat ts @ pad pretty (indent - 1) @ ''}''))
       | Array_msg xs \<Rightarrow>
           bindR (mapR (\<lambda>x. bindR (printMessage int_text dbl_text pretty (indent + 1) [] x) (\<lambda>t.
                    Inr (pad pretty indent @ t @ '', '' @ newline pretty))) xs) (\<lambda>ts.
             Inr (''['' @ newline pretty @ concat ts @ pad pretty (indent - 1) @ '']''))) (\<lambda>out.
       Inr (if indent = 1 then shift_lines prefix out else out)))"
  by pat_completeness auto
termination
  by (relation "measure (\<lambda>(_, _, _, _, _, p). size_option size p)")
     (auto simp: deref_def less_Suc_eq_le size_prod_simp split: option.splits
        intro!: le_SucI size_list_estimation' [OF _ order.refl] elim!: size_list_estimation')

declare printMessage.simps [simp del]

section \<open>Well-formed conversions\<close>

text \<open>No object of the value has the member that marks a binary buffer.\<close>

fun no_marker :: "jvalue \<Rightarrow> bool" where
  "no_marker (J_array xs) = list_all no_marker xs"
| "no_marker (J_object kvs) = list_all (\<lambda>p. fst p \<noteq> BIN_PLACE_HOLDER \<and> no_marker (snd p)) kvs"
| "no_marker _ = True"

lemma emplace_all_props:
  assumes "list_all (\<lambda>p. fst p \<noteq> BIN_PLACE_HOLDER \<and> (case snd p of None \<Rightarrow> False | Some m \<Rightarrow> msg_ok m)) kvs"
  shows "msg_ok (Object_msg (emplace_all kvs))"
proof -
  define I where "I m = (omap_ok m \<and> \<not> mhas m BIN_PLACE_HOLDER \<and> list_all (\<lambda>p. case snd p of None \<Rightarrow> False | Some m \<Rightarrow> msg_ok m) m)"
    for m :: "(string, msg_ptr) omap"
  have set_mput: "set (mput k v m) \<subseteq> insert (k, v) (set m)" for k :: string and v :: msg_ptr and m
    by (induction k v m rule: mput.induct) auto
  have "I (emplace_all kvs)" unfolding emplace_all_def
  proof (rule fold_invariant_set)
    show "I []" by (simp add: I_def mhas_def)
  next
    fix p :: "string \<times> msg_ptr" and m
    assume p: "p \<in> set kvs" and m: "I m"
    obtain k x where kx: "p = (k, x)" by (cases p)
    with p assms have "k \<noteq> BIN_PLACE_HOLDER" "case x of None \<Rightarrow> False | Some m \<Rightarrow> msg_ok m" by (auto simp: list_all_iff)
    with m set_mput [of k x m] show "I ((case p of (k, x) \<Rightarrow> memplace k x) m)"
      by (auto simp: I_def kx memplace_def list_all_iff split: option.splits)
  qed
  then show ?thesis by (simp add: I_def)
qed

text \<open>A configuration text without binary markers becomes a well-formed message, whatever the conversions
  of jsoncpp give: no null pointers, ordered objects. The packet codec carries such a message unchanged.\<close>

theorem json_message_ok:
  assumes "no_marker v"
  shows "msg_ok (jsonToSioMessage P v)"
  using assms
proof (induction P v rule: jsonToSioMessage.induct)
  case (1 P v)
  show ?case
  proof (cases "json_scalar P v")
    case (Some m)
    then have "msg_ok m" by (auto simp: json_scalar_def split: jvalue.splits if_splits)
    with Some show ?thesis by (subst jsonToSioMessage.simps) simp
  next
    case None
    note IH = 1(1,2) [OF None]
    show ?thesis
    proof (cases v)
      case (J_array xs)
      with IH(1) 1(3) have "list_all (\<lambda>x. msg_ok (jsonToSioMessage P x)) xs" by (auto simp: list_all_iff)
      with J_array None show ?thesis by (subst jsonToSioMessage.simps) (simp add: list_all_iff)
    next
      case (J_object kvs)
      let ?kvs = "map (\<lambda>p. (fst p, Some (jsonToSioMessage P (snd p)))) kvs"
      from J_object IH(2) 1(3) have "list_all (\<lambda>p. fst p \<noteq> BIN_PLACE_HOLDER \<and> (case snd p of None \<Rightarrow> False | Some m \<Rightarrow> msg_ok m)) ?kvs"
        by (auto simp: list_all_iff)
      from emplace_all_props [OF this] J_object None show ?thesis by (subst jsonToSioMessage.simps) simp
    qed (use None in \<open>(subst jsonToSioMessage.simps, simp)+\<close>)
  qed
qed

theorem json_message_ok_witness:
  "msg_ok (jsonToSioMessage \<lparr>jp_isDouble = (\<lambda>_. False), jp_isInt = (\<lambda>v. case v of J_int _ \<Rightarrow> True | _ \<Rightarrow> False), jp_isInt64 = (\<lambda>_. False),
     jp_isNumeric = (\<lambda>_. False), jp_asDouble = (\<lambda>_. 0), jp_asInt = (\<lambda>v. case v of J_int i \<Rightarrow> word_of_int i | _ \<Rightarrow> 0), jp_asInt64 = (\<lambda>_. 0)\<rparr>
     (J_object [(''a'', J_array [J_int 3, J_null]), (''b'', J_string ''x'')]))"
  by (rule json_message_ok) (simp add: BIN_PLACE_HOLDER_def)

end
