(* ===== verification/Introspect.thy ===== *)
theory Introspect
  imports Act SioValue Config
begin

text \<open>
  \<open>src/introspection.cpp\<close>: what the bridge knows of the ROS graph, how a round of introspection updates
  it, and what is reported. The answers of ROS, the file system and the clock are in \<open>graph\<close>; a graph
  call that throws \<open>std::runtime_error\<close> answers \<open>None\<close>.
\<close>

section \<open>State\<close>

text \<open>\<open>rclcpp::QoS\<close>; a duration \<open>None\<close> is \<open>Duration::max()\<close>, \<open>rq_rest\<close> the fields only compared.\<close>

record ros_qos =
  rq_depth :: "64 word"
  rq_history :: "32 word"
  rq_reliability :: "32 word"
  rq_durability :: "32 word"
  rq_lifespan :: "64 word option"
  rq_deadline :: "64 word option"
  rq_rest :: nat

record pub_topic =
  pt_type :: string
  pt_qos :: "ros_qos list"

record sub_qos =
  sq_qos :: ros_qos
  sq_error :: string
  sq_warning :: string

record sub_topic =
  st_type :: string
  st_qos :: "sub_qos list"

record node_info =
  nd_ns :: string
  nd_pubs :: "(string, pub_topic) omap"
  nd_subs :: "(string, sub_topic) omap"
  nd_services :: "(string, string) omap"
  nd_tmp_pubs :: "(string, pub_topic) omap"
  nd_tmp_subs :: "(string, sub_topic) omap"
  nd_check :: bool

record docker_container =
  dc_cid :: string
  dc_name :: string
  dc_status :: "64 word"
  dc_pids :: "64 word"
  dc_read_bytes :: "64 word"
  dc_write_bytes :: "64 word"
  dc_cpu :: "64 word"

record docker_status =
  dk_frame :: string
  dk_sec :: "64 word"
  dk_nanosec :: "64 word"
  dk_containers :: "docker_container list"

record intro =
  it_running :: bool
  it_progress :: bool
  it_start :: "64 word"
  it_docker :: "(string, docker_status) omap"
  it_nodes :: "(string, node_info) omap"
  it_topics :: "(string, string) omap"
  it_extractors :: "(string, string) omap"
  it_idls :: "(string, string) omap"

datatype compat = Qos_ok | Qos_warning | Qos_error

record graph =
  g_nodes :: "string list option"
  g_topics :: "(string, string list) omap option"
  g_pubs :: "string \<Rightarrow> (string \<times> ros_qos) list option"
  g_subs :: "string \<Rightarrow> (string \<times> ros_qos) list option"
  g_services :: "string \<Rightarrow> string \<Rightarrow> (string, string list) omap option"
  g_compatible :: "ros_qos \<Rightarrow> ros_qos \<Rightarrow> compat \<times> string"
  g_package :: "string \<Rightarrow> string option"
  g_exists :: "string \<Rightarrow> bool"
  g_read :: "string \<Rightarrow> string"
  g_now :: "64 word"
  g_expired :: "64 word \<Rightarrow> 64 word \<Rightarrow> bool"
  g_positive :: "64 word \<Rightarrow> bool"
  g_uint :: "64 word \<Rightarrow> 32 word"
  g_sio :: bool

datatype intro_effect = Intro_emit string msg_ptr | Start_timer "32 word" | Cancel_timer | Process_all | Subscribe_docker string

type_synonym 'a iact = "(intro, intro_effect, 'a) act"

definition mupd :: "'k::linorder \<Rightarrow> ('v \<Rightarrow> 'v) \<Rightarrow> ('k, 'v) omap \<Rightarrow> ('k, 'v) omap" where
  "mupd k f m = (case map_of m k of None \<Rightarrow> m | Some v \<Rightarrow> mput k (f v) m)"

definition object_message :: "(string \<times> msg_ptr) list \<Rightarrow> msg_ptr" where
  "object_message kvs = Some (Object_msg (emplace_all kvs))"

section \<open>Definitions of message types\<close>

definition path_append :: "string \<Rightarrow> string \<Rightarrow> string" where
  "path_append a b =
     (if take 1 b = ''/'' then b else if a = [] \<or> last a = CHR ''/'' then a @ b else a @ ''/'' @ b)"

definition getInterfaceIDLPath :: "graph \<Rightarrow> string \<Rightarrow> string" where
  "getInterfaceIDLPath g interface_name =
     (let parts = split interface_name CHR ''/''
      in if length parts < 2 \<or> [] \<in> set parts \<or> ''..'' \<in> set parts then []
         else (case g_package g (parts ! 0) of None \<Rightarrow> []
               | Some prefix_path \<Rightarrow>
                   let path = path_append (path_append prefix_path ''share'') interface_name;
                       path = (if length (rsplit (last parts) CHR ''.'' 1) = 1 then path @ ''.idl'' else path)
                   in if g_exists g path then path else []))"

definition include_type :: "string \<Rightarrow> string option" where
  "include_type line =
     Option.bind (replace_str line ''#include'' []) (\<lambda>p.
     replace_str (trim p [CHR '' '', CHR 0x09, CHR 0x0A, CHR 0x0D, CHR 0x0C, CHR 0x0B, CHR 0x22, CHR 0x27]) ''.idl'' [])"

text \<open>The lines that are kept and the types they include; \<open>first\<close>: a line has been kept already.\<close>

fun idl_lines :: "string list \<Rightarrow> bool \<Rightarrow> (string \<times> string list) option" where
  "idl_lines [] first = Some ([], [])"
| "idl_lines (line # ls) first =
     (if find_sub ''//'' line = Some 0 then idl_lines ls first
      else if line = [] \<and> \<not> first then idl_lines ls first
      else Option.bind
        (if find_sub ''#include'' line = Some 0 \<and> find_sub ''.idl'' line \<noteq> None
         then map_option (\<lambda>t. [t]) (include_type line) else Some []) (\<lambda>inc.
        map_option (\<lambda>(t, incs). (line @ [CHR 0x0A] @ t, inc @ incs)) (idl_lines ls (first \<or> line \<noteq> []))))"

definition parse_idl :: "string \<Rightarrow> (string \<times> string list) option" where
  "parse_idl raw = idl_lines (split raw (CHR 0x0A)) False"

text \<open>The recursion over the included types with its stack made explicit; \<open>None\<close> if it never ends.\<close>

definition is_new_idl :: "graph \<Rightarrow> string list \<Rightarrow> (string, string) omap \<Rightarrow> string \<Rightarrow> bool" where
  "is_new_idl g blacklist idls t = (t \<notin> set blacklist \<and> \<not> mhas idls t \<and> getInterfaceIDLPath g t \<noteq> [])"

partial_function (option) collect_loop ::
  "graph \<Rightarrow> string list \<Rightarrow> string list \<Rightarrow> (string, string) omap \<Rightarrow> (string, string) omap option" where
  "collect_loop g blacklist todo idls =
     (case todo of [] \<Rightarrow> Some idls
      | t # ts \<Rightarrow>
          if is_new_idl g blacklist idls t
          then Option.bind (parse_idl (g_read g (getInterfaceIDLPath g t))) (\<lambda>(text, incs).
                 collect_loop g blacklist (incs @ ts) (memplace t text idls))
          else collect_loop g blacklist ts idls)"

declare collect_loop.simps [code]

definition collectIDLs :: "graph \<Rightarrow> 'j bridge_config \<Rightarrow> string \<Rightarrow> (string, string) omap \<Rightarrow> (bool \<times> (string, string) omap) res" where
  "collectIDLs g cfg msg_type idls =
     (case collect_loop g (cf_blacklist_msg_types cfg) [msg_type] idls of
        None \<Rightarrow> Inl Blocks
      | Some idls' \<Rightarrow> Inr (is_new_idl g (cf_blacklist_msg_types cfg) idls msg_type, idls'))"

section \<open>Nodes\<close>

definition split_node :: "string \<Rightarrow> string \<times> string" where
  "split_node n =
     (case rfind_upto (\<lambda>c. c = CHR ''/'') n (length n) of
        None \<Rightarrow> (n, ''/'')
      | Some pos \<Rightarrow> (drop (pos + 1) n, if take pos n = [] then ''/'' else take pos n))"

definition nodes_and_namespaces :: "string list \<Rightarrow> (string, string) omap" where
  "nodes_and_namespaces names = fold (\<lambda>n m. case split_node n of (node, ns) \<Rightarrow> memplace node ns m) names []"

definition lose_nodes :: "(string, string) omap \<Rightarrow> intro \<Rightarrow> bool \<times> intro" where
  "lose_nodes seen st =
     (let lost = (\<lambda>n. mhas (it_nodes st) n \<and> \<not> mhas seen n)
      in (list_ex (\<lambda>(n, d). \<not> mhas seen n) (it_nodes st),
          st\<lparr>it_extractors := filter (\<lambda>(n, e). \<not> lost n) (it_extractors st),
             it_nodes := filter (\<lambda>(n, d). mhas seen n) (it_nodes st)\<rparr>))"

definition new_node :: "string \<Rightarrow> node_info" where
  "new_node ns = \<lparr>nd_ns = ns, nd_pubs = [], nd_subs = [], nd_services = [], nd_tmp_pubs = [], nd_tmp_subs = [], nd_check = False\<rparr>"

definition find_node :: "string \<times> string \<Rightarrow> bool \<times> (string, node_info) omap \<Rightarrow> bool \<times> (string, node_info) omap" where
  "find_node n s =
     (case (n, s) of ((node, ns), (changed, nodes)) \<Rightarrow>
        (changed \<or> \<not> mhas nodes node,
         mupd node (\<lambda>d. d\<lparr>nd_tmp_pubs := [], nd_tmp_subs := [], nd_check := False\<rparr>) (memplace node (new_node ns) nodes)))"

definition find_nodes :: "(string, string) omap \<Rightarrow> intro \<Rightarrow> bool \<times> intro" where
  "find_nodes seen st =
     (case fold find_node seen (False, it_nodes st) of (changed, nodes) \<Rightarrow> (changed, st\<lparr>it_nodes := nodes\<rparr>))"

section \<open>Topics\<close>

definition lose_topics :: "(string, string list) omap \<Rightarrow> intro \<Rightarrow> bool \<times> intro" where
  "lose_topics seen st =
     (list_ex (\<lambda>(t, ty). \<not> mhas seen t) (it_topics st),
      st\<lparr>it_topics := filter (\<lambda>(t, ty). mhas seen t) (it_topics st)\<rparr>)"

definition add_pub :: "string \<Rightarrow> string \<Rightarrow> string \<times> ros_qos \<Rightarrow> (string, node_info) omap \<Rightarrow> (string, node_info) omap" where
  "add_pub topic ty pub nodes =
     mupd (fst pub) (\<lambda>d. d\<lparr>nd_tmp_pubs :=
         (if \<not> mhas (nd_tmp_pubs d) topic then memplace topic \<lparr>pt_type = ty, pt_qos = [snd pub]\<rparr> (nd_tmp_pubs d)
          else mupd topic (\<lambda>i. i\<lparr>pt_qos := pt_qos i @ [snd pub]\<rparr>) (nd_tmp_pubs d))\<rparr>) nodes"

definition add_sub :: "string \<Rightarrow> string \<Rightarrow> string \<times> ros_qos \<Rightarrow> (string, node_info) omap \<Rightarrow> (string, node_info) omap" where
  "add_sub topic ty sub nodes =
     mupd (fst sub) (\<lambda>d.
       let q = \<lparr>sq_qos = snd sub, sq_error = [], sq_warning = []\<rparr>
       in d\<lparr>nd_tmp_subs :=
         (if \<not> mhas (nd_tmp_subs d) topic then memplace topic \<lparr>st_type = ty, st_qos = [q]\<rparr> (nd_tmp_subs d)
          else mupd topic (\<lambda>i. i\<lparr>st_qos := st_qos i @ [q]\<rparr>) (nd_tmp_subs d))\<rparr>) nodes"

definition endpoints :: "graph \<Rightarrow> string \<Rightarrow> string \<Rightarrow> (string, node_info) omap \<Rightarrow> (string, node_info) omap" where
  "endpoints g topic ty nodes =
     (case g_pubs g topic of None \<Rightarrow> nodes
      | Some ps \<Rightarrow>
          (case g_subs g topic of None \<Rightarrow> fold (add_pub topic ty) ps nodes
           | Some ss \<Rightarrow> fold (add_sub topic ty) ss (fold (add_pub topic ty) ps nodes)))"

text \<open>The flags are those of the topics and of the definitions.\<close>

definition topic_turn ::
  "graph \<Rightarrow> 'j bridge_config \<Rightarrow> string \<times> string list \<Rightarrow> bool \<times> bool \<times> intro \<Rightarrow> (bool \<times> bool \<times> intro) res" where
  "topic_turn g cfg topic s =
     (case (topic, s) of ((t, types), (tch, ich, st)) \<Rightarrow>
        if t \<in> set (cf_blacklist_topics cfg) then Inr s
        else (case types of [] \<Rightarrow> Inl Ub
          | ty # _ \<Rightarrow>
              if ty \<in> set (cf_blacklist_topics cfg) then Inr s
              else bindR
                (if mhas (it_topics st) t then Inr s
                 else bindR (collectIDLs g cfg ty (it_idls st)) (\<lambda>(found, idls).
                        Inr (True, found \<or> ich, st\<lparr>it_topics := memplace t ty (it_topics st), it_idls := idls\<rparr>)))
                (\<lambda>(tch, ich, st). Inr (tch, ich, st\<lparr>it_nodes := endpoints g t ty (it_nodes st)\<rparr>))))"

section \<open>Changes of a node\<close>

definition pubs_changed :: "node_info \<Rightarrow> bool" where
  "pubs_changed d =
     (list_ex (\<lambda>(t, i). \<not> mhas (nd_pubs d) t) (nd_tmp_pubs d) \<or>
      list_ex (\<lambda>(t, old). case map_of (nd_tmp_pubs d) t of None \<Rightarrow> True
        | Some tmp \<Rightarrow> pt_type tmp \<noteq> pt_type old \<or> pt_qos tmp \<noteq> pt_qos old) (nd_pubs d))"

definition subs_changed :: "node_info \<Rightarrow> bool" where
  "subs_changed d =
     (list_ex (\<lambda>(t, i). \<not> mhas (nd_subs d) t) (nd_tmp_subs d) \<or>
      list_ex (\<lambda>(t, old). case map_of (nd_tmp_subs d) t of None \<Rightarrow> True
        | Some tmp \<Rightarrow> st_type tmp \<noteq> st_type old \<or> map sq_qos (st_qos tmp) \<noteq> map sq_qos (st_qos old)) (nd_subs d))"

text \<open>The errors of an unchanged subscriber are copied to a local copy, not to the entry that is kept.\<close>

definition update_node :: "node_info \<Rightarrow> node_info" where
  "update_node d = d\<lparr>nd_pubs := nd_tmp_pubs d, nd_subs := nd_tmp_subs d, nd_check := nd_check d \<or> subs_changed d\<rparr>"

definition update_nodes :: "intro \<Rightarrow> bool \<times> intro" where
  "update_nodes st =
     (list_ex (\<lambda>(n, d). pubs_changed d \<or> subs_changed d) (it_nodes st),
      st\<lparr>it_nodes := map (\<lambda>(n, d). (n, update_node d)) (it_nodes st)\<rparr>)"

section \<open>Compatibility of QoS\<close>

definition verdict :: "graph \<Rightarrow> ros_qos \<Rightarrow> sub_qos \<Rightarrow> sub_qos" where
  "verdict g pub q =
     (case g_compatible g pub (sq_qos q) of
        (Qos_error, reason) \<Rightarrow> q\<lparr>sq_warning := [], sq_error := reason\<rparr>
      | (Qos_warning, reason) \<Rightarrow> q\<lparr>sq_warning := reason, sq_error := []\<rparr>
      | (Qos_ok, reason) \<Rightarrow> q)"

definition check_sub :: "graph \<Rightarrow> (string, node_info) omap \<Rightarrow> string \<Rightarrow> sub_qos \<Rightarrow> sub_qos" where
  "check_sub g nodes topic q =
     fold (\<lambda>(n, d) q. case map_of (nd_pubs d) topic of None \<Rightarrow> q | Some p \<Rightarrow> fold (verdict g) (pt_qos p) q) nodes
          (q\<lparr>sq_error := [], sq_warning := []\<rparr>)"

definition checkSubscriberQos :: "graph \<Rightarrow> (string, node_info) omap \<Rightarrow> node_info \<Rightarrow> node_info" where
  "checkSubscriberQos g nodes d =
     d\<lparr>nd_subs := map (\<lambda>(t, i). (t, i\<lparr>st_qos := map (check_sub g nodes t) (st_qos i)\<rparr>)) (nd_subs d)\<rparr>"

definition check_nodes :: "graph \<Rightarrow> intro \<Rightarrow> intro" where
  "check_nodes g st =
     st\<lparr>it_nodes := map (\<lambda>(n, d).
          (n, if nd_check d then (checkSubscriberQos g (it_nodes st) d)\<lparr>nd_check := False\<rparr> else d)) (it_nodes st)\<rparr>"

section \<open>Services\<close>

definition service_turn ::
  "graph \<Rightarrow> 'j bridge_config \<Rightarrow> string \<Rightarrow> string \<times> string list \<Rightarrow> bool \<times> bool \<times> intro \<Rightarrow> (bool \<times> bool \<times> intro) res" where
  "service_turn g cfg n srv s =
     (case (srv, s) of ((name, types), (sch, ich, st)) \<Rightarrow>
        case types of [] \<Rightarrow> Inl Ub
        | ty # _ \<Rightarrow>
          let st = (if ty = ''phntm_interfaces/srv/FileRequest'' then st\<lparr>it_extractors := memplace n name (it_extractors st)\<rparr> else st)
          in if name \<in> set (cf_blacklist_services cfg) \<or> ty \<in> set (cf_blacklist_services cfg) then Inr (sch, ich, st)
             else if (case map_of (it_nodes st) n of None \<Rightarrow> False | Some d \<Rightarrow> map_of (nd_services d) name = Some ty) then Inr (sch, ich, st)
             else bindR (collectIDLs g cfg ty (it_idls st)) (\<lambda>(found, idls).
                    Inr (True, found \<or> ich,
                         st\<lparr>it_nodes := mupd n (\<lambda>d. d\<lparr>nd_services := mput name ty (nd_services d)\<rparr>) (it_nodes st), it_idls := idls\<rparr>)))"

definition services_of_node :: "graph \<Rightarrow> 'j bridge_config \<Rightarrow> string \<times> string \<Rightarrow> bool \<times> bool \<times> intro \<Rightarrow> (bool \<times> bool \<times> intro) res" where
  "services_of_node g cfg n s =
     (case g_services g (fst n) (snd n) of None \<Rightarrow> Inr s | Some ss \<Rightarrow> foldR (service_turn g cfg (fst n)) ss s)"

section \<open>A round of introspection\<close>

text \<open>The flags of the result: nodes, topics, definitions, services; none if the topics could not be had.\<close>

definition observe :: "graph \<Rightarrow> 'j bridge_config \<Rightarrow> string list \<Rightarrow> intro \<Rightarrow> ((bool \<times> bool \<times> bool \<times> bool) option \<times> intro) res" where
  "observe g cfg names st =
     (let seen = nodes_and_namespaces names;
          (lost, st) = lose_nodes seen st;
          (fresh, st) = find_nodes seen st
      in case g_topics g of None \<Rightarrow> Inr (None, st)
         | Some topics \<Rightarrow>
             let (tch, st) = lose_topics topics st
             in bindR (foldR (topic_turn g cfg) topics (tch, False, st)) (\<lambda>(tch, ich, st).
                let (nch, st) = update_nodes st; st = check_nodes g st
                in bindR (collectIDLs g cfg ''std_msgs/msg/Byte'' (it_idls st)) (\<lambda>(found, idls).
                   let st = st\<lparr>it_idls := idls\<rparr>
                   in bindR (foldR (services_of_node g cfg) (map (\<lambda>(n, d). (n, nd_ns d)) (it_nodes st)) (False, found \<or> ich, st))
                        (\<lambda>(sch, ich, st). Inr (Some (lost \<or> fresh \<or> nch, tch, ich, sch), st)))))"

section \<open>Reports\<close>

definition intro_emit :: "graph \<Rightarrow> string \<Rightarrow> msg_ptr \<Rightarrow> unit iact" where
  "intro_emit g name m = emitA (if g_sio g then [Intro_emit name m] else [])"

definition int32_message :: "32 word \<Rightarrow> msg_ptr" where
  "int32_message x = Some (Int_msg (scast x))"

text \<open>The casts to \<open>int\<close> keep the low 32 bits.\<close>

definition duration_int :: "64 word option \<Rightarrow> 32 word" where
  "duration_int d = (case d of None \<Rightarrow> - 1 | Some ns \<Rightarrow> ucast ns)"

definition createQoSMessage :: "ros_qos \<Rightarrow> msg_ptr" where
  "createQoSMessage q = object_message
     [(''depth'', int32_message (ucast (rq_depth q))), (''history'', int32_message (rq_history q)),
      (''reliability'', int32_message (rq_reliability q)), (''durability'', int32_message (rq_durability q)),
      (''lifespan'', int32_message (duration_int (rq_lifespan q))), (''deadline'', int32_message (duration_int (rq_deadline q)))]"

definition sub_qos_message :: "sub_qos \<Rightarrow> msg_ptr" where
  "sub_qos_message q = object_message
     ([(''qos'', createQoSMessage (sq_qos q))] @
      (if sq_error q = [] then [] else [(''error'', text_message (sq_error q))]) @
      (if sq_warning q = [] then [] else [(''warning'', text_message (sq_warning q))]))"

definition pub_message :: "pub_topic \<Rightarrow> msg_ptr" where
  "pub_message p = object_message [(''msg_type'', text_message (pt_type p)), (''qos'', Some (Array_msg (map createQoSMessage (pt_qos p))))]"

definition sub_message :: "sub_topic \<Rightarrow> msg_ptr" where
  "sub_message p = object_message [(''msg_type'', text_message (st_type p)), (''qos'', Some (Array_msg (map sub_qos_message (st_qos p))))]"

definition node_message :: "node_info \<Rightarrow> msg_ptr" where
  "node_message d = object_message
     [(''namespace'', text_message (nd_ns d)),
      (''publishers'', object_message (map (\<lambda>(t, p). (t, pub_message p)) (nd_pubs d))),
      (''subscribers'', object_message (map (\<lambda>(t, p). (t, sub_message p)) (nd_subs d))),
      (''services'', object_message (map (\<lambda>(n, ty). (n, text_message ty)) (nd_services d)))]"

definition reportIDLs :: "graph \<Rightarrow> unit iact" where
  "reportIDLs g = bindA (getA it_idls) (\<lambda>idls. intro_emit g ''idls'' (object_message (map (\<lambda>(t, d). (t, text_message d)) idls)))"

definition reportNodes :: "graph \<Rightarrow> unit iact" where
  "reportNodes g = bindA (getA it_nodes) (\<lambda>nodes. intro_emit g ''nodes'' (object_message (map (\<lambda>(n, d). (n, node_message d)) nodes)))"

definition container_message :: "docker_container \<Rightarrow> msg_ptr" where
  "container_message c = object_message
     [(''block_io_read_bytes'', Some (Int_msg (dc_read_bytes c))), (''block_io_write_bytes'', Some (Int_msg (dc_write_bytes c))),
      (''cpu_percent'', Some (Double_msg (dc_cpu c))), (''id'', text_message (dc_cid c)), (''name'', text_message (dc_name c)),
      (''pids'', Some (Int_msg (dc_pids c))), (''status'', Some (Int_msg (dc_status c)))]"

definition host_message :: "docker_status \<Rightarrow> msg_ptr" where
  "host_message d = object_message
     [(''header'', object_message
         [(''frame_id'', text_message (dk_frame d)),
          (''stamp'', object_message [(''sec'', Some (Int_msg (dk_sec d))), (''nanosec'', Some (Int_msg (dk_nanosec d)))])]),
      (''containers'', Some (Array_msg (map container_message (dk_containers d))))]"

definition reportDocker :: "graph \<Rightarrow> unit iact" where
  "reportDocker g = bindA (getA it_docker) (\<lambda>hosts. intro_emit g ''docker'' (object_message (map (\<lambda>(h, d). (h, host_message d)) hosts)))"

definition reportRunningState :: "graph \<Rightarrow> unit iact" where
  "reportRunningState g = bindA (getA it_running) (\<lambda>b. intro_emit g ''introspection'' (Some (Bool_msg b)))"

definition intro_report :: "graph \<Rightarrow> unit iact" where
  "intro_report g = thenA (reportIDLs g) (thenA (reportNodes g) (thenA (reportDocker g) (reportRunningState g)))"

section \<open>Running\<close>

definition construct_intro :: "'j bridge_config \<Rightarrow> intro \<times> intro_effect list" where
  "construct_intro cfg =
     (\<lparr>it_running = False, it_progress = False, it_start = 0, it_docker = [], it_nodes = [], it_topics = [], it_extractors = [], it_idls = []\<rparr>,
      if cf_docker_monitor_topic cfg = [] then [] else [Subscribe_docker (cf_docker_monitor_topic cfg)])"

definition intro_start :: "graph \<Rightarrow> 'j bridge_config \<Rightarrow> unit iact" where
  "intro_start g cfg =
     bindA (getA it_running) (\<lambda>b. ifA (\<not> b)
       (thenA (modA (\<lambda>st. st\<lparr>it_running := True\<rparr>))
       (thenA (reportRunningState g)
       (thenA (modA (\<lambda>st. st\<lparr>it_start := g_now g, it_progress := False\<rparr>))
              (emitA [Start_timer (g_uint g (cf_discovery_period_sec cfg) * 1000)])))))"

definition intro_stop :: "graph \<Rightarrow> unit iact" where
  "intro_stop g =
     bindA (getA it_running) (\<lambda>b. ifA b
       (thenA (modA (\<lambda>st. st\<lparr>it_running := False\<rparr>)) (thenA (emitA [Cancel_timer]) (reportRunningState g))))"

definition auto_stop :: "graph \<Rightarrow> 'j bridge_config \<Rightarrow> unit iact" where
  "auto_stop g cfg =
     bindA (getA it_start) (\<lambda>start.
       ifA (g_positive g (cf_stop_discovery_after_sec cfg) \<and> g_expired g start (cf_stop_discovery_after_sec cfg)) (intro_stop g))"

definition finish_round :: "graph \<Rightarrow> 'j bridge_config \<Rightarrow> bool \<times> bool \<times> bool \<times> bool \<Rightarrow> unit iact" where
  "finish_round g cfg flags =
     (case flags of (nodes, topics, idls, services) \<Rightarrow>
        thenA (ifA idls (reportIDLs g))
        (thenA (ifA (nodes \<or> topics \<or> services) (reportNodes g))
        (thenA (ifA topics (emitA [Process_all]))
        (thenA (modA (\<lambda>st. st\<lparr>it_progress := False\<rparr>)) (auto_stop g cfg)))))"

definition runIntrospection :: "graph \<Rightarrow> 'j bridge_config \<Rightarrow> unit iact" where
  "runIntrospection g cfg =
     bindA (getA (\<lambda>st. it_running st \<and> \<not> it_progress st)) (\<lambda>go. ifA go
       (thenA (modA (\<lambda>st. st\<lparr>it_progress := True\<rparr>))
         (case g_nodes g of None \<Rightarrow> modA (\<lambda>st. st\<lparr>it_progress := False\<rparr>)
          | Some names \<Rightarrow>
              bindA (bindA (getA (observe g cfg names)) liftA) (\<lambda>(flags, st).
                thenA (modA (\<lambda>_. st))
                  (case flags of None \<Rightarrow> modA (\<lambda>st. st\<lparr>it_progress := False\<rparr>) | Some f \<Rightarrow> finish_round g cfg f)))))"

section \<open>Docker hosts\<close>

definition docker_host :: "docker_status \<Rightarrow> string" where
  "docker_host d = (if dk_frame d = [] then ''phntm_agent'' else ''phntm_agent_'' @ dk_frame d)"

text \<open>
  A known container under a new host: the old host is erased inside the loop over the hosts, which goes on with
  the erased element.
\<close>

definition host_renamed :: "docker_status \<Rightarrow> (string, docker_status) omap \<Rightarrow> bool" where
  "host_renamed d hosts =
     list_ex (\<lambda>c. list_ex (\<lambda>(h, old). list_ex (\<lambda>k. dc_cid c = dc_cid k) (dk_containers old)) hosts) (dk_containers d)"

definition same_container :: "docker_container \<Rightarrow> docker_container \<Rightarrow> bool" where
  "same_container a b = (dc_cid a = dc_cid b \<and> dc_name a = dc_name b \<and> dc_status a = dc_status b)"

definition docker_changed :: "docker_status \<Rightarrow> docker_status \<Rightarrow> bool" where
  "docker_changed d old =
     (length (dk_containers old) \<noteq> length (dk_containers d) \<or> \<not> list_all2 same_container (dk_containers d) (dk_containers old))"

definition onDockerMonitorMessage :: "graph \<Rightarrow> 'j bridge_config \<Rightarrow> docker_status \<Rightarrow> unit iact" where
  "onDockerMonitorMessage g cfg d =
     bindA (getA it_docker) (\<lambda>hosts.
     bindA (liftA (case map_of hosts (docker_host d) of
              None \<Rightarrow> if host_renamed d hosts then Inl Ub else Inr True
            | Some old \<Rightarrow> Inr (docker_changed d old))) (\<lambda>changed.
     thenA (modA (\<lambda>st. st\<lparr>it_docker := mput (docker_host d) d (it_docker st)\<rparr>))
           (ifA changed (thenA (reportDocker g) (bindA (getA it_running) (\<lambda>b. ifA (\<not> b) (intro_start g cfg)))))))"

section \<open>Queries\<close>

fun service_in :: "string \<Rightarrow> (string \<times> node_info) list \<Rightarrow> string" where
  "service_in service [] = []"
| "service_in service ((n, d) # ns) = (case map_of (nd_services d) service of Some ty \<Rightarrow> ty | None \<Rightarrow> service_in service ns)"

definition getService :: "string \<Rightarrow> intro \<Rightarrow> string" where
  "getService service st = service_in service (it_nodes st)"

definition getTopic :: "string \<Rightarrow> intro \<Rightarrow> string" where
  "getTopic topic st = (case map_of (it_topics st) topic of None \<Rightarrow> [] | Some ty \<Rightarrow> ty)"

end
