(* ===== verification/Machine.thy ===== *)
theory Machine
  imports Prelude
begin

text \<open>
  Components that react to calls: a step takes a call and a state and returns the effects it has on
  the outside, in order, with the next state, or a failure. \<open>run_calls\<close> is a sequence of calls. The
  locales state what a component promises of one step and give what follows for every run.
\<close>

primrec run_calls ::
  "('c \<Rightarrow> 's \<Rightarrow> 'e + ('o list \<times> 's)) \<Rightarrow> 'c list \<Rightarrow> 's \<Rightarrow> 'e + ('o list \<times> 's)" where
  "run_calls step [] s = Inr ([], s)"
| "run_calls step (c # cs) s =
     bindR (step c s) (\<lambda>(out, s'). bindR (run_calls step cs s') (\<lambda>(outs, s''). Inr (out @ outs, s'')))"

lemma run_calls_ConsE:
  assumes "run_calls step (c # cs) s = Inr (out, t)"
  obtains out1 s' out2 where "step c s = Inr (out1, s')" "run_calls step cs s' = Inr (out2, t)" "out = out1 @ out2"
  using assms by (auto simp: res_simps)

text \<open>Only the calls of \<open>P\<close> have an effect: for what holds as long as certain calls are not made.\<close>

definition restrict_calls ::
  "('c \<Rightarrow> bool) \<Rightarrow> ('c \<Rightarrow> 's \<Rightarrow> 'e + ('o list \<times> 's)) \<Rightarrow> 'c \<Rightarrow> 's \<Rightarrow> 'e + ('o list \<times> 's)" where
  "restrict_calls P step c s = (if P c then step c s else Inr ([], s))"

lemma run_restrict: "list_all P cs \<Longrightarrow> run_calls (restrict_calls P step) cs s = run_calls step cs s"
  by (induction cs arbitrary: s) (simp_all add: restrict_calls_def)

section \<open>An invariant\<close>

locale event_machine =
  fixes step :: "'c \<Rightarrow> 's \<Rightarrow> 'e + ('o list \<times> 's)"
    and inv :: "'s \<Rightarrow> bool"
  assumes step_inv: "inv s \<Longrightarrow> step c s = Inr (out, s') \<Longrightarrow> inv s'"
begin

lemma run_inv: "inv s \<Longrightarrow> run_calls step cs s = Inr (out, s') \<Longrightarrow> inv s'"
proof (induction cs arbitrary: s out)
  case Nil
  then show ?case by simp
next
  case (Cons c cs)
  from Cons.prems(2) obtain out1 s1 out2 where
    "step c s = Inr (out1, s1)" "run_calls step cs s1 = Inr (out2, s')"
    by (rule run_calls_ConsE)
  with Cons.IH Cons.prems(1) step_inv show ?case by blast
qed

end

section \<open>A set of states that makes no noise\<close>

locale silent_machine = event_machine +
  assumes step_silent: "inv s \<Longrightarrow> step c s = Inr (out, s') \<Longrightarrow> out = []"
begin

lemma run_silent: "inv s \<Longrightarrow> run_calls step cs s = Inr (out, s') \<Longrightarrow> out = []"
proof (induction cs arbitrary: s out)
  case Nil
  then show ?case by simp
next
  case (Cons c cs)
  from Cons.prems(2) obtain out1 s1 out2 where
    st: "step c s = Inr (out1, s1)" "run_calls step cs s1 = Inr (out2, s')" "out = out1 @ out2"
    by (rule run_calls_ConsE)
  have "inv s1" using st(1) Cons.prems(1) by (rule step_inv [rotated])
  with Cons.IH st(2) have "out2 = []" by blast
  moreover have "out1 = []" using Cons.prems(1) st(1) by (rule step_silent)
  ultimately show ?case using st(3) by simp
qed

end

section \<open>A budget\<close>

text \<open>Every effect that counts is paid by a call or by what the state has in store.\<close>

locale budget_machine = event_machine +
  fixes cost :: "'d list \<Rightarrow> nat" and store :: "'b \<Rightarrow> nat" and credit :: "'a \<Rightarrow> nat"
  assumes cost_Nil: "cost [] = 0"
    and cost_append: "cost (xs @ ys) = cost xs + cost ys"
    and step_budget: "inv s \<Longrightarrow> step c s = Inr (out, s') \<Longrightarrow> cost out + store s' \<le> store s + credit c"
begin

lemma run_budget:
  "inv s \<Longrightarrow> run_calls step cs s = Inr (out, s') \<Longrightarrow> cost out + store s' \<le> store s + sum_list (map credit cs)"
proof (induction cs arbitrary: s out)
  case Nil
  then show ?case by (simp add: cost_Nil)
next
  case (Cons c cs)
  from Cons.prems(2) obtain out1 s1 out2 where
    st: "step c s = Inr (out1, s1)" "run_calls step cs s1 = Inr (out2, s')" "out = out1 @ out2"
    by (rule run_calls_ConsE)
  have "inv s1" using st(1) Cons.prems(1) by (rule step_inv [rotated])
  with Cons.IH st(2) have "cost out2 + store s' \<le> store s1 + sum_list (map credit cs)" by blast
  moreover have "cost out1 + store s1 \<le> store s + credit c" using Cons.prems(1) st(1) by (rule step_budget)
  ultimately show ?case using st(3) by (simp add: cost_append)
qed

end

section \<open>First in, first out\<close>

text \<open>
  What is handed over leaves in the order it was handed over, as long as the component is alive at the
  end and no call that drops the queue was made.
\<close>

locale fifo_machine = event_machine +
  fixes sent :: "'d list \<Rightarrow> 'p list" and waiting :: "'b \<Rightarrow> 'p list" and given :: "'a \<Rightarrow> 'p list"
    and keeps :: "'a \<Rightarrow> bool" and alive :: "'b \<Rightarrow> bool"
  assumes sent_Nil: "sent [] = []"
    and sent_append: "sent (xs @ ys) = sent xs @ sent ys"
    and alive_before: "step c s = Inr (out, s') \<Longrightarrow> alive s' \<Longrightarrow> alive s"
    and step_fifo: "inv s \<Longrightarrow> step c s = Inr (out, s') \<Longrightarrow> keeps c \<Longrightarrow> alive s' \<Longrightarrow>
      sent out @ waiting s' = waiting s @ given c"
begin

lemma run_alive: "run_calls step cs s = Inr (out, s') \<Longrightarrow> alive s' \<Longrightarrow> alive s"
proof (induction cs arbitrary: s out)
  case Nil
  then show ?case by simp
next
  case (Cons c cs)
  from Cons.prems(1) obtain out1 s1 out2 where
    "step c s = Inr (out1, s1)" "run_calls step cs s1 = Inr (out2, s')"
    by (rule run_calls_ConsE)
  with Cons.IH Cons.prems(2) alive_before show ?case by blast
qed

lemma run_fifo:
  "inv s \<Longrightarrow> run_calls step cs s = Inr (out, s') \<Longrightarrow> list_all keeps cs \<Longrightarrow> alive s' \<Longrightarrow>
     sent out @ waiting s' = waiting s @ concat (map given cs)"
proof (induction cs arbitrary: s out)
  case Nil
  then show ?case by (simp add: sent_Nil)
next
  case (Cons c cs)
  from Cons.prems(2) obtain out1 s1 out2 where
    st: "step c s = Inr (out1, s1)" "run_calls step cs s1 = Inr (out2, s')" "out = out1 @ out2"
    by (rule run_calls_ConsE)
  have "inv s1" using st(1) Cons.prems(1) by (rule step_inv [rotated])
  moreover have "alive s1" using st(2) Cons.prems(4) by (rule run_alive)
  ultimately have "sent out2 @ waiting s' = waiting s1 @ concat (map given cs)"
    using Cons.IH st(2) Cons.prems(3,4) by simp
  moreover have "sent out1 @ waiting s1 = waiting s @ given c"
    using step_fifo [OF Cons.prems(1) st(1)] Cons.prems(3) \<open>alive s1\<close> by simp
  ultimately show ?case using st(3) by (metis append_assoc concat.simps(2) list.simps(9) sent_append)
qed

end

end
