(* ===== verification/DataReader.thy ===== *)
theory DataReader
  imports Config Machine
begin

text \<open>
  \<open>src/topic_reader_data.cpp\<close>: the readers of ROS topics, one per topic, and the data channels each of
  them feeds. A data channel and a peer connection are numbers; whether a channel is open and what
  sending into it gives are arguments. A reader and an output have an identity, because a detached
  thread (\<open>sendLatestData\<close>) keeps a pointer to its reader and to its output.
\<close>

section \<open>Sets of channels\<close>

text \<open>
  What readers and writers share: channels are added once, removed once, and the subscription (or
  publisher) behind them goes away with the last one.
\<close>

locale channel_set =
  fixes chans :: "'r \<Rightarrow> nat list"
    and live :: "'r \<Rightarrow> bool"
    and add :: "nat \<Rightarrow> 'r \<Rightarrow> 'r"
    and rem :: "nat \<Rightarrow> 'r \<Rightarrow> 'r"
  assumes chans_add: "chans (add d r) = (if d \<in> set (chans r) then chans r else chans r @ [d])"
    and chans_rem: "chans (rem d r) = remove1 d (chans r)"
    and live_add: "d \<in> set (chans r) \<Longrightarrow> live (add d r) = live r"
    and live_rem: "live (rem d r) \<Longrightarrow> live r \<and> chans (rem d r) \<noteq> []"
begin

definition good :: "'r \<Rightarrow> bool" where
  "good r = (distinct (chans r) \<and> (live r \<longrightarrow> chans r \<noteq> []))"

lemma good_add: "good r \<Longrightarrow> good (add d r)"
  using live_add [of d r] by (auto simp: good_def chans_add)

lemma good_rem: "good r \<Longrightarrow> good (rem d r)"
  using live_rem [of d r] by (auto simp: good_def chans_rem)

lemma rem_add: "d \<notin> set (chans r) \<Longrightarrow> chans (rem d (add d r)) = chans r"
  by (simp add: chans_add chans_rem remove1_append)

text \<open>Any sequence of additions (\<open>Inl\<close>) and removals (\<open>Inr\<close>).\<close>

definition act :: "nat + nat \<Rightarrow> 'r \<Rightarrow> 'r" where
  "act x r = (case x of Inl d \<Rightarrow> add d r | Inr d \<Rightarrow> rem d r)"

lemma good_acts: "good r \<Longrightarrow> good (fold act xs r)"
  by (rule fold_invariant_set) (auto simp: act_def intro: good_add good_rem split: sum.splits)

lemma silent_when_empty: "good r \<Longrightarrow> chans (fold act xs r) = [] \<Longrightarrow> \<not> live (fold act xs r)"
  using good_acts [of r xs] by (simp add: good_def)

end

section \<open>State\<close>

record dc_output =
  o_id :: nat
  o_dc :: nat
  o_pc :: nat
  o_num_sent :: "16 word"
  o_init_complete :: bool
  o_logged_closed :: bool
  o_logged_init_incomplete :: bool
  o_logged_sending :: bool
  o_logged_error :: bool
  o_logged_exception :: bool

record reader =
  rd_id :: nat
  rd_topic :: string
  rd_msg_type :: string
  rd_reliable :: bool
  rd_outputs :: "dc_output list"
  rd_sub :: bool
  rd_payload :: string
  rd_logged_receiving :: bool

datatype latest_phase = Wait_open | Wait_data

text \<open>A detached thread: the reader and the output it captured, and the loop it is in.\<close>

record latest_thread =
  lt_topic :: string
  lt_reader :: nat
  lt_output :: nat
  lt_phase :: latest_phase

record readers =
  rs_map :: "(string, reader) omap"
  rs_next :: nat
  rs_threads :: "latest_thread list"

datatype send_result = Sent | Refused | Threw_runtime | Threw_invalid

datatype rd_effect = Dc_send nat string | Subscribe string string | Unsubscribe string | Led_once

section \<open>The readers\<close>

definition no_readers :: readers where
  "no_readers = \<lparr>rs_map = [], rs_next = 0, rs_threads = []\<rparr>"

definition new_reader :: "nat \<Rightarrow> string \<Rightarrow> string \<Rightarrow> qos \<Rightarrow> reader" where
  "new_reader i topic msg_type q =
     \<lparr>rd_id = i, rd_topic = topic, rd_msg_type = msg_type, rd_reliable = (q_reliability q = 1), rd_outputs = [],
      rd_sub = False, rd_payload = [], rd_logged_receiving = False\<rparr>"

definition get_reader :: "string \<Rightarrow> string \<Rightarrow> qos \<Rightarrow> readers \<Rightarrow> readers" where
  "get_reader topic msg_type q w =
     (if mhas (rs_map w) topic then w
      else w\<lparr>rs_map := memplace topic (new_reader (rs_next w) topic msg_type q) (rs_map w), rs_next := Suc (rs_next w)\<rparr>)"

definition find_reader :: "string \<Rightarrow> readers \<Rightarrow> reader option" where
  "find_reader topic w = map_of (rs_map w) topic"

definition reader_start :: "bool \<Rightarrow> reader \<Rightarrow> rd_effect list \<times> reader" where
  "reader_start can_sub r =
     (if rd_sub r then ([], r)
      else if can_sub then ([Subscribe (rd_topic r) (rd_msg_type r)], r\<lparr>rd_sub := True\<rparr>) else ([], r))"

definition reader_stop :: "bool \<Rightarrow> reader \<Rightarrow> rd_effect list \<times> reader" where
  "reader_stop ok r =
     (if \<not> rd_sub r \<or> \<not> ok then ([], r)
      else ([Unsubscribe (rd_topic r)], r\<lparr>rd_sub := False, rd_logged_receiving := False\<rparr>))"

text \<open>Destroying the reader runs its destructor.\<close>

definition destroy_reader :: "bool \<Rightarrow> string \<Rightarrow> readers \<Rightarrow> rd_effect list \<times> readers" where
  "destroy_reader ok topic w =
     (case map_of (rs_map w) topic of None \<Rightarrow> ([], w)
      | Some r \<Rightarrow> (fst (reader_stop ok r), w\<lparr>rs_map := mdel topic (rs_map w)\<rparr>))"

definition new_output :: "nat \<Rightarrow> nat \<Rightarrow> nat \<Rightarrow> dc_output" where
  "new_output i dc pc = \<lparr>o_id = i, o_dc = dc, o_pc = pc, o_num_sent = 0, o_init_complete = False,
     o_logged_closed = False, o_logged_init_incomplete = False, o_logged_sending = False, o_logged_error = False,
     o_logged_exception = False\<rparr>"

text \<open>\<open>addOutput\<close> on the reader: whether it was added, effects, and the reader.\<close>

definition addOutput :: "bool \<Rightarrow> nat \<Rightarrow> nat \<Rightarrow> nat \<Rightarrow> reader \<Rightarrow> bool \<times> rd_effect list \<times> reader" where
  "addOutput can_sub i dc pc r =
     (if dc \<in> o_dc ` set (rd_outputs r) then (False, [], r)
      else (True, reader_start can_sub (r\<lparr>rd_outputs := rd_outputs r @ [new_output i dc pc]\<rparr>)))"

text \<open>For a reliable topic a thread is started that sends the latest message to the new output.\<close>

definition add_reader_output :: "bool \<Rightarrow> string \<Rightarrow> nat \<Rightarrow> nat \<Rightarrow> readers \<Rightarrow> bool \<times> rd_effect list \<times> readers" where
  "add_reader_output can_sub topic dc pc w =
     (case map_of (rs_map w) topic of None \<Rightarrow> (False, [], w)
      | Some r \<Rightarrow>
          let i = rs_next w; (added, out, r') = addOutput can_sub i dc pc r
          in (added, out,
              w\<lparr>rs_map := mput topic r' (rs_map w), rs_next := Suc i,
                rs_threads := rs_threads w @
                  (if added \<and> rd_reliable r
                   then [\<lparr>lt_topic = topic, lt_reader = rd_id r, lt_output = i, lt_phase = Wait_open\<rparr>] else [])\<rparr>))"

fun drop_dc :: "nat \<Rightarrow> dc_output list \<Rightarrow> dc_output list" where
  "drop_dc dc [] = []"
| "drop_dc dc (o1 # os) = (if o_dc o1 = dc then os else o1 # drop_dc dc os)"

text \<open>\<open>removeOutput\<close>: the result says whether the reader can be destroyed.\<close>

definition removeOutput :: "bool \<Rightarrow> nat \<Rightarrow> reader \<Rightarrow> bool \<times> rd_effect list \<times> reader" where
  "removeOutput ok dc r =
     (let r' = r\<lparr>rd_outputs := drop_dc dc (rd_outputs r)\<rparr>
      in if rd_outputs r' = [] then (True, reader_stop ok r') else (False, [], r'))"

definition remove_reader_output :: "bool \<Rightarrow> string \<Rightarrow> nat \<Rightarrow> readers \<Rightarrow> bool \<times> rd_effect list \<times> readers" where
  "remove_reader_output ok topic dc w =
     (case map_of (rs_map w) topic of None \<Rightarrow> (False, [], w)
      | Some r \<Rightarrow> let (b, out, r') = removeOutput ok dc r in (b, out, w\<lparr>rs_map := mput topic r' (rs_map w)\<rparr>))"

text \<open>In every reader the first output of the connection becomes complete.\<close>

fun complete_first :: "nat \<Rightarrow> dc_output list \<Rightarrow> dc_output list" where
  "complete_first pc [] = []"
| "complete_first pc (o1 # os) =
     (if o_pc o1 = pc then o1\<lparr>o_init_complete := True\<rparr> # os else o1 # complete_first pc os)"

definition onPCSignalingStateChange :: "bool \<Rightarrow> nat \<Rightarrow> readers \<Rightarrow> readers" where
  "onPCSignalingStateChange is_stable pc w =
     (if is_stable then w\<lparr>rs_map := map (\<lambda>(t, r). (t, r\<lparr>rd_outputs := complete_first pc (rd_outputs r)\<rparr>)) (rs_map w)\<rparr>
      else w)"

section \<open>Sending\<close>

definition reset_logs :: "dc_output \<Rightarrow> dc_output" where
  "reset_logs x = x\<lparr>o_logged_closed := False, o_logged_init_incomplete := False, o_logged_error := False,
     o_logged_exception := False\<rparr>"

text \<open>One output: what it sends, whether that counts as sent, and its new state.\<close>

definition feed_output :: "(nat \<Rightarrow> bool) \<Rightarrow> (nat \<Rightarrow> send_result) \<Rightarrow> string \<Rightarrow> dc_output \<Rightarrow> rd_effect list \<times> bool \<times> dc_output" where
  "feed_output is_open send payload x =
     (if \<not> is_open (o_dc x) then ([], False, x\<lparr>o_logged_closed := True\<rparr>)
      else if \<not> o_init_complete x then ([], False, x\<lparr>o_logged_init_incomplete := True\<rparr>)
      else let y = x\<lparr>o_logged_sending := True\<rparr>
           in ([Dc_send (o_dc x) payload],
               case send (o_dc x) of
                 Sent \<Rightarrow> (True, reset_logs (y\<lparr>o_num_sent := o_num_sent y + 1\<rparr>))
               | Refused \<Rightarrow> (False, y\<lparr>o_logged_error := True\<rparr>)
               | _ \<Rightarrow> (False, y\<lparr>o_logged_exception := True\<rparr>)))"

definition reader_onData ::
  "(nat \<Rightarrow> bool) \<Rightarrow> (nat \<Rightarrow> send_result) \<Rightarrow> string \<Rightarrow> reader \<Rightarrow> rd_effect list \<times> reader" where
  "reader_onData is_open send payload r =
     (let res = map (feed_output is_open send payload) (rd_outputs r)
      in (concat (map fst res) @ (if \<exists>x\<in>set res. fst (snd x) then [Led_once] else []),
          r\<lparr>rd_payload := payload, rd_logged_receiving := True, rd_outputs := map (snd \<circ> snd) res\<rparr>))"

text \<open>
  One turn of a thread of \<open>sendLatestData\<close>: the effects, whether it goes on, and the readers. An output
  that left its reader is inactive. In the second loop the reader is read first, so a destroyed reader
  is used after it was freed. Only \<open>runtime_error\<close> is caught around the send.
\<close>

definition find_output :: "nat \<Rightarrow> reader \<Rightarrow> dc_output option" where
  "find_output i r = List.find (\<lambda>x. o_id x = i) (rd_outputs r)"

definition send_latest ::
  "(nat \<Rightarrow> send_result) \<Rightarrow> reader \<Rightarrow> dc_output \<Rightarrow> (rd_effect list \<times> reader) res" where
  "send_latest send r x =
     (let upd = (\<lambda>y. r\<lparr>rd_outputs := map (\<lambda>z. if o_id z = o_id x then y else z) (rd_outputs r)\<rparr>);
          eff = [Dc_send (o_dc x) (rd_payload r)]
      in case send (o_dc x) of
           Sent \<Rightarrow> Inr (eff, upd (reset_logs (x\<lparr>o_num_sent := o_num_sent x + 1\<rparr>)))
         | Refused \<Rightarrow> Inr (eff, upd (x\<lparr>o_logged_error := True\<rparr>))
         | Threw_runtime \<Rightarrow> Inr (eff, upd (x\<lparr>o_logged_exception := True\<rparr>))
         | Threw_invalid \<Rightarrow> Inl Invalid_argument)"

definition latest_turn ::
  "(nat \<Rightarrow> bool) \<Rightarrow> (nat \<Rightarrow> send_result) \<Rightarrow> latest_thread \<Rightarrow> readers \<Rightarrow>
   (rd_effect list \<times> latest_thread option \<times> readers) res" where
  "latest_turn is_open send t w =
     (let reader = (case map_of (rs_map w) (lt_topic t) of None \<Rightarrow> None
                    | Some r \<Rightarrow> if rd_id r = lt_reader t then Some r else None);
          out = (case reader of None \<Rightarrow> None | Some r \<Rightarrow> find_output (lt_output t) r)
      in case lt_phase t of
           Wait_open \<Rightarrow>
             (case out of
                Some x \<Rightarrow> if \<not> is_open (o_dc x) \<or> \<not> o_init_complete x then Inr ([], Some t, w)
                          else Inr ([], Some (t\<lparr>lt_phase := Wait_data\<rparr>), w)
              | None \<Rightarrow> Inr ([], Some (t\<lparr>lt_phase := Wait_data\<rparr>), w))
         | Wait_data \<Rightarrow>
             (case reader of None \<Rightarrow> Inl Ub
              | Some r \<Rightarrow>
                  (case out of None \<Rightarrow> Inr ([], None, w)
                   | Some x \<Rightarrow>
                       if rd_payload r = [] \<and> o_num_sent x = 0 then Inr ([], Some t, w)
                       else if o_num_sent x \<noteq> 0 then Inr ([], None, w)
                       else bindR (send_latest send r x) (\<lambda>(eff, r').
                              Inr (eff, None, w\<lparr>rs_map := mput (lt_topic t) r' (rs_map w)\<rparr>)))))"

section \<open>The readers as channel sets\<close>

lemma chans_drop: "map o_dc (drop_dc dc os) = remove1 dc (map o_dc os)"
  by (induction os) auto

lemma reader_stop_fields [simp]: "rd_outputs (snd (reader_stop ok r)) = rd_outputs r"
  by (simp add: reader_stop_def)

lemma reader_start_fields [simp]: "rd_outputs (snd (reader_start b r)) = rd_outputs r"
  by (simp add: reader_start_def)

interpretation rd: channel_set "\<lambda>r. map o_dc (rd_outputs r)" rd_sub
  "\<lambda>dc r. snd (snd (addOutput can_sub i dc pc r))" "\<lambda>dc r. snd (snd (removeOutput True dc r))" for can_sub i pc
  by unfold_locales
    (auto simp: addOutput_def removeOutput_def chans_drop [symmetric] new_output_def reader_stop_def Let_def split: if_splits)

text \<open>Whatever channels are added to and removed from a reader, each is in it at most once, and without
  any channel left the reader has no subscription (as long as ROS runs).\<close>

theorem reader_channels_good:
  fixes acts :: "(nat + nat) list"
  shows "let r = fold (\<lambda>x r. case x of Inl dc \<Rightarrow> snd (snd (addOutput can_sub i dc pc r))
                              | Inr dc \<Rightarrow> snd (snd (removeOutput True dc r))) acts (new_reader n topic ty q)
    in distinct (map o_dc (rd_outputs r)) \<and> (if rd_outputs r = [] then \<not> rd_sub r else True)"
proof -
  have "rd.good (new_reader n topic ty q)" by (simp add: rd.good_def new_reader_def)
  from rd.good_acts [OF this, of can_sub i pc acts] show ?thesis
    by (auto simp: rd.good_def rd.act_def [abs_def] Let_def)
qed

section \<open>Delivery\<close>

definition sends :: "rd_effect list \<Rightarrow> (nat \<times> string) list" where
  "sends out = concat (map (\<lambda>e. case e of Dc_send d p \<Rightarrow> [(d, p)] | _ \<Rightarrow> []) out)"

text \<open>C16. A message of the topic is sent once to every channel that is open and past the negotiation, in the
  order the channels were added, and to no other; the counters of the others do not move.\<close>

theorem data_reaches_ready_channels:
  "sends (fst (reader_onData is_open send payload r)) =
     map (\<lambda>x. (o_dc x, payload)) (filter (\<lambda>x. is_open (o_dc x) \<and> o_init_complete x) (rd_outputs r)) \<and>
   map o_num_sent (rd_outputs (snd (reader_onData is_open send payload r))) =
     map (\<lambda>x. o_num_sent x + (if is_open (o_dc x) \<and> o_init_complete x \<and> send (o_dc x) = Sent then 1 else 0)) (rd_outputs r)"
proof -
  have a: "sends (concat (map fst (map (feed_output is_open send payload) os)) @ tl) =
      map (\<lambda>x. (o_dc x, payload)) (filter (\<lambda>x. is_open (o_dc x) \<and> o_init_complete x) os) @ sends tl" for os tl
    by (induction os) (auto simp: sends_def feed_output_def Let_def)
  have b: "o_num_sent (snd (snd (feed_output is_open send payload x))) =
      o_num_sent x + (if is_open (o_dc x) \<and> o_init_complete x \<and> send (o_dc x) = Sent then 1 else 0)" for x
    by (auto simp: feed_output_def reset_logs_def Let_def split: send_result.splits)
  have "sends (if c then [Led_once] else []) = []" for c by (simp add: sends_def)
  with a [of "rd_outputs r"] b show ?thesis by (simp add: reader_onData_def Let_def comp_def)
qed

text \<open>The first \<open>getForTopic\<close> of a topic decides its reader: a later one returns the same reader with the
  type and reliability of the first.\<close>

theorem reader_of_topic_fixed:
  "find_reader topic (get_reader topic ty' q' (get_reader topic ty q w)) = find_reader topic (get_reader topic ty q w) \<and>
   find_reader topic (get_reader topic ty q w) \<noteq> None"
  by (auto simp: find_reader_def get_reader_def map_of_memplace mhas_def)

text \<open>The thread that sends the latest message to a new channel sends nothing before the channel is open
  and negotiated, and nothing if a message has already reached it.\<close>

theorem latest_waits:
  assumes "latest_turn is_open send t w = Inr (out, t', w')"
    and "map_of (rs_map w) (lt_topic t) = Some r" "rd_id r = lt_reader t" "find_output (lt_output t) r = Some x"
    and "lt_phase t = Wait_open \<or> o_num_sent x \<noteq> 0"
  shows "out = [] \<and> w' = w \<and>
    (if lt_phase t = Wait_open \<and> \<not> (is_open (o_dc x) \<and> o_init_complete x) then t' = Some t else True)"
  using assms by (auto simp: latest_turn_def Let_def split: latest_phase.splits if_splits)

theorem latest_waits_witness:
  "\<exists>w. w = snd (snd (add_reader_output True ''/t'' 1 2 (get_reader ''/t'' ''T'' \<lparr>q_depth = 1, q_reliability = 1, q_durability = 1, q_lifespan = None\<rparr> no_readers))) \<and>
     latest_turn (\<lambda>_. False) (\<lambda>_. Sent) (hd (rs_threads w)) w = Inr ([], Some (hd (rs_threads w)), w)"
proof -
  let ?w = "snd (snd (add_reader_output True ''/t'' 1 2 (get_reader ''/t'' ''T'' \<lparr>q_depth = 1, q_reliability = 1, q_durability = 1, q_lifespan = None\<rparr> no_readers)))"
  let ?t = "hd (rs_threads ?w)"
  obtain r x where r: "map_of (rs_map ?w) (lt_topic ?t) = Some r" "rd_id r = lt_reader ?t"
    "find_output (lt_output ?t) r = Some x" "lt_phase ?t = Wait_open"
    by (simp add: add_reader_output_def get_reader_def no_readers_def mhas_def memplace_def new_reader_def addOutput_def
        reader_start_def new_output_def find_output_def)
  obtain out t' w' where l: "latest_turn (\<lambda>_. False) (\<lambda>_. Sent) ?t ?w = Inr (out, t', w')"
    using r by (simp add: latest_turn_def)
  from latest_waits [OF l r(1-3)] r(4) l show ?thesis by auto
qed

text \<open>A channel removed before it opened leaves a thread behind; once its reader is destroyed, the thread
  reads the freed reader.\<close>

theorem latest_thread_outlives_reader:
  assumes "lt_phase t = Wait_open" "mhas (rs_map w) (lt_topic t)"
  shows "\<exists>t'. latest_turn is_open send t (snd (destroy_reader ok (lt_topic t) w)) = Inr ([], Some t', snd (destroy_reader ok (lt_topic t) w)) \<and>
    latest_turn is_open send t' (snd (destroy_reader ok (lt_topic t) w)) = Inl Ub"
  using assms by (auto simp: latest_turn_def destroy_reader_def mhas_def)

end
