(* ===== verification/DataWriter.thy ===== *)
theory DataWriter
  imports DataReader
begin

text \<open>
  \<open>src/topic_writer_data.cpp\<close>: the writers of ROS topics, one per topic, the data channels that feed
  them, and the index from a channel to its writer that the receiving side uses. The index is keyed by
  the channel and shared by all writers; it points to a writer by the writer's topic.
\<close>

section \<open>State\<close>

record dc_input =
  in_dc :: nat
  in_num_received :: "16 word"
  in_logged_receiving :: bool

record writer =
  wr_topic :: string
  wr_msg_type :: string
  wr_inputs :: "dc_input list"
  wr_pub :: bool

record writers =
  ws_map :: "(string, writer) omap"
  ws_index :: "(nat, string) omap"

datatype wr_effect = Create_publisher string string | Remove_publisher string | Publish string string | Flash_data

datatype dc_message = Binary_data string | Text_data string

definition no_writers :: writers where
  "no_writers = \<lparr>ws_map = [], ws_index = []\<rparr>"

section \<open>Operations\<close>

definition new_writer :: "string \<Rightarrow> string \<Rightarrow> writer" where
  "new_writer topic msg_type = \<lparr>wr_topic = topic, wr_msg_type = msg_type, wr_inputs = [], wr_pub = False\<rparr>"

definition get_writer :: "string \<Rightarrow> string \<Rightarrow> writers \<Rightarrow> writers" where
  "get_writer topic msg_type w =
     (if mhas (ws_map w) topic then w else w\<lparr>ws_map := memplace topic (new_writer topic msg_type) (ws_map w)\<rparr>)"

definition find_writer :: "string \<Rightarrow> writers \<Rightarrow> writer option" where
  "find_writer topic w = map_of (ws_map w) topic"

definition writer_of_dc :: "nat \<Rightarrow> writers \<Rightarrow> writer option" where
  "writer_of_dc dc w = (case map_of (ws_index w) dc of None \<Rightarrow> None | Some topic \<Rightarrow> map_of (ws_map w) topic)"

definition writer_start :: "bool \<Rightarrow> writer \<Rightarrow> wr_effect list \<times> writer" where
  "writer_start can_pub r =
     (if wr_pub r then ([], r)
      else if can_pub then ([Create_publisher (wr_topic r) (wr_msg_type r)], r\<lparr>wr_pub := True\<rparr>) else ([], r))"

definition writer_stop :: "bool \<Rightarrow> writer \<Rightarrow> wr_effect list \<times> writer" where
  "writer_stop ok r =
     (if \<not> wr_pub r \<or> \<not> ok then ([], r) else ([Remove_publisher (wr_topic r)], r\<lparr>wr_pub := False\<rparr>))"

definition add_input :: "bool \<Rightarrow> nat \<Rightarrow> writer \<Rightarrow> bool \<times> wr_effect list \<times> writer" where
  "add_input can_pub dc r =
     (if dc \<in> in_dc ` set (wr_inputs r) then (False, [], r)
      else (True, writer_start can_pub (r\<lparr>wr_inputs := wr_inputs r @
              [\<lparr>in_dc = dc, in_num_received = 0, in_logged_receiving = False\<rparr>]\<rparr>)))"

definition addInput :: "bool \<Rightarrow> string \<Rightarrow> nat \<Rightarrow> writers \<Rightarrow> bool \<times> wr_effect list \<times> writers" where
  "addInput can_pub topic dc w =
     (case map_of (ws_map w) topic of None \<Rightarrow> (False, [], w)
      | Some r \<Rightarrow>
          let (added, out, r') = add_input can_pub dc r
          in if added
             then (True, out, w\<lparr>ws_map := mput topic r' (ws_map w), ws_index := memplace dc topic (ws_index w)\<rparr>)
             else (False, out, w))"

fun drop_input :: "nat \<Rightarrow> dc_input list \<Rightarrow> dc_input list" where
  "drop_input dc [] = []"
| "drop_input dc (x # xs) = (if in_dc x = dc then xs else x # drop_input dc xs)"

definition remove_input :: "bool \<Rightarrow> nat \<Rightarrow> writer \<Rightarrow> bool \<times> wr_effect list \<times> writer" where
  "remove_input ok dc r =
     (if dc \<notin> in_dc ` set (wr_inputs r) then (False, [], r)
      else let r' = r\<lparr>wr_inputs := drop_input dc (wr_inputs r)\<rparr>
           in if wr_inputs r' = [] then (True, writer_stop ok r') else (True, [], r'))"

definition removeInput :: "bool \<Rightarrow> string \<Rightarrow> nat \<Rightarrow> writers \<Rightarrow> bool \<times> wr_effect list \<times> writers" where
  "removeInput ok topic dc w =
     (case map_of (ws_map w) topic of None \<Rightarrow> (False, [], w)
      | Some r \<Rightarrow>
          let (removed, out, r') = remove_input ok dc r
          in if removed
             then (True, out, w\<lparr>ws_map := mput topic r' (ws_map w), ws_index := mdel dc (ws_index w)\<rparr>)
             else (False, out, w))"

fun count_received :: "nat \<Rightarrow> dc_input list \<Rightarrow> dc_input list" where
  "count_received dc [] = []"
| "count_received dc (x # xs) =
     (if in_dc x = dc then x\<lparr>in_num_received := in_num_received x + 1, in_logged_receiving := True\<rparr> # xs
      else x # count_received dc xs)"

text \<open>What a data channel delivers; the result says whether it was handled.\<close>

definition writer_onData :: "nat \<Rightarrow> dc_message \<Rightarrow> writers \<Rightarrow> bool \<times> wr_effect list \<times> writers" where
  "writer_onData dc m w =
     (case m of
        Text_data _ \<Rightarrow> (False, [], w)
      | Binary_data bin \<Rightarrow>
          (case map_of (ws_index w) dc of None \<Rightarrow> (False, [], w)
           | Some topic \<Rightarrow>
               (case map_of (ws_map w) topic of None \<Rightarrow> (False, [], w)
                | Some r \<Rightarrow>
                    (True, (if wr_pub r then [Publish (wr_topic r) bin, Flash_data] else []),
                     w\<lparr>ws_map := mput topic (r\<lparr>wr_inputs := count_received dc (wr_inputs r)\<rparr>) (ws_map w)\<rparr>))))"

section \<open>Writers as channel sets\<close>

lemma chans_drop_input: "map in_dc (drop_input dc xs) = remove1 dc (map in_dc xs)"
  by (induction xs) auto

lemma writer_fields [simp]: "wr_inputs (snd (writer_stop ok r)) = wr_inputs r"
  "wr_inputs (snd (writer_start b r)) = wr_inputs r" "wr_topic (snd (writer_stop ok r)) = wr_topic r"
  "wr_topic (snd (writer_start b r)) = wr_topic r"
  by (simp_all add: writer_stop_def writer_start_def)

lemma drop_input_absent: "dc \<notin> in_dc ` set xs \<Longrightarrow> drop_input dc xs = xs"
  by (induction xs) auto

interpretation wr: channel_set "\<lambda>r. map in_dc (wr_inputs r)" "\<lambda>r. wr_pub r \<and> wr_inputs r \<noteq> []"
  "\<lambda>dc r. snd (snd (add_input can_pub dc r))" "\<lambda>dc r. snd (snd (remove_input True dc r))" for can_pub
  by unfold_locales
    (auto simp: add_input_def remove_input_def chans_drop_input [symmetric] writer_stop_def Let_def drop_input_absent
      split: if_splits)

section \<open>The index agrees with the writers\<close>

text \<open>
  Every writer is registered under its topic with distinct channels, and the index maps a channel to
  a writer exactly if the writer has the channel.
\<close>

definition writers_ok :: "writers \<Rightarrow> bool" where
  "writers_ok w = (omap_ok (ws_map w) \<and> omap_ok (ws_index w) \<and>
     (\<forall>t r. map_of (ws_map w) t = Some r \<longrightarrow> wr_topic r = t \<and> distinct (map in_dc (wr_inputs r))) \<and>
     (\<forall>dc t. map_of (ws_index w) dc = Some t \<longleftrightarrow>
        (\<exists>r. map_of (ws_map w) t = Some r \<and> dc \<in> in_dc ` set (wr_inputs r))))"

datatype wr_call =
    W_get string string
  | W_add bool string nat
  | W_remove bool string nat
  | W_data nat dc_message

fun wr_step :: "wr_call \<Rightarrow> writers \<Rightarrow> (wr_effect list \<times> writers) res" where
  "wr_step (W_get topic ty) w = Inr ([], get_writer topic ty w)"
| "wr_step (W_add can_pub topic dc) w =
     Inr (snd (addInput can_pub topic dc w))"
| "wr_step (W_remove ok topic dc) w = Inr (snd (removeInput ok topic dc w))"
| "wr_step (W_data dc m) w = Inr (snd (writer_onData dc m w))"

text \<open>How peers use the writers: they open a new channel for every topic, so a channel is only ever added for one.\<close>

definition feeds_one :: "(nat \<Rightarrow> string) \<Rightarrow> wr_call \<Rightarrow> bool" where
  "feeds_one f c = (case c of W_add b t dc \<Rightarrow> t = f dc | _ \<Rightarrow> True)"

definition routed :: "(nat \<Rightarrow> string) \<Rightarrow> writers \<Rightarrow> bool" where
  "routed f w = (writers_ok w \<and> (\<forall>dc t. map_of (ws_index w) dc = Some t \<longrightarrow> t = f dc))"

lemma count_received_chans [simp]: "map in_dc (count_received dc xs) = map in_dc xs"
  by (induction xs) auto

lemma count_received_set [simp]: "in_dc ` set (count_received dc xs) = in_dc ` set xs"
  by (metis count_received_chans list.set_map)

lemma writers_ok_update:
  assumes "writers_ok w" "map_of (ws_map w) t = Some r" "wr_topic r' = t" "distinct (map in_dc (wr_inputs r'))"
    and "in_dc ` set (wr_inputs r') = in_dc ` set (wr_inputs r)"
  shows "writers_ok (w\<lparr>ws_map := mput t r' (ws_map w)\<rparr>)"
  using assms by (auto simp: writers_ok_def)

lemma writers_ok_get: "writers_ok w \<Longrightarrow> writers_ok (get_writer topic ty w)"
  by (auto simp: writers_ok_def get_writer_def new_writer_def map_of_memplace mhas_def)

lemma writers_ok_add:
  assumes ok: "writers_ok w" and free: "map_of (ws_index w) dc \<in> {None, Some topic}"
  shows "writers_ok (snd (snd (addInput can_pub topic dc w)))"
proof (cases "map_of (ws_map w) topic")
  case None
  with ok show ?thesis by (simp add: addInput_def)
next
  case (Some r)
  show ?thesis
  proof (cases "dc \<in> in_dc ` set (wr_inputs r)")
    case True
    with ok Some show ?thesis by (simp add: addInput_def add_input_def)
  next
    case False
    have noidx: "map_of (ws_index w) dc = None"
    proof (rule ccontr)
      assume "map_of (ws_index w) dc \<noteq> None"
      with free have "map_of (ws_index w) dc = Some topic" by auto
      with ok Some False show False by (auto simp: writers_ok_def)
    qed
    have nowhere: "dc \<notin> in_dc ` set (wr_inputs r2)" if "map_of (ws_map w) t2 = Some r2" for t2 r2
    proof
      assume "dc \<in> in_dc ` set (wr_inputs r2)"
      with ok that have "map_of (ws_index w) dc = Some t2" unfolding writers_ok_def by blast
      with noidx show False by simp
    qed
    let ?r = "snd (writer_start can_pub (r\<lparr>wr_inputs := wr_inputs r @ [\<lparr>in_dc = dc, in_num_received = 0, in_logged_receiving = False\<rparr>]\<rparr>))"
    have r: "wr_inputs ?r = wr_inputs r @ [\<lparr>in_dc = dc, in_num_received = 0, in_logged_receiving = False\<rparr>]" "wr_topic ?r = topic"
      using ok Some by (auto simp: writers_ok_def)
    have w: "snd (snd (addInput can_pub topic dc w)) =
        w\<lparr>ws_map := mput topic ?r (ws_map w), ws_index := memplace dc topic (ws_index w)\<rparr>"
      using Some False by (simp add: addInput_def add_input_def split_beta Let_def)
    have mem: "map_of (memplace dc topic (ws_index w)) = (map_of (ws_index w))(dc \<mapsto> topic)"
      using noidx by (simp add: map_of_memplace mhas_def)
    show ?thesis unfolding w writers_ok_def
      using ok r mem False nowhere Some by (auto simp: writers_ok_def)
  qed
qed

lemma writers_ok_remove:
  assumes ok: "writers_ok w"
  shows "writers_ok (snd (snd (removeInput b topic dc w)))"
proof (cases "map_of (ws_map w) topic")
  case None
  with ok show ?thesis by (simp add: removeInput_def)
next
  case (Some r)
  show ?thesis
  proof (cases "dc \<in> in_dc ` set (wr_inputs r)")
    case False
    with ok Some show ?thesis by (simp add: removeInput_def remove_input_def)
  next
    case True
    let ?d = "r\<lparr>wr_inputs := drop_input dc (wr_inputs r)\<rparr>"
    let ?r = "if wr_inputs ?d = [] then snd (writer_stop b ?d) else ?d"
    have w: "snd (snd (removeInput b topic dc w)) =
        w\<lparr>ws_map := mput topic ?r (ws_map w), ws_index := mdel dc (ws_index w)\<rparr>"
      using Some True by (simp add: removeInput_def remove_input_def split_beta Let_def)
    have d: "distinct (map in_dc (wr_inputs r))" "wr_topic r = topic" using ok Some by (auto simp: writers_ok_def)
    have ci: "map in_dc (wr_inputs ?r) = remove1 dc (map in_dc (wr_inputs r))" by (simp add: chans_drop_input [symmetric])
    have cs: "in_dc ` set (wr_inputs ?r) = in_dc ` set (wr_inputs r) - {dc}"
    proof -
      have "set (map in_dc (wr_inputs ?r)) = set (map in_dc (wr_inputs r)) - {dc}"
        unfolding ci using d(1) by (rule set_remove1_eq)
      then show ?thesis by (simp only: list.set_map)
    qed
    have dr: "distinct (map in_dc (wr_inputs ?r))" "wr_topic ?r = topic" using d ci by auto
    have only: "t2 = topic" if "map_of (ws_map w) t2 = Some r2" "dc \<in> in_dc ` set (wr_inputs r2)" for t2 r2
    proof -
      have "map_of (ws_index w) dc = Some t2" "map_of (ws_index w) dc = Some topic"
        using ok that Some True unfolding writers_ok_def by blast+
      then show ?thesis by simp
    qed
    let ?w = "w\<lparr>ws_map := mput topic ?r (ws_map w), ws_index := mdel dc (ws_index w)\<rparr>"
    have idx: "map_of (ws_index ?w) c = Some t \<longleftrightarrow> (\<exists>r. map_of (ws_map ?w) t = Some r \<and> c \<in> in_dc ` set (wr_inputs r))" for c t
    proof (cases "t = topic")
      case True
      have "map_of (ws_index w) c = Some topic \<longleftrightarrow> c \<in> in_dc ` set (wr_inputs r)"
        using ok Some unfolding writers_ok_def by auto
      then show ?thesis using True cs by auto
    next
      case False
      have "map_of (ws_index w) c = Some t \<longleftrightarrow> (\<exists>r. map_of (ws_map w) t = Some r \<and> c \<in> in_dc ` set (wr_inputs r))"
        using ok unfolding writers_ok_def by blast
      then show ?thesis using False only by auto
    qed
    have reg: "wr_topic r2 = t \<and> distinct (map in_dc (wr_inputs r2))" if "map_of (ws_map ?w) t = Some r2" for t r2
      using that ok dr unfolding writers_ok_def by (auto split: if_splits)
    show ?thesis unfolding w using ok idx reg unfolding writers_ok_def by (auto simp del: map_of_mput map_of_mdel)
  qed
qed

lemma writers_ok_data:
  assumes ok: "writers_ok w"
  shows "writers_ok (snd (snd (writer_onData dc m w)))"
proof (cases "\<exists>bin topic r. m = Binary_data bin \<and> map_of (ws_index w) dc = Some topic \<and> map_of (ws_map w) topic = Some r")
  case True
  then obtain bin topic r where r: "m = Binary_data bin" "map_of (ws_index w) dc = Some topic" "map_of (ws_map w) topic = Some r"
    by blast
  have "wr_topic r = topic" "distinct (map in_dc (wr_inputs r))" using ok r(3) by (auto simp: writers_ok_def)
  with r show ?thesis using writers_ok_update [OF ok r(3)] by (simp add: writer_onData_def)
next
  case False
  then have "snd (snd (writer_onData dc m w)) = w"
    by (auto simp: writer_onData_def split: dc_message.splits option.splits)
  with ok show ?thesis by simp
qed

lemma index_add: "map_of (ws_index (snd (snd (addInput can_pub topic dc w)))) d =
    (if d = dc \<and> map_of (ws_index w) dc = None \<and> fst (addInput can_pub topic dc w) then Some topic else map_of (ws_index w) d)"
  by (auto simp: addInput_def add_input_def map_of_memplace mhas_def split_beta Let_def split: option.splits)

lemma index_remove: "map_of (ws_index (snd (snd (removeInput ok topic dc w)))) d \<in> {None, map_of (ws_index w) d}"
  by (auto simp: removeInput_def remove_input_def split_beta Let_def split: option.splits)

lemma index_same: "ws_index (get_writer topic ty w) = ws_index w" "ws_index (snd (snd (writer_onData dc m w))) = ws_index w"
  by (auto simp: get_writer_def writer_onData_def split: dc_message.splits option.splits)

lemma routed_step:
  assumes "routed f w" "feeds_one f c" "wr_step c w = Inr (out, w')"
  shows "routed f w'"
proof (cases c)
  case (W_get t ty)
  with assms show ?thesis by (auto simp: routed_def index_same writers_ok_get)
next
  case (W_add b t dc)
  with assms(2) have t: "t = f dc" by (simp add: feeds_one_def)
  from W_add assms(3) have w': "w' = snd (snd (addInput b t dc w))" by (cases "snd (addInput b t dc w)") auto
  have "map_of (ws_index w) dc \<in> {None, Some t}" using assms(1) t by (cases "map_of (ws_index w) dc") (auto simp: routed_def)
  with assms(1) t show ?thesis unfolding w' by (auto simp: routed_def writers_ok_add index_add split: if_splits)
next
  case (W_remove ok t dc)
  then have w': "w' = snd (snd (removeInput ok t dc w))" using assms(3) by (cases "snd (removeInput ok t dc w)") auto
  have "map_of (ws_index w') d = Some u \<Longrightarrow> map_of (ws_index w) d = Some u" for d u
    using index_remove [of ok t dc w d] by (auto simp: w')
  with assms(1) show ?thesis unfolding routed_def w' by (auto intro: writers_ok_remove)
next
  case (W_data dc m)
  then have w': "w' = snd (snd (writer_onData dc m w))" using assms(3) by (cases "snd (writer_onData dc m w)") auto
  from assms(1) show ?thesis unfolding w' by (auto simp: routed_def index_same writers_ok_data)
qed

interpretation wr_machine: event_machine "restrict_calls (feeds_one f) wr_step" "routed f" for f
proof
  fix w c out w' assume "routed f w" "restrict_calls (feeds_one f) wr_step c w = Inr (out, w')"
  then show "routed f w'" using routed_step by (auto simp: restrict_calls_def split: if_splits)
qed

text \<open>What happens to a channel that is added for a second topic: it is an input of both, and routed to the first.\<close>

lemma second_topic_not_routed:
  "(let w1 = snd (snd (addInput True ''/a'' 1 (get_writer ''/a'' ''T'' no_writers)));
        w2 = snd (snd (addInput True ''/b'' 1 (get_writer ''/b'' ''T'' w1)))
    in (map (\<lambda>(t, r). (t, map in_dc (wr_inputs r))) (ws_map w2), map_of (ws_index w2) 1)) =
   ([(''/a'', [1]), (''/b'', [1])], Some ''/a'')"
  by code_simp



end
