(* ===== verification/Video.thy ===== *)
theory Video
  imports DataReader "HOL-Library.Sublist"
begin

unbundle bit_operations_syntax

text \<open>
  \<open>src/topic_reader_h264.cpp\<close>: the readers of video topics, their outputs (a media track of a peer and a
  queue of frames served by a worker thread), the presentation time a frame gets, and the splitting of
  a frame into NAL units. A track is a number; its state is in a store, because the peer and the
  output share it. The encoder, the clock and the random numbers are arguments.
\<close>

section \<open>NAL units\<close>

type_synonym bytes = "8 word list"

definition code3 :: "bytes \<Rightarrow> nat \<Rightarrow> bool" where
  "code3 d i = (i \<ge> 2 \<and> d ! i = 1 \<and> d ! (i - 1) = 0 \<and> d ! (i - 2) = 0)"

definition code4 :: "bytes \<Rightarrow> nat \<Rightarrow> bool" where
  "code4 d i = (i \<ge> 3 \<and> d ! i = 1 \<and> d ! (i - 1) = 0 \<and> d ! (i - 2) = 0 \<and> d ! (i - 3) = 0)"

text \<open>
  One turn of the loop: \<open>start\<close> and the units so far. \<open>data[i-3]\<close> is read whenever a code ends a unit;
  for \<open>i = 2\<close> that would be out of bounds.
\<close>

definition nal_turn :: "bytes \<Rightarrow> nat \<Rightarrow> nat \<times> bytes list \<Rightarrow> (nat \<times> bytes list) res" where
  "nal_turn d i st =
     (let (start, units) = st
      in if code4 d i \<or> code3 d i then
           if start > 0 then
             if i < 3 then Inl Ub
             else let nalStart = (if d ! (i - 3) = 0 then i - 3 else i - 2)
                  in if nalStart < start then Inl Ub
                     else Inr (i + 1, units @ [take (nalStart - start) (drop start d)])
           else Inr (i + 1, units)
         else Inr (start, units))"

definition splitNalUnits :: "bytes \<Rightarrow> bytes list res" where
  "splitNalUnits d =
     bindR (foldR (nal_turn d) [0..<length d] (0, [])) (\<lambda>(start, units).
       Inr (if start < length d then units @ [drop start d] else units))"

definition nal_type :: "8 word \<Rightarrow> 8 word" where
  "nal_type b = b AND 0x1F"

definition hasSpsPps :: "bytes list \<Rightarrow> bool" where
  "hasSpsPps units = (\<exists>u\<in>set units. u \<noteq> [] \<and> (nal_type (hd u) = 7 \<or> nal_type (hd u) = 8))"

section \<open>State\<close>

record track =
  tk_pc :: nat
  tk_msid :: string
  tk_ssrc :: "32 word"
  tk_in_use :: bool
  tk_init_complete :: bool
  tk_start_timestamp :: "32 word"
  tk_timestamp :: "32 word"

type_synonym tracks = "(nat, track) omap"

record frame =
  fr_ts :: "64 word"
  fr_key :: bool
  fr_data :: bytes

record voutput =
  vo_track :: nat
  vo_base :: "64 word"
  vo_num_sent :: "16 word"
  vo_ts_first :: "64 word"
  vo_ts_offset :: "64 word"
  vo_last_raw :: "64 word"
  vo_start_ts_set :: bool
  vo_logged_closed :: bool
  vo_logged_init_incomplete :: bool
  vo_logged_exception :: bool
  vo_queue :: "frame list"

record encoder =
  en_width :: nat
  en_height :: nat
  en_encoding :: string

datatype vsub = Sub_encoded | Sub_image | Sub_compressed

record vreader =
  vr_topic :: string
  vr_msg_type :: string
  vr_use_pts :: bool
  vr_debug_num_frames :: int
  vr_create_node :: bool
  vr_running :: bool
  vr_has_node :: bool
  vr_spinning :: bool
  vr_node_no :: nat
  vr_sub :: "vsub option"
  vr_outputs :: "voutput list"
  vr_encoder :: "encoder option"
  vr_encoder_error :: bool
  vr_logged_error :: bool

record video =
  vd_readers :: "(string, vreader) omap"
  vd_tracks :: tracks
  vd_next :: nat

datatype v_effect =
    Send_frame nat "32 word" bytes
  | V_subscribe vsub string
  | V_unsubscribe string
  | Make_encoder encoder
  | Encode bytes
  | V_led_once
  | Close_track nat

section \<open>Readers\<close>

definition no_video :: video where
  "no_video = \<lparr>vd_readers = [], vd_tracks = [], vd_next = 0\<rparr>"

text \<open>The constructor reads the topic's configuration with \<open>at\<close> and the typed getters.\<close>

definition conf_at :: "message \<Rightarrow> string \<Rightarrow> message res" where
  "conf_at conf key = bindR (get_map conf) (\<lambda>m. bindR (mat m key) deref)"

definition new_vreader :: "(64 word \<Rightarrow> 64 word) \<Rightarrow> string \<Rightarrow> string \<Rightarrow> bool \<Rightarrow> message \<Rightarrow> vreader res" where
  "new_vreader conv topic msg_type own_node conf =
     bindR (bindR (conf_at conf ''use_pts'') get_bool) (\<lambda>pts.
     bindR (bindR (conf_at conf ''debug_verbose'') get_bool) (\<lambda>_.
     bindR (bindR (conf_at conf ''debug_num_frames'') get_int) (\<lambda>dbg.
     bindR (if isImageType msg_type then
              bindR (bindR (conf_at conf ''colormap'') get_int) (\<lambda>_.
              bindR (bindR (conf_at conf ''max_sensor_value'') (get_double conv)) (\<lambda>_.
              bindR (bindR (conf_at conf ''encoder_hw_device'') get_string) (\<lambda>_.
              bindR (bindR (conf_at conf ''encoder_thread_count'') get_int) (\<lambda>_.
              bindR (bindR (conf_at conf ''encoder_gop_size'') get_int) (\<lambda>_.
              bindR (bindR (conf_at conf ''encoder_bit_rate'') get_int) (\<lambda>_. Inr ()))))))
            else Inr ()) (\<lambda>_.
       Inr \<lparr>vr_topic = topic, vr_msg_type = msg_type, vr_use_pts = pts,
            vr_debug_num_frames = sint (ucast dbg :: 32 word), vr_create_node = own_node, vr_running = False,
            vr_has_node = (\<not> own_node), vr_spinning = False,
            vr_node_no = 0, vr_sub = None, vr_outputs = [], vr_encoder = None, vr_encoder_error = False,
            vr_logged_error = False\<rparr>))))"

definition get_vreader :: "(64 word \<Rightarrow> 64 word) \<Rightarrow> string \<Rightarrow> string \<Rightarrow> bool \<Rightarrow> message \<Rightarrow> video \<Rightarrow> video res" where
  "get_vreader conv topic msg_type own_node conf v =
     (if mhas (vd_readers v) topic then Inr v
      else bindR (new_vreader conv topic msg_type own_node conf) (\<lambda>r.
             Inr (v\<lparr>vd_readers := memplace topic r (vd_readers v)\<rparr>)))"

text \<open>\<open>start\<close>: a node of its own gets the next number after the highest in use.\<close>

definition next_node_no :: "(string, vreader) omap \<Rightarrow> nat" where
  "next_node_no rs = fold (\<lambda>(_, r) h. if vr_node_no r \<ge> h then vr_node_no r + 1 else h) rs 1"

definition sub_kind :: "string \<Rightarrow> vsub option" where
  "sub_kind msg_type =
     (if isEncodedVideoType msg_type then Some Sub_encoded
      else if isImageType msg_type then Some Sub_image
      else if isCompressedImageType msg_type then Some Sub_compressed else None)"

text \<open>\<open>can_sub\<close>: making the subscription does not throw. Only then, and only with a node of its own, does the
  reader get a thread that spins (\<open>spinSubscriber\<close>).\<close>

definition vreader_start :: "bool \<Rightarrow> (string, vreader) omap \<Rightarrow> vreader \<Rightarrow> v_effect list \<times> vreader" where
  "vreader_start can_sub rs r =
     (if vr_running r then ([], r)
      else let r = r\<lparr>vr_running := True\<rparr>;
               r = (if vr_create_node r then r\<lparr>vr_node_no := next_node_no rs, vr_has_node := True\<rparr> else r)
           in (case sub_kind (vr_msg_type r) of None \<Rightarrow> ([], r)
               | Some k \<Rightarrow>
                   if can_sub
                   then ([V_subscribe k (vr_topic r)], r\<lparr>vr_sub := Some k, vr_spinning := vr_create_node r\<rparr>)
                   else ([], r\<lparr>vr_sub := None\<rparr>)))"

text \<open>The end of the spinning thread: only as long as ROS runs it lets the subscription and the node go.\<close>

definition spin_end :: "bool \<Rightarrow> vreader \<Rightarrow> v_effect list \<times> vreader" where
  "spin_end ok r =
     (if \<not> vr_spinning r then ([], r)
      else if ok then (if vr_sub r \<noteq> None then [V_unsubscribe (vr_topic r)] else [],
                       r\<lparr>vr_sub := None, vr_has_node := False, vr_spinning := False\<rparr>)
      else ([], r\<lparr>vr_spinning := False\<rparr>))"

text \<open>\<open>stop\<close> waits until the node is gone; \<open>None\<close> if that never happens.\<close>

definition vreader_stop :: "bool \<Rightarrow> vreader \<Rightarrow> (v_effect list \<times> vreader) option" where
  "vreader_stop ok r =
     (let wait = vr_running r \<and> vr_create_node r;
          r = r\<lparr>vr_running := False\<rparr>;
          (out, r) = (if wait then spin_end ok r else ([], r))
      in if wait \<and> vr_has_node r then None
         else Some (out, r\<lparr>vr_outputs := [], vr_encoder := None\<rparr>))"

text \<open>\<open>destroy\<close>: the destructor calls \<open>stop\<close>; a subscription still held ends with its member.\<close>

definition destroy_vreader :: "bool \<Rightarrow> string \<Rightarrow> video \<Rightarrow> (v_effect list \<times> video) option" where
  "destroy_vreader ok topic v =
     (case map_of (vd_readers v) topic of None \<Rightarrow> Some ([], v)
      | Some r \<Rightarrow>
          (case vreader_stop ok r of None \<Rightarrow> None
           | Some (out, r') \<Rightarrow>
               Some (out @ (if vr_sub r' \<noteq> None then [V_unsubscribe topic] else []),
                     v\<lparr>vd_readers := mdel topic (vd_readers v)\<rparr>)))"

definition new_voutput :: "nat \<Rightarrow> 64 word \<Rightarrow> voutput" where
  "new_voutput t base = \<lparr>vo_track = t, vo_base = base, vo_num_sent = 0, vo_ts_first = 0, vo_ts_offset = 0,
     vo_last_raw = 0, vo_start_ts_set = False, vo_logged_closed = False, vo_logged_init_incomplete = False,
     vo_logged_exception = False, vo_queue = []\<rparr>"

definition add_voutput :: "bool \<Rightarrow> string \<Rightarrow> nat \<Rightarrow> 64 word \<Rightarrow> video \<Rightarrow> bool \<times> v_effect list \<times> video" where
  "add_voutput can_sub topic t base v =
     (case map_of (vd_readers v) topic of None \<Rightarrow> (False, [], v)
      | Some r \<Rightarrow>
          let (out, r) = vreader_start can_sub (vd_readers v) r;
              present = t \<in> vo_track ` set (vr_outputs r);
              r = (if present then r else r\<lparr>vr_outputs := vr_outputs r @ [new_voutput t base]\<rparr>)
          in (\<not> present, out, v\<lparr>vd_readers := mput topic r (vd_readers v)\<rparr>))"

fun drop_track :: "nat \<Rightarrow> voutput list \<Rightarrow> voutput list" where
  "drop_track t [] = []"
| "drop_track t (x # xs) = (if vo_track x = t then xs else x # drop_track t xs)"

definition remove_voutput :: "string \<Rightarrow> nat \<Rightarrow> video \<Rightarrow> bool \<times> video" where
  "remove_voutput topic t v =
     (case map_of (vd_readers v) topic of None \<Rightarrow> (False, v)
      | Some r \<Rightarrow>
          let r' = r\<lparr>vr_outputs := drop_track t (vr_outputs r)\<rparr>
          in (vr_outputs r' = [], v\<lparr>vd_readers := mput topic r' (vd_readers v)\<rparr>))"

section \<open>Tracks\<close>

text \<open>The number of the new track and its identifiers are drawn outside.\<close>

definition open_track :: "nat \<Rightarrow> 32 word \<Rightarrow> string \<Rightarrow> video \<Rightarrow> nat \<times> video" where
  "open_track pc ssrc msid v =
     (vd_next v,
      v\<lparr>vd_next := Suc (vd_next v),
        vd_tracks := mput (vd_next v) \<lparr>tk_pc = pc, tk_msid = msid, tk_ssrc = ssrc, tk_in_use = True,
          tk_init_complete = False, tk_start_timestamp = 0, tk_timestamp = 0\<rparr> (vd_tracks v)\<rparr>)"

definition close_track :: "(nat \<Rightarrow> bool) \<Rightarrow> nat \<Rightarrow> v_effect list" where
  "close_track is_open t = (if is_open t then [Close_track t] else [])"

definition set_in_use :: "bool \<Rightarrow> nat \<Rightarrow> video \<Rightarrow> video" where
  "set_in_use b t v =
     (case map_of (vd_tracks v) t of None \<Rightarrow> v
      | Some k \<Rightarrow> v\<lparr>vd_tracks := mput t (k\<lparr>tk_in_use := b\<rparr>) (vd_tracks v)\<rparr>)"

definition tracks_complete :: "bool \<Rightarrow> nat list \<Rightarrow> video \<Rightarrow> video" where
  "tracks_complete is_stable ts v =
     (if is_stable
      then v\<lparr>vd_tracks := map (\<lambda>(t, k). (t, if t \<in> set ts then k\<lparr>tk_init_complete := True\<rparr> else k)) (vd_tracks v)\<rparr>
      else v)"

section \<open>Frames\<close>

text \<open>\<open>ts\<close> is an \<open>uint\<close> that is then stored as 64 bits.\<close>

definition frame_ts :: "bool \<Rightarrow> 64 word \<Rightarrow> 32 word \<Rightarrow> 32 word \<Rightarrow> 64 word" where
  "frame_ts use_pts pts sec nanosec =
     ucast (ucast (if use_pts then pts else convertToRtpTimestamp sec nanosec) :: 32 word)"

text \<open>Whether an output takes the frame, and its log flags.\<close>

definition offer_frame :: "(nat \<Rightarrow> bool) \<Rightarrow> tracks \<Rightarrow> frame \<Rightarrow> voutput \<Rightarrow> (bool \<times> voutput) res" where
  "offer_frame is_open ts f x =
     (if vo_num_sent x = 0 \<and> \<not> fr_key f then Inr (False, x)
      else bindR (mat ts (vo_track x)) (\<lambda>k.
        if \<not> tk_init_complete k then Inr (False, x\<lparr>vo_logged_init_incomplete := True\<rparr>)
        else if \<not> is_open (vo_track x) then Inr (False, x\<lparr>vo_logged_closed := True\<rparr>)
        else Inr (True, x\<lparr>vo_queue := vo_queue x @ [f]\<rparr>)))"

definition onEncodedFrame ::
  "(nat \<Rightarrow> bool) \<Rightarrow> tracks \<Rightarrow> bool \<Rightarrow> 64 word \<Rightarrow> 32 word \<Rightarrow> 32 word \<Rightarrow> bytes \<Rightarrow> vreader \<Rightarrow> (v_effect list \<times> vreader) res" where
  "onEncodedFrame is_open ts key pts sec nanosec d r =
     (if \<not> vr_running r then Inr ([], r)
      else bindR (if vr_debug_num_frames r > 0 then bindR (splitNalUnits d) (\<lambda>_. Inr ()) else Inr ()) (\<lambda>_.
           bindR (mapR (offer_frame is_open ts \<lparr>fr_ts = frame_ts (vr_use_pts r) pts sec nanosec, fr_key = key, fr_data = d\<rparr>)
                    (vr_outputs r)) (\<lambda>res.
             Inr (if \<exists>x\<in>set res. fst x then [V_led_once] else [],
                  r\<lparr>vr_outputs := map snd res,
                    vr_debug_num_frames := (if vr_debug_num_frames r > 0 then vr_debug_num_frames r - 1 else vr_debug_num_frames r)\<rparr>))))"

text \<open>
  The worker takes a frame from its queue: \<open>now\<close> is the RTP time of the clock. The time sent to the
  client counts from the moment its peer connected, and follows the time of the frames.
\<close>

definition stamp_frame :: "64 word \<Rightarrow> frame \<Rightarrow> voutput \<Rightarrow> 64 word \<times> voutput" where
  "stamp_frame now f x =
     (let x = x\<lparr>vo_ts_first := (if fr_ts f \<le> vo_last_raw x then 0 else vo_ts_first x), vo_last_raw := fr_ts f\<rparr>
      in if vo_ts_first x = 0
         then (now - vo_base x, x\<lparr>vo_ts_first := fr_ts f, vo_ts_offset := now, vo_start_ts_set := True\<rparr>)
         else ((fr_ts f - vo_ts_first x) + vo_ts_offset x - vo_base x, x))"

definition sent_frame :: "send_result \<Rightarrow> voutput \<Rightarrow> voutput" where
  "sent_frame res x =
     (if res = Threw_runtime \<or> res = Threw_invalid then x\<lparr>vo_logged_exception := True\<rparr>
      else x\<lparr>vo_num_sent := vo_num_sent x + 1, vo_logged_closed := False, vo_logged_init_incomplete := False,
             vo_logged_exception := False\<rparr>)"

definition worker_turn ::
  "64 word \<Rightarrow> send_result \<Rightarrow> voutput \<Rightarrow> track \<Rightarrow> v_effect list \<times> voutput \<times> track" where
  "worker_turn now res x k =
     (case vo_queue x of [] \<Rightarrow> ([], x, k)
      | f # q \<Rightarrow>
          let fresh = \<not> vo_start_ts_set x;
              (pts, y) = stamp_frame now f (x\<lparr>vo_queue := q\<rparr>);
              k = (if fresh \<and> vo_start_ts_set y then k\<lparr>tk_start_timestamp := ucast (vo_base x)\<rparr> else k);
              k = k\<lparr>tk_timestamp := ucast pts\<rparr>
          in ([Send_frame (vo_track x) (ucast pts) (fr_data f)], sent_frame res y, k))"

section \<open>Raw images\<close>

datatype pix_fmt = RGB24 | BGR24 | GRAY8

definition encoder_format :: "string \<Rightarrow> pix_fmt option" where
  "encoder_format enc =
     (if enc = ''rgb8'' then Some RGB24 else if enc = ''bgr8'' then Some BGR24
      else if enc = ''mono8'' \<or> enc = ''8uc1'' then Some GRAY8
      else if enc = ''16uc1'' \<or> enc = ''mono16'' then Some RGB24 else None)"

text \<open>
  \<open>can_make\<close>: an encoder for this size and encoding can be made; \<open>same\<close>: the present one fits;
  \<open>convert\<close>: the image as the encoder takes it.
\<close>

definition onImageFrame ::
  "(encoder \<Rightarrow> bool) \<Rightarrow> (encoder \<Rightarrow> encoder \<Rightarrow> bool) \<Rightarrow> (string \<Rightarrow> bytes \<Rightarrow> bytes) \<Rightarrow> nat \<Rightarrow> nat \<Rightarrow> string \<Rightarrow> bytes \<Rightarrow>
   vreader \<Rightarrow> v_effect list \<times> vreader" where
  "onImageFrame can_make same convert width height encoding d r =
     (if \<not> vr_running r \<or> d = [] \<or> vr_encoder_error r then ([], r)
      else let enc = strToLower encoding;
               want = \<lparr>en_width = width, en_height = height, en_encoding = enc\<rparr>;
               have = (case vr_encoder r of Some e \<Rightarrow> if same e want then Some e else None | None \<Rightarrow> None);
               r = r\<lparr>vr_encoder := have\<rparr>
           in case have of
                Some _ \<Rightarrow> ([Encode (convert enc d)], r)
              | None \<Rightarrow>
                  (case encoder_format enc of None \<Rightarrow> ([], r\<lparr>vr_logged_error := True\<rparr>)
                   | Some _ \<Rightarrow>
                       if can_make want
                       then ([Make_encoder want, Encode (convert enc d)], r\<lparr>vr_encoder := Some want, vr_use_pts := True\<rparr>)
                       else ([], r\<lparr>vr_encoder_error := True\<rparr>)))"

section \<open>Splitting a frame\<close>

text \<open>The loop over a prefix, one byte at a time.\<close>

definition nal_scan :: "bytes \<Rightarrow> (nat \<times> bytes list) res" where
  "nal_scan d = foldR (nal_turn d) [0..<length d] (0, [])"

lemma nal_scan_Nil [simp]: "nal_scan [] = Inr (0, [])"
  by (simp add: nal_scan_def)

lemma nal_turn_prefix: "i < length d \<Longrightarrow> nal_turn (d @ e) i st = nal_turn d i st"
  by (auto simp: nal_turn_def code3_def code4_def nth_append Let_def split: prod.splits)

lemma foldR_cong_set: "(\<And>x s. x \<in> set xs \<Longrightarrow> f x s = g x s) \<Longrightarrow> foldR f xs s = foldR g xs s"
  by (induction xs arbitrary: s) (auto simp: fun_eq_iff intro!: arg_cong [where f = "bindR _"])

lemma foldR_one: "foldR f [x] = f x"
proof
  fix s
  show "foldR f [x] s = f x s" by (cases "f x s") simp_all
qed

lemma nal_scan_snoc: "nal_scan (d @ [b]) = bindR (nal_scan d) (nal_turn (d @ [b]) (length d))"
proof -
  have "foldR (nal_turn (d @ [b])) [0..<length d] (0, []) = nal_scan d"
    unfolding nal_scan_def by (rule foldR_cong_set) (simp add: nal_turn_prefix)
  then show ?thesis by (simp add: nal_scan_def foldR_append foldR_one)
qed

text \<open>What holds after every byte: the current unit starts behind a start code.\<close>

definition scan_inv :: "bytes \<Rightarrow> nat \<Rightarrow> bool" where
  "scan_inv d start = (start \<le> length d \<and> (start = 0 \<or> (start \<ge> 3 \<and> d ! (start - 1) = 1)))"

lemma nal_turn_ok:
  assumes "scan_inv d start"
  shows "\<exists>start' us'. nal_turn (d @ [b]) (length d) (start, us) = Inr (start', us') \<and> scan_inv (d @ [b]) start'"
proof (cases "code3 (d @ [b]) (length d)")
  case False
  then have "\<not> code4 (d @ [b]) (length d)" by (auto simp: code3_def code4_def)
  with False assms show ?thesis by (auto simp: nal_turn_def scan_inv_def nth_append)
next
  case True
  then have c: "length d \<ge> 2" "b = 1" "d ! (length d - 1) = 0" "d ! (length d - 2) = 0"
    by (auto simp: code3_def nth_append split: if_splits)
  show ?thesis
  proof (cases "start = 0")
    case True
    with \<open>code3 (d @ [b]) (length d)\<close> c show ?thesis by (auto simp: nal_turn_def scan_inv_def)
  next
    case False
    with assms have s: "start \<le> length d" "start \<ge> 3" "d ! (start - 1) = 1" by (auto simp: scan_inv_def)
    have "start - 1 \<noteq> length d - 1" "start - 1 \<noteq> length d - 2" using c s by auto
    with s have le: "start \<le> length d - 2" by auto
    have "d ! (length d - 3) = 0 \<Longrightarrow> start - 1 \<noteq> length d - 3" using s by auto
    with s le have "d ! (length d - 3) = 0 \<Longrightarrow> start \<le> length d - 3" by fastforce
    with le s False True c show ?thesis
      by (auto simp: nal_turn_def scan_inv_def nth_append Let_def)
  qed
qed

lemma nal_scan_ok: "\<exists>start us. nal_scan d = Inr (start, us) \<and> scan_inv d start"
proof (induction d rule: rev_induct)
  case Nil
  then show ?case by (simp add: scan_inv_def)
next
  case (snoc b d)
  then obtain start us where "nal_scan d = Inr (start, us)" "scan_inv d start" by blast
  with nal_turn_ok [of d start b us] show ?case by (simp add: nal_scan_snoc)
qed

lemma nal_scan_quiet:
  "nal_scan d = Inr st \<Longrightarrow> (\<And>i. length d \<le> i \<Longrightarrow> i < length (d @ e) \<Longrightarrow> \<not> code3 (d @ e) i) \<Longrightarrow> nal_scan (d @ e) = Inr st"
proof (induction e rule: rev_induct)
  case Nil
  then show ?case by simp
next
  case (snoc b e)
  have "\<not> code3 (d @ e) i" if "length d \<le> i" "i < length (d @ e)" for i
    using snoc.prems(2) [of i] that by (auto simp: code3_def nth_append split: if_splits)
  with snoc have "nal_scan (d @ e) = Inr st" by blast
  moreover have "\<not> code3 ((d @ e) @ [b]) (length (d @ e))" using snoc.prems(2) [of "length (d @ e)"] by simp
  moreover have "\<not> code4 ((d @ e) @ [b]) (length (d @ e))" using calculation(2) by (auto simp: code3_def code4_def)
  ultimately show ?case
    using nal_scan_snoc [of "d @ e" b] by (simp add: nal_turn_def split: prod.splits)
qed

text \<open>Splitting never reads or copies out of bounds, whatever the bytes are.\<close>

theorem split_nal_in_bounds: "\<exists>us. splitNalUnits d = Inr us"
proof -
  obtain start us where "nal_scan d = Inr (start, us)" using nal_scan_ok by blast
  then show ?thesis by (simp add: splitNalUnits_def nal_scan_def)
qed

text \<open>A start code of four or three bytes before each unit (Annex B of H.264).\<close>

definition start_code :: "bool \<Rightarrow> bytes" where
  "start_code l = (if l then [0, 0, 0, 1] else [0, 0, 1])"

definition annexb :: "(bool \<times> bytes) list \<Rightarrow> bytes" where
  "annexb us = concat (map (\<lambda>(l, u). start_code l @ u) us)"

definition nal_ok :: "bytes \<Rightarrow> bool" where
  "nal_ok u = (u \<noteq> [] \<and> last u \<noteq> 0 \<and> (\<forall>i<length u. \<not> code3 u i))"

lemma zeros_quiet: "i < length d + n \<Longrightarrow> length d \<le> i \<Longrightarrow> \<not> code3 (d @ replicate n 0) i"
  by (auto simp: code3_def nth_append)

lemma nal_scan_header:
  assumes "nal_scan d = Inr (start, us)" and "d = [] \<or> (last d \<noteq> 0 \<and> 0 < start)"
  shows "nal_scan (d @ start_code l) = Inr (length d + length (start_code l), if d = [] then us else us @ [drop start d])"
proof -
  define n where "n = (if l then 3 else 2 :: nat)"
  have hdr: "start_code l = replicate n 0 @ [1]" by (simp add: start_code_def n_def numeral_eq_Suc)
  have z: "nal_scan (d @ replicate n 0) = Inr (start, us)"
    by (rule nal_scan_quiet [OF assms(1)]) (use zeros_quiet in auto)
  obtain start' us' where inv: "nal_scan d = Inr (start', us')" "scan_inv d start'" using nal_scan_ok by blast
  with assms(1) have si: "scan_inv d start" by simp
  have code: "code3 ((d @ replicate n 0) @ [1]) (length d + n)"
    by (auto simp: code3_def nth_append n_def)
  have cut: "(if ((d @ replicate n 0) @ [1]) ! (length d + n - 3) = 0 then length d + n - 3 else length d + n - 2) = length d" if "d \<noteq> []"
  proof (cases l)
    case True
    then show ?thesis by (simp add: n_def nth_append)
  next
    case False
    have "length d + 2 - 3 = length d - 1" by simp
    with False that assms(2) show ?thesis by (simp add: n_def nth_append last_conv_nth)
  qed
  have "nal_turn ((d @ replicate n 0) @ [1]) (length d + n) (start, us) =
      Inr (length d + n + 1, if d = [] then us else us @ [drop start d])"
  proof (cases "d = []")
    case True
    with si have "start = 0" by (simp add: scan_inv_def)
    with True code show ?thesis by (simp add: nal_turn_def)
  next
    case False
    with assms(2) si have "0 < start" "start \<le> length d" "length d + n \<ge> 3" by (auto simp: scan_inv_def)
    with False code cut [OF False] show ?thesis by (simp add: nal_turn_def Let_def)
  qed
  then show ?thesis using nal_scan_snoc [of "d @ replicate n 0" 1] z by (simp add: hdr)
qed

lemma unit_quiet:
  assumes "nal_ok u" "length d + length (start_code l) \<le> i" "i < length d + length (start_code l) + length u"
  shows "\<not> code3 ((d @ start_code l) @ u) i"
proof
  let ?p = "d @ start_code l"
  assume c: "code3 (?p @ u) i"
  have n1: "(?p @ u) ! (length ?p - 1) = 1" "length ?p \<ge> 3" by (auto simp: nth_append start_code_def)
  from c have "(?p @ u) ! (i - 1) = 0" "(?p @ u) ! (i - 2) = 0" by (simp_all add: code3_def)
  with n1 have "i - 1 \<noteq> length ?p - 1" "i - 2 \<noteq> length ?p - 1" by auto
  with assms(2) n1(2) have "length ?p + 2 \<le> i" by auto
  then obtain k where k: "i = length ?p + (k + 2)" by (metis add.assoc add.commute le_iff_add)
  have at: "(?p @ u) ! (length ?p + j) = u ! j" for j by (simp only: nth_append_length_plus)
  have "i - 1 = length ?p + (k + 1)" "i - 2 = length ?p + k" using k by simp_all
  with c k have "u ! (k + 2) = 1" "u ! (k + 1) = 0" "u ! k = 0" by (simp_all only: code3_def at)
  then have "code3 u (k + 2)" by (simp add: code3_def)
  moreover have "k + 2 < length u" using assms(3) k by simp
  ultimately show False using assms(1) unfolding nal_ok_def by blast
qed

lemma nal_scan_annexb:
  assumes "list_all (nal_ok \<circ> snd) us" "us \<noteq> []"
  shows "nal_scan (annexb us) = Inr (length (annexb us) - length (snd (last us)), map snd (butlast us))"
  using assms
proof (induction us rule: rev_induct)
  case Nil
  then show ?case by simp
next
  case (snoc x us)
  obtain l u where x: "x = (l, u)" by (cases x)
  with snoc.prems have u: "nal_ok u" by simp
  let ?d = "annexb us"
  have split: "annexb (us @ [x]) = (?d @ start_code l) @ u" by (simp add: annexb_def x)
  have "nal_scan (?d @ start_code l) = Inr (length ?d + length (start_code l), map snd us)"
  proof (cases us rule: rev_cases)
    case Nil
    then show ?thesis using nal_scan_header [of "[]" 0 "[]" l] by (simp add: annexb_def)
  next
    case (snoc us' y)
    with snoc.prems \<open>us = us' @ [y]\<close> have y: "nal_ok (snd y)" by simp
    have d: "?d = annexb us' @ start_code (fst y) @ snd y" by (simp add: annexb_def snoc split: prod.splits)
    have ne: "?d \<noteq> []" "last ?d \<noteq> 0" using y d by (auto simp: nal_ok_def)
    have "nal_scan ?d = Inr (length ?d - length (snd y), map snd us')"
      using snoc.IH snoc.prems snoc by simp
    moreover have "0 < length ?d - length (snd y)" by (simp add: d start_code_def)
    moreover have "drop (length ?d - length (snd y)) ?d = snd y" by (simp add: d)
    ultimately show ?thesis using nal_scan_header [of ?d "length ?d - length (snd y)" "map snd us'" l] ne snoc by simp
  qed
  then have "nal_scan ((?d @ start_code l) @ u) = Inr (length ?d + length (start_code l), map snd us)"
    by (rule nal_scan_quiet) (use unit_quiet [OF u, of ?d l] in auto)
  then have "nal_scan (annexb (us @ [x])) = Inr (length ?d + length (start_code l), map snd us)" by (simp only: split)
  moreover have "length (annexb (us @ [x])) - length u = length ?d + length (start_code l)" by (simp add: split)
  ultimately show ?case by (simp add: x)
qed

text \<open>C21. A frame of H.264 in the byte stream format splits into exactly its NAL units, with start codes of
  three or four bytes in any mix. The units are non-empty, contain no start code and do not end in 0.\<close>

theorem split_nal_annexb:
  assumes "list_all (nal_ok \<circ> snd) us"
  shows "splitNalUnits (annexb us) = Inr (map snd us)"
proof (cases us rule: rev_cases)
  case Nil
  then show ?thesis by (simp add: splitNalUnits_def annexb_def)
next
  case (snoc us' x)
  with assms have x: "snd x \<noteq> []" by (simp add: nal_ok_def)
  have d: "annexb us = annexb us' @ start_code (fst x) @ snd x" by (simp add: annexb_def snoc split: prod.splits)
  have "nal_scan (annexb us) = Inr (length (annexb us) - length (snd x), map snd us')"
    using nal_scan_annexb [OF assms] snoc by simp
  moreover have "length (annexb us) - length (snd x) < length (annexb us)"
    "drop (length (annexb us) - length (snd x)) (annexb us) = snd x"
    using x by (simp_all add: d)
  ultimately show ?thesis by (simp add: splitNalUnits_def nal_scan_def [symmetric] snoc)
qed

theorem split_nal_annexb_witness:
  "splitNalUnits [0, 0, 0, 1, 0x67, 0x42, 0, 0, 1, 0x68, 0xCE, 0, 0, 0, 1, 0x65, 0, 7] = Inr [[0x67, 0x42], [0x68, 0xCE], [0x65, 0, 7]]"
proof -
  let ?us = "[(True, [0x67, 0x42]), (False, [0x68, 0xCE]), (True, [0x65, 0, 7])] :: (bool \<times> bytes) list"
  have "list_all (nal_ok \<circ> snd) ?us" by code_simp
  from split_nal_annexb [OF this] show ?thesis by (simp add: annexb_def start_code_def)
qed

section \<open>Presentation times\<close>

text \<open>The times of the frames a worker takes, each with the clock at that moment.\<close>

primrec stamps :: "(64 word \<times> frame) list \<Rightarrow> voutput \<Rightarrow> 64 word list" where
  "stamps [] x = []"
| "stamps (nf # nfs) x = (let (pts, y) = stamp_frame (fst nf) (snd nf) x in pts # stamps nfs y)"

lemma stamps_running:
  assumes "vo_ts_first x \<noteq> 0" "sorted_wrt (<) (vo_last_raw x # map (fr_ts \<circ> snd) nfs)"
  shows "stamps nfs x = map (\<lambda>nf. fr_ts (snd nf) - vo_ts_first x + vo_ts_offset x - vo_base x) nfs"
  using assms
proof (induction nfs arbitrary: x)
  case Nil
  then show ?case by simp
next
  case (Cons nf nfs)
  from Cons.prems have "vo_last_raw x < fr_ts (snd nf)" by simp
  then have "\<not> fr_ts (snd nf) \<le> vo_last_raw x" by (simp only: not_le)
  then have step: "stamp_frame (fst nf) (snd nf) x =
      (fr_ts (snd nf) - vo_ts_first x + vo_ts_offset x - vo_base x, x\<lparr>vo_last_raw := fr_ts (snd nf)\<rparr>)"
    using Cons.prems(1) by (simp add: stamp_frame_def Let_def)
  have "stamps nfs (x\<lparr>vo_last_raw := fr_ts (snd nf)\<rparr>) =
      map (\<lambda>nf. fr_ts (snd nf) - vo_ts_first x + vo_ts_offset x - vo_base x) nfs"
    using Cons.IH [of "x\<lparr>vo_last_raw := fr_ts (snd nf)\<rparr>"] Cons.prems by simp
  with step show ?case by simp
qed

text \<open>C32. As long as the times of the frames grow, the client sees the distances of the source: every frame
  is at the clock of the first one plus the time passed between the two frames, counted from the start of the
  connection.\<close>

theorem stamps_keep_distances:
  assumes "sorted_wrt (<) (0 # map (fr_ts \<circ> snd) ((now, f) # nfs))"
  shows "stamps ((now, f) # nfs) (new_voutput t base) =
    map (\<lambda>nf. (now - base) + (fr_ts (snd nf) - fr_ts f)) ((now, f) # nfs)"
proof -
  from assms have f: "0 < fr_ts f" by simp
  let ?y = "(new_voutput t base)\<lparr>vo_ts_first := fr_ts f, vo_last_raw := fr_ts f, vo_ts_offset := now, vo_start_ts_set := True\<rparr>"
  have "stamp_frame now f (new_voutput t base) = (now - base, ?y)"
    by (simp add: stamp_frame_def new_voutput_def Let_def)
  moreover have "stamps nfs ?y = map (\<lambda>nf. (now - base) + (fr_ts (snd nf) - fr_ts f)) nfs"
    using stamps_running [of ?y nfs] assms f by (simp add: new_voutput_def algebra_simps)
  ultimately show ?thesis by simp
qed

theorem stamps_keep_distances_witness:
  "stamps [(5000, \<lparr>fr_ts = 100, fr_key = True, fr_data = []\<rparr>), (5100, \<lparr>fr_ts = 3100, fr_key = False, fr_data = []\<rparr>)]
     (new_voutput 0 4000) = [1000, 4000]"
  using stamps_keep_distances [of 5000 "\<lparr>fr_ts = 100, fr_key = True, fr_data = []\<rparr>"
      "[(5100, \<lparr>fr_ts = 3100, fr_key = False, fr_data = []\<rparr>)]" 0 4000] by simp

text \<open>A frame that is not later than the one before restarts the clock: its time is the clock of that moment.\<close>

lemma stamp_resync: "fr_ts f \<le> vo_last_raw x \<Longrightarrow> fst (stamp_frame now f x) = now - vo_base x"
  by (simp add: stamp_frame_def)

section \<open>One track\<close>

text \<open>
  What happens to an output that stays in its reader: the reader offers a frame, or the worker takes one
  and sends it.
\<close>

datatype track_call = Offer frame "nat \<Rightarrow> bool" tracks | Work "64 word" send_result

definition track_step :: "track_call \<Rightarrow> voutput \<Rightarrow> cpp_error + (frame list \<times> voutput)" where
  "track_step c x =
     (case c of
        Offer f is_open ts \<Rightarrow> bindR (offer_frame is_open ts f x) (\<lambda>(_, y). Inr ([], y))
      | Work now res \<Rightarrow>
          (case vo_queue x of [] \<Rightarrow> Inr ([], x)
           | f # q \<Rightarrow> Inr ([f], sent_frame res (snd (stamp_frame now f (x\<lparr>vo_queue := q\<rparr>))))))"

text \<open>\<open>track_step\<close> is what \<open>worker_turn\<close> does to the output, with the frame for the effect.\<close>

lemma track_step_worker:
  "track_step (Work now res) x = Inr (fs, y) \<longleftrightarrow>
     y = fst (snd (worker_turn now res x k)) \<and> fs = (case vo_queue x of [] \<Rightarrow> [] | f # q \<Rightarrow> [f])"
  by (auto simp: track_step_def worker_turn_def split: list.splits prod.splits)

definition offered :: "track_call \<Rightarrow> frame list" where
  "offered c = (case c of Offer f _ _ \<Rightarrow> [f] | Work _ _ \<Rightarrow> [])"

lemma stamp_frame_queue [simp]:
  "vo_queue (snd (stamp_frame now f x)) = vo_queue x" "vo_num_sent (snd (stamp_frame now f x)) = vo_num_sent x"
  by (simp_all add: stamp_frame_def Let_def)

lemma sent_frame_queue [simp]: "vo_queue (sent_frame res x) = vo_queue x"
  by (simp add: sent_frame_def)

lemma offer_frame_Inr:
  assumes "offer_frame is_open ts f x = Inr (b, y)"
  shows "(\<not> b \<and> (y = x \<or> y = x\<lparr>vo_logged_init_incomplete := True\<rparr> \<or> y = x\<lparr>vo_logged_closed := True\<rparr>)) \<or>
    (b \<and> y = x\<lparr>vo_queue := vo_queue x @ [f]\<rparr> \<and> (vo_num_sent x \<noteq> 0 \<or> fr_key f) \<and> is_open (vo_track x) \<and>
     (\<exists>k. map_of ts (vo_track x) = Some k \<and> tk_init_complete k))"
proof (cases "vo_num_sent x = 0 \<and> \<not> fr_key f")
  case True
  with assms show ?thesis by (simp add: offer_frame_def)
next
  case False
  show ?thesis
  proof (cases "map_of ts (vo_track x)")
    case None
    with assms False show ?thesis by (simp add: offer_frame_def mat_def)
  next
    case (Some k)
    with assms False show ?thesis
      by (cases "tk_init_complete k"; cases "is_open (vo_track x)") (simp_all add: offer_frame_def mat_def)
  qed
qed

lemma offer_frame_cases:
  assumes "offer_frame is_open ts f x = Inr (b, y)"
  shows "vo_num_sent y = vo_num_sent x"
    "vo_queue y = (if b then vo_queue x @ [f] else vo_queue x)"
    "b \<Longrightarrow> vo_num_sent x \<noteq> 0 \<or> fr_key f"
    "b \<Longrightarrow> is_open (vo_track x) \<and> (\<exists>k. map_of ts (vo_track x) = Some k \<and> tk_init_complete k)"
  using offer_frame_Inr [OF assms] by auto

lemma track_queue_subseq:
  assumes "run_calls track_step cs x = Inr (out, y)"
  shows "subseq (out @ vo_queue y) (vo_queue x @ concat (map offered cs))"
  using assms
proof (induction cs arbitrary: x out)
  case Nil
  then show ?case by simp
next
  case (Cons c cs)
  from Cons.prems obtain out1 x1 out2 where
    st: "track_step c x = Inr (out1, x1)" "run_calls track_step cs x1 = Inr (out2, y)" "out = out1 @ out2"
    by (rule run_calls_ConsE)
  have head: "subseq (out1 @ vo_queue x1) (vo_queue x @ offered c)"
  proof (cases c)
    case (Offer f is_open ts)
    with st(1) obtain b where "offer_frame is_open ts f x = Inr (b, x1)" and "out1 = []"
      by (auto simp: track_step_def res_simps)
    with offer_frame_cases(2) [of is_open ts f x b x1] Offer show ?thesis
      by (auto simp: offered_def intro: list_emb_append2)
  next
    case (Work now res)
    with st(1) show ?thesis by (auto simp: track_step_def offered_def split: list.splits)
  qed
  have "subseq (out1 @ (out2 @ vo_queue y)) (out1 @ (vo_queue x1 @ concat (map offered cs)))"
    using Cons.IH [OF st(2)] by (rule list_emb_append_mono [OF subseq_order.refl])
  moreover have "subseq ((out1 @ vo_queue x1) @ concat (map offered cs)) ((vo_queue x @ offered c) @ concat (map offered cs))"
    using head by (rule list_emb_append_mono) simp
  ultimately show ?case using st(3) by (metis append.assoc concat.simps(2) list.simps(9) subseq_order.trans)
qed

lemma track_first_key:
  assumes "run_calls track_step cs x = Inr (out, y)" "vo_num_sent x = 0" "list_all fr_key (vo_queue x)"
  shows "out = [] \<or> fr_key (hd out)"
  using assms
proof (induction cs arbitrary: x out)
  case Nil
  then show ?case by simp
next
  case (Cons c cs)
  from Cons.prems(1) obtain out1 x1 out2 where
    st: "track_step c x = Inr (out1, x1)" "run_calls track_step cs x1 = Inr (out2, y)" "out = out1 @ out2"
    by (rule run_calls_ConsE)
  show ?case
  proof (cases c)
    case (Offer f is_open ts)
    with st(1) obtain b where b: "offer_frame is_open ts f x = Inr (b, x1)" and "out1 = []"
      by (auto simp: track_step_def res_simps)
    note oc = offer_frame_cases [OF b]
    have "vo_num_sent x1 = 0" "list_all fr_key (vo_queue x1)"
      using oc(1,2,3) Cons.prems(2,3) by (auto split: if_splits)
    with Cons.IH [OF st(2)] st(3) \<open>out1 = []\<close> show ?thesis by simp
  next
    case (Work now res)
    show ?thesis
    proof (cases "vo_queue x")
      case Nil
      with Work st(1) have "out1 = []" "x1 = x" by (auto simp: track_step_def)
      with Cons.IH [OF st(2)] Cons.prems st(3) show ?thesis by simp
    next
      case (Cons f q)
      with Work st(1) have "out1 = [f]" by (auto simp: track_step_def)
      moreover have "fr_key f" using Cons.prems(3) Cons by simp
      ultimately show ?thesis using st(3) by simp
    qed
  qed
qed

text \<open>C22. What a track sends is a subsequence of the frames of the topic in their order, whatever is opened,
  negotiated or refused in between, and it begins with a key frame.\<close>

theorem track_order_and_key:
  assumes "run_calls track_step cs (new_voutput t base) = Inr (out, y)"
  shows "subseq out (concat (map offered cs)) \<and> (if out = [] then True else fr_key (hd out))"
proof -
  have q: "vo_queue (new_voutput t base) = []" "vo_num_sent (new_voutput t base) = 0" by (simp_all add: new_voutput_def)
  from track_queue_subseq [OF assms] have "subseq (out @ vo_queue y) (concat (map offered cs))" by (simp add: q)
  moreover have "subseq (out @ []) (out @ vo_queue y)" by (rule list_emb_append_mono) simp_all
  ultimately have "subseq out (concat (map offered cs))" by (metis append_Nil2 subseq_order.trans)
  with track_first_key [OF assms] q show ?thesis by auto
qed

theorem track_order_and_key_witness:
  "\<exists>y. run_calls track_step
     [Offer \<lparr>fr_ts = 1, fr_key = False, fr_data = [1]\<rparr> (\<lambda>_. True) [], Work 5 Sent,
      Offer \<lparr>fr_ts = 2, fr_key = True, fr_data = [2]\<rparr> (\<lambda>_. True) [(7, \<lparr>tk_pc = 0, tk_msid = [], tk_ssrc = 0, tk_in_use = True,
          tk_init_complete = True, tk_start_timestamp = 0, tk_timestamp = 0\<rparr>)], Work 6 Sent]
     (new_voutput 7 0) = Inr ([\<lparr>fr_ts = 2, fr_key = True, fr_data = [2]\<rparr>], y) \<and>
   subseq [\<lparr>fr_ts = 2, fr_key = True, fr_data = [2]\<rparr>] [\<lparr>fr_ts = 1, fr_key = False, fr_data = [1]\<rparr>, \<lparr>fr_ts = 2, fr_key = True, fr_data = [2]\<rparr>]"
proof -
  let ?k = "\<lparr>tk_pc = 0, tk_msid = [], tk_ssrc = 0, tk_in_use = True, tk_init_complete = True, tk_start_timestamp = 0, tk_timestamp = 0\<rparr> :: track"
  let ?a = "\<lparr>fr_ts = 1, fr_key = False, fr_data = [1]\<rparr> :: frame" and ?b = "\<lparr>fr_ts = 2, fr_key = True, fr_data = [2]\<rparr> :: frame"
  let ?cs = "[Offer ?a (\<lambda>_. True) [], Work 5 Sent, Offer ?b (\<lambda>_. True) [(7, ?k)], Work 6 Sent]"
  obtain y where y: "run_calls track_step ?cs (new_voutput 7 0) = Inr ([?b], y)"
    by (simp add: track_step_def offer_frame_def new_voutput_def mat_def sent_frame_def stamp_frame_def Let_def)
  have "concat (map offered ?cs) = [?a, ?b]" by (simp add: offered_def)
  with track_order_and_key [OF y] y show ?thesis by auto
qed

section \<open>Nodes of the readers\<close>

lemma next_node_fold:
  "fold (\<lambda>(_, r) h. if vr_node_no r \<ge> h then vr_node_no r + 1 else h) rs h \<ge> h \<and>
   list_all (\<lambda>(_, r). vr_node_no r < fold (\<lambda>(_, r) h. if vr_node_no r \<ge> h then vr_node_no r + 1 else h) rs h) rs"
proof (induction rs arbitrary: h)
  case Nil
  then show ?case by simp
next
  case (Cons p rs)
  obtain t r where p: "p = (t, r)" by (cases p)
  let ?h = "if vr_node_no r \<ge> h then vr_node_no r + 1 else h"
  from Cons.IH [of ?h] show ?case by (auto simp: p split: if_splits)
qed

text \<open>A reader that makes its own node gets a number no other reader has, so node names do not clash.\<close>

theorem node_number_fresh:
  "list_all (\<lambda>(_, r). vr_node_no r < next_node_no rs) rs \<and> 0 < next_node_no rs"
  using next_node_fold [of 1 rs] by (auto simp: next_node_no_def)

text \<open>Once started, a reader with its own node can be stopped exactly if its thread was started (the type is
  a video type and the subscription could be made) and ROS still runs; otherwise \<open>stop\<close>, and with it the
  destructor, waits for ever for a node that nobody releases.\<close>

theorem stop_returns_iff:
  "(vreader_stop ok (snd (vreader_start can_sub rs (r\<lparr>vr_running := False, vr_spinning := False\<rparr>))) \<noteq> None) =
     (if vr_create_node r then sub_kind (vr_msg_type r) \<noteq> None \<and> can_sub \<and> ok else True)"
  by (auto simp: vreader_stop_def vreader_start_def spin_end_def Let_def split: option.splits)

end
