(* ===== verification/Peer.thy ===== *)
theory Peer
  imports Introspect DataWriter Video
begin

text \<open>
  \<open>src/wrtc_peer.cpp\<close>: a peer, that is one web client connected to the robot through WebRTC. It keeps the
  topics the client asked for and the data channels and media tracks open for them;
  \<open>processSubscriptionsSync\<close> brings the second in line with the first. Peer connections and data
  channels are numbers (0 is the null connection). What libdatachannel, ROS and the clock answer is in
  \<open>env\<close>. The state of an operation is the peer together with the hub: the readers, writers and tracks
  that all peers share.
\<close>

section \<open>State\<close>

record chan =
  ch_dc :: nat
  ch_id :: "16 word"

record peer =
  pe_id :: string
  pe_id_app :: string
  pe_id_instance :: string
  pe_session :: string
  pe_connected :: bool
  pe_time_base :: "64 word"
  pe_pc :: "nat option"
  pe_read :: "string list"
  pe_write :: "(string \<times> string) list"
  pe_out :: "(string, chan) omap"
  pe_in :: "(string, chan) omap"
  pe_media :: "(string, nat) omap"
  pe_next_channel :: "16 word"
  pe_negotiation :: bool
  pe_restart :: bool
  pe_awaiting :: bool

record hub =
  hb_readers :: readers
  hb_writers :: writers
  hb_video :: video
  hb_params :: node
  hb_next_dc :: nat
  hb_next_pc :: nat

record ice_config =
  ic_servers :: "string list"
  ic_udp_mux :: bool
  ic_tcp :: bool
  ic_no_fingerprint :: bool

datatype peer_effect =
    Rd_eff rd_effect
  | Wr_eff wr_effect
  | Vd_eff v_effect
  | New_pc nat ice_config
  | Close_pc nat
  | Open_dc nat nat string string "16 word" bool "16 word"
  | Close_dc nat
  | Open_track nat nat string
  | Set_remote string
  | Sio_emit string message
  | Sio_ack int message

text \<open>
  \<open>e_topic\<close>: the type Introspection knows for a topic, empty if none. \<open>e_can_sub\<close>, \<open>e_can_pub\<close>: making
  the subscription or publisher does not throw. \<open>e_dc_ok\<close>: a channel with this id can be made on this
  connection. \<open>e_ice_ok\<close>: the URL of an ICE server is accepted; \<open>e_sdp_ok\<close>: a session description is. \<open>e_pc_bad\<close>: the connection's state is
  failed or its ICE state is closed. \<open>e_offer\<close>: the description the connection generates.
\<close>

record env =
  e_topic :: "string \<Rightarrow> string"
  e_can_sub :: bool
  e_can_pub :: bool
  e_ros_ok :: bool
  e_dc_open :: "nat \<Rightarrow> bool"
  e_track_open :: "nat \<Rightarrow> bool"
  e_dc_ok :: "nat \<Rightarrow> 16 word \<Rightarrow> bool"
  e_ice_ok :: "string \<Rightarrow> bool"
  e_sdp_ok :: "string \<Rightarrow> bool"
  e_pc_bad :: "nat \<Rightarrow> bool"
  e_have_local_offer :: "nat \<Rightarrow> bool"
  e_sio :: bool
  e_offer :: string
  e_ssrc :: "32 word"
  e_msid :: string
  e_now_ns :: "64 word"
  e_ov :: "(string, param) omap"
  e_dbl_neg :: "64 word \<Rightarrow> bool"
  e_dbl_pos :: "64 word \<Rightarrow> bool"
  e_dur :: "64 word \<Rightarrow> int"
  e_conv :: "64 word \<Rightarrow> 64 word"
  e_json :: jsoncpp

type_synonym 'a pact = "(peer \<times> hub, peer_effect, 'a) act"

definition peer_of :: "peer \<times> hub \<Rightarrow> peer" where "peer_of s = fst s"
definition hub_of :: "peer \<times> hub \<Rightarrow> hub" where "hub_of s = snd s"

definition get_peer :: "(peer \<Rightarrow> 'a) \<Rightarrow> 'a pact" where "get_peer f = getA (\<lambda>s. f (peer_of s))"
definition get_hub :: "(hub \<Rightarrow> 'a) \<Rightarrow> 'a pact" where "get_hub f = getA (\<lambda>s. f (hub_of s))"
definition on_peer :: "(peer \<Rightarrow> peer) \<Rightarrow> unit pact" where "on_peer f = modA (\<lambda>s. (f (peer_of s), hub_of s))"
definition on_hub :: "(hub \<Rightarrow> hub) \<Rightarrow> unit pact" where "on_hub f = modA (\<lambda>s. (peer_of s, f (hub_of s)))"

section \<open>Requested subscriptions\<close>

definition addReqRead :: "string \<Rightarrow> peer \<Rightarrow> bool \<times> peer" where
  "addReqRead topic p =
     (if topic \<in> set (pe_read p) then (False, p) else (True, p\<lparr>pe_read := pe_read p @ [topic]\<rparr>))"

definition removeReqRead :: "string \<Rightarrow> peer \<Rightarrow> bool \<times> peer" where
  "removeReqRead topic p =
     (if topic \<in> set (pe_read p) then (True, p\<lparr>pe_read := remove1 topic (pe_read p)\<rparr>) else (False, p))"

text \<open>The loop over the write subscriptions: \<open>None\<close> if the very same one is met.\<close>

fun drop_write :: "string \<Rightarrow> string \<Rightarrow> (string \<times> string) list \<Rightarrow> (string \<times> string) list option" where
  "drop_write topic ty [] = Some []"
| "drop_write topic ty ((t, y) # ws) =
     (if t = topic then if y = ty then None else drop_write topic ty ws
      else map_option ((#) (t, y)) (drop_write topic ty ws))"

text \<open>When the same subscription is found the ones erased before it stay erased.\<close>

fun dropped_before :: "string \<Rightarrow> string \<Rightarrow> (string \<times> string) list \<Rightarrow> (string \<times> string) list" where
  "dropped_before topic ty [] = []"
| "dropped_before topic ty ((t, y) # ws) =
     (if t = topic then if y = ty then (t, y) # ws else dropped_before topic ty ws
      else (t, y) # dropped_before topic ty ws)"

definition addReqWrite :: "string \<Rightarrow> string \<Rightarrow> peer \<Rightarrow> bool \<times> peer" where
  "addReqWrite topic ty p =
     (case drop_write topic ty (pe_write p) of
        None \<Rightarrow> (False, p\<lparr>pe_write := dropped_before topic ty (pe_write p)\<rparr>)
      | Some ws \<Rightarrow> (True, p\<lparr>pe_write := ws @ [(topic, ty)]\<rparr>))"

fun remove_first_write :: "string \<Rightarrow> (string \<times> string) list \<Rightarrow> (string \<times> string) list" where
  "remove_first_write topic [] = []"
| "remove_first_write topic (w # ws) = (if fst w = topic then ws else w # remove_first_write topic ws)"

definition removeReqWrite :: "string \<Rightarrow> peer \<Rightarrow> bool \<times> peer" where
  "removeReqWrite topic p =
     (if topic \<in> fst ` set (pe_write p)
      then (True, p\<lparr>pe_write := remove_first_write topic (pe_write p)\<rparr>) else (False, p))"

section \<open>Socket.io\<close>

text \<open>\<open>BridgeSocket::emit\<close> and \<open>ack\<close> do nothing while the socket is not connected.\<close>

definition sio_emit :: "env \<Rightarrow> string \<Rightarrow> message \<Rightarrow> unit pact" where
  "sio_emit env name m = emitA (if e_sio env then [Sio_emit name m] else [])"

definition sio_ack :: "env \<Rightarrow> int \<Rightarrow> message \<Rightarrow> unit pact" where
  "sio_ack env i m = emitA (if e_sio env then [Sio_ack i m] else [])"

section \<open>The peer connection\<close>

text \<open>
  The TURN servers of the configuration with the credentials. The text for the log is made with
  \<open>replace\<close>, which does not return for an empty secret.
\<close>

definition ice_server :: "env \<Rightarrow> 'j bridge_config \<Rightarrow> string \<Rightarrow> string list \<Rightarrow> string list pact" where
  "ice_server env cfg one acc =
     (if take 5 one = ''turn:'' then
        let url = ''turn://'' @ cf_ice_username cfg @ '':'' @ cf_ice_secret cfg @ ''@'' @ drop 5 one
        in (case replace_str url (cf_ice_secret cfg) ''*******'' of None \<Rightarrow> liftA (Inl Blocks)
            | Some _ \<Rightarrow> if e_ice_ok env url then retA (acc @ [url]) else liftA (Inl Invalid_argument))
      else retA acc)"

definition createPeerConnection :: "env \<Rightarrow> 'j bridge_config \<Rightarrow> unit pact" where
  "createPeerConnection env cfg =
     bindA (forA (ice_server env cfg) (cf_ice_servers cfg) []) (\<lambda>urls.
     bindA (get_hub hb_next_pc) (\<lambda>n.
     thenA (emitA [New_pc n \<lparr>ic_servers = urls, ic_udp_mux = cf_enable_ice_udp_mux cfg, ic_tcp = cf_enable_ice_tcp cfg,
               ic_no_fingerprint = cf_disable_fingerprint_verification cfg\<rparr>])
     (thenA (on_hub (\<lambda>h. h\<lparr>hb_next_pc := Suc n\<rparr>))
     (on_peer (\<lambda>p. p\<lparr>pe_pc := Some n\<rparr>)))))"

definition removePeerConnection :: "unit pact" where
  "removePeerConnection =
     bindA (get_peer pe_pc) (\<lambda>pc.
       case pc of None \<Rightarrow> retA ()
       | Some n \<Rightarrow> thenA (emitA [Close_pc n]) (on_peer (\<lambda>p. p\<lparr>pe_pc := None\<rparr>)))"

definition pc_handle :: "peer \<Rightarrow> nat" where
  "pc_handle p = (case pe_pc p of None \<Rightarrow> 0 | Some n \<Rightarrow> n)"

text \<open>The callback of a change of the signaling state.\<close>

definition onSignalingState :: "bool \<Rightarrow> unit pact" where
  "onSignalingState is_stable =
     bindA (get_peer id) (\<lambda>p.
       on_hub (\<lambda>h. h\<lparr>hb_readers := onPCSignalingStateChange is_stable (pc_handle p) (hb_readers h),
                     hb_video := tracks_complete is_stable (map snd (pe_media p)) (hb_video h)\<rparr>))"

section \<open>Channels\<close>

definition openDataChannel :: "env \<Rightarrow> string \<Rightarrow> string \<Rightarrow> bool \<Rightarrow> bool \<Rightarrow> chan pact" where
  "openDataChannel env topic msg_type is_reliable write =
     thenA (on_peer (\<lambda>p. p\<lparr>pe_next_channel := pe_next_channel p + 1\<rparr>))
     (bindA (get_peer id) (\<lambda>p.
      case pe_pc p of None \<Rightarrow> liftA (Inl Null_deref)
      | Some pc \<Rightarrow>
          let i = pe_next_channel p
          in if \<not> e_dc_ok env pc i then liftA (Inl (Runtime_error []))
             else bindA (get_hub hb_next_dc) (\<lambda>d.
                  let c = \<lparr>ch_dc = d, ch_id = i\<rparr>
                  in thenA (emitA [Open_dc pc d topic msg_type i (\<not> is_reliable) (if is_reliable then 10 else 0)])
                    (thenA (on_hub (\<lambda>h. h\<lparr>hb_next_dc := Suc d\<rparr>))
                    (thenA (on_peer (\<lambda>p. if write then p\<lparr>pe_in := memplace topic c (pe_in p)\<rparr>
                                         else p\<lparr>pe_out := memplace topic c (pe_out p)\<rparr>))
                     (retA c))))))"

definition closeDataChannel :: "env \<Rightarrow> string \<Rightarrow> bool \<Rightarrow> unit pact" where
  "closeDataChannel env topic write =
     bindA (get_peer (if write then pe_in else pe_out)) (\<lambda>cs.
     bindA (liftA (mat cs topic)) (\<lambda>c.
     thenA (emitA (if e_dc_open env (ch_dc c) then [Close_dc (ch_dc c)] else []))
     (on_peer (\<lambda>p. if write then p\<lparr>pe_in := mdel topic (pe_in p)\<rparr> else p\<lparr>pe_out := mdel topic (pe_out p)\<rparr>))))"

text \<open>The configuration of a topic, read from the node's parameters.\<close>

definition topic_qos :: "env \<Rightarrow> string \<Rightarrow> qos pact" where
  "topic_qos env topic =
     bindA (get_hub hb_params) (\<lambda>n.
     bindA (liftA (loadTopicQoSConfig (e_dbl_neg env) (e_dur env) (e_ov env) topic 1 2 2 0xBFF0000000000000 n)) (\<lambda>(q, n).
     thenA (on_hub (\<lambda>h. h\<lparr>hb_params := n\<rparr>)) (retA q)))"

definition topic_conf :: "env \<Rightarrow> string \<Rightarrow> string \<Rightarrow> message pact" where
  "topic_conf env topic msg_type =
     bindA (get_hub hb_params) (\<lambda>n.
     bindA (liftA (loadTopicMsgTypeExtraConfig (e_ov env) topic msg_type n)) (\<lambda>(m, n).
     thenA (on_hub (\<lambda>h. h\<lparr>hb_params := n\<rparr>)) (retA m)))"

section \<open>Data topics\<close>

definition on_readers :: "(readers \<Rightarrow> 'a \<times> rd_effect list \<times> readers) \<Rightarrow> 'a pact" where
  "on_readers f =
     bindA (get_hub (\<lambda>h. f (hb_readers h))) (\<lambda>(x, out, r).
     thenA (emitA (map Rd_eff out)) (thenA (on_hub (\<lambda>h. h\<lparr>hb_readers := r\<rparr>)) (retA x)))"

definition on_writers :: "(writers \<Rightarrow> 'a \<times> wr_effect list \<times> writers) \<Rightarrow> 'a pact" where
  "on_writers f =
     bindA (get_hub (\<lambda>h. f (hb_writers h))) (\<lambda>(x, out, w).
     thenA (emitA (map Wr_eff out)) (thenA (on_hub (\<lambda>h. h\<lparr>hb_writers := w\<rparr>)) (retA x)))"

definition id_message :: "16 word \<Rightarrow> msg_ptr" where
  "id_message i = Some (Int_msg (ucast i))"

definition the_channel :: "env \<Rightarrow> string \<Rightarrow> string \<Rightarrow> bool \<Rightarrow> bool \<Rightarrow> chan pact" where
  "the_channel env topic msg_type is_reliable write =
     bindA (get_peer (if write then pe_in else pe_out)) (\<lambda>cs.
       case map_of cs topic of Some c \<Rightarrow> retA c
       | None \<Rightarrow> bindA (openDataChannel env topic msg_type is_reliable write) (\<lambda>c.
           thenA (on_peer (\<lambda>p. p\<lparr>pe_negotiation := True\<rparr>)) (retA c)))"

definition subscribeReadDataTopic :: "env \<Rightarrow> string \<Rightarrow> string \<Rightarrow> message pact" where
  "subscribeReadDataTopic env topic msg_type =
     bindA (topic_qos env topic) (\<lambda>q.
     bindA (topic_conf env topic msg_type) (\<lambda>conf.
     let is_reliable = (q_reliability q = 1)
     in bindA (the_channel env topic msg_type is_reliable False) (\<lambda>c.
        bindA (get_peer pc_handle) (\<lambda>pc.
        bindA (on_readers (\<lambda>r. add_reader_output (e_can_sub env) topic (ch_dc c) pc (get_reader topic msg_type q r))) (\<lambda>_.
        retA (Array_msg [text_message topic, id_message (ch_id c), text_message msg_type,
                         Some (Bool_msg is_reliable), Some conf]))))))"

definition subscribeWriteDataTopic :: "env \<Rightarrow> string \<Rightarrow> string \<Rightarrow> message pact" where
  "subscribeWriteDataTopic env topic msg_type =
     bindA (topic_qos env topic) (\<lambda>q.
     bindA (topic_conf env topic msg_type) (\<lambda>conf.
     bindA (the_channel env topic msg_type (q_reliability q = 1) True) (\<lambda>c.
     bindA (if topic = HEARTBEAT_CHANNEL_ID then retA False
            else on_writers (\<lambda>w. addInput (e_can_pub env) topic (ch_dc c) (get_writer topic msg_type w))) (\<lambda>_.
     retA (Array_msg [text_message topic, id_message (ch_id c), text_message msg_type])))))"

text \<open>The last channel of a reader takes the reader with it.\<close>

definition release_reader :: "env \<Rightarrow> string \<Rightarrow> nat \<Rightarrow> unit pact" where
  "release_reader env topic dc =
     bindA (on_readers (remove_reader_output (e_ros_ok env) topic dc)) (\<lambda>empty.
       ifA empty (on_readers (\<lambda>r. case destroy_reader (e_ros_ok env) topic r of (out, r') \<Rightarrow> ((), out, r'))))"

definition unsubscribeReadDataTopic :: "env \<Rightarrow> string \<Rightarrow> msg_ptr list pact" where
  "unsubscribeReadDataTopic env topic =
     bindA (get_peer pe_out) (\<lambda>cs.
       case map_of cs topic of None \<Rightarrow> retA []
       | Some c \<Rightarrow>
           thenA (ifA (topic \<noteq> HEARTBEAT_CHANNEL_ID)
                    (bindA (get_hub (\<lambda>h. find_reader topic (hb_readers h))) (\<lambda>r.
                       ifA (r \<noteq> None) (release_reader env topic (ch_dc c)))))
           (thenA (closeDataChannel env topic False) (retA [text_message topic])))"

definition unsubscribeWriteDataTopic :: "env \<Rightarrow> string \<Rightarrow> msg_ptr list pact" where
  "unsubscribeWriteDataTopic env topic =
     bindA (get_peer pe_in) (\<lambda>cs.
       case map_of cs topic of None \<Rightarrow> retA []
       | Some c \<Rightarrow>
           thenA (ifA (topic \<noteq> HEARTBEAT_CHANNEL_ID)
                    (bindA (on_writers (removeInput (e_ros_ok env) topic (ch_dc c))) (\<lambda>_. retA ())))
           (thenA (closeDataChannel env topic True) (retA [text_message topic])))"

section \<open>Media topics\<close>

definition openMediaTrack :: "env \<Rightarrow> string \<Rightarrow> nat pact" where
  "openMediaTrack env topic =
     bindA (get_peer pe_pc) (\<lambda>pc.
       case pc of None \<Rightarrow> liftA (Inl Null_deref)
       | Some n \<Rightarrow>
           bindA (get_hub (\<lambda>h. open_track n (e_ssrc env) (e_msid env) (hb_video h))) (\<lambda>(t, v).
           thenA (emitA [Open_track n t topic])
           (thenA (on_hub (\<lambda>h. h\<lparr>hb_video := v\<rparr>))
           (thenA (on_peer (\<lambda>p. p\<lparr>pe_media := memplace topic t (pe_media p)\<rparr>)) (retA t)))))"

definition conf_create_node :: "message \<Rightarrow> bool res" where
  "conf_create_node conf = bindR (conf_at conf ''create_node'') get_bool"

definition subscribeMediaTopic :: "env \<Rightarrow> string \<Rightarrow> string \<Rightarrow> message pact" where
  "subscribeMediaTopic env topic msg_type =
     bindA (topic_qos env topic) (\<lambda>q.
     bindA (topic_conf env topic msg_type) (\<lambda>conf.
     bindA (get_peer pe_media) (\<lambda>ms.
     bindA (case map_of ms topic of
              Some t \<Rightarrow> thenA (on_hub (\<lambda>h. h\<lparr>hb_video := set_in_use True t (hb_video h)\<rparr>)) (retA t)
            | None \<Rightarrow> bindA (openMediaTrack env topic) (\<lambda>t. thenA (on_peer (\<lambda>p. p\<lparr>pe_negotiation := True\<rparr>)) (retA t))) (\<lambda>t.
     bindA (if isImageOrVideoType msg_type then
              bindA (liftA (conf_create_node conf)) (\<lambda>own.
              bindA (get_hub hb_video) (\<lambda>v.
              bindA (liftA (get_vreader (e_conv env) topic msg_type own conf v)) (\<lambda>v.
              bindA (get_peer pe_time_base) (\<lambda>base.
                case add_voutput (e_can_sub env) topic t base v of (_, out, v) \<Rightarrow>
                  thenA (emitA (map Vd_eff out)) (on_hub (\<lambda>h. h\<lparr>hb_video := v\<rparr>))))))
            else retA ()) (\<lambda>_.
     bindA (get_hub (\<lambda>h. mat (vd_tracks (hb_video h)) t)) (\<lambda>k.
     bindA (liftA k) (\<lambda>k.
     retA (Array_msg [text_message topic, text_message (tk_msid k), Some conf]))))))))"

definition destroy_video :: "env \<Rightarrow> string \<Rightarrow> unit pact" where
  "destroy_video env topic =
     bindA (get_hub (\<lambda>h. destroy_vreader (e_ros_ok env) topic (hb_video h))) (\<lambda>r.
       case r of None \<Rightarrow> liftA (Inl Blocks)
       | Some (out, v) \<Rightarrow> thenA (emitA (map Vd_eff out)) (on_hub (\<lambda>h. h\<lparr>hb_video := v\<rparr>)))"

definition unsubscribeMediaTopic :: "env \<Rightarrow> string \<Rightarrow> bool \<Rightarrow> msg_ptr list pact" where
  "unsubscribeMediaTopic env topic close_channel =
     bindA (get_peer pe_media) (\<lambda>ms.
       case map_of ms topic of None \<Rightarrow> retA []
       | Some t \<Rightarrow>
           bindA (get_hub (\<lambda>h. case map_of (vd_tracks (hb_video h)) t of None \<Rightarrow> False | Some k \<Rightarrow> tk_in_use k)) (\<lambda>in_use.
             if \<not> in_use \<and> \<not> close_channel then retA []
             else
               thenA (on_hub (\<lambda>h. h\<lparr>hb_video := set_in_use False t (hb_video h)\<rparr>))
               (thenA (bindA (get_hub (\<lambda>h. mhas (vd_readers (hb_video h)) topic)) (\<lambda>has.
                        ifA has (bindA (get_hub (\<lambda>h. remove_voutput topic t (hb_video h))) (\<lambda>(empty, v).
                          thenA (on_hub (\<lambda>h. h\<lparr>hb_video := v\<rparr>)) (ifA empty (destroy_video env topic))))))
               (thenA (ifA close_channel
                        (thenA (emitA (map Vd_eff (close_track (e_track_open env) t)))
                               (on_peer (\<lambda>p. p\<lparr>pe_media := mdel topic (pe_media p)\<rparr>))))
                (retA [text_message topic])))))"

section \<open>Processing\<close>

text \<open>Pushing to a list of the reply, a no-op for an empty entry.\<close>

definition reply_push :: "string \<Rightarrow> message \<Rightarrow> (string, msg_ptr) omap \<Rightarrow> (string, msg_ptr) omap res" where
  "reply_push key m r =
     bindR (mat r key) (\<lambda>p. bindR (deref p) (\<lambda>a. bindR (get_vector a) (\<lambda>v.
       Inr (mput key (Some (Array_msg (v @ [Some m]))) r))))"

definition reply_removed :: "string \<Rightarrow> msg_ptr list \<Rightarrow> (string, msg_ptr) omap \<Rightarrow> (string, msg_ptr) omap res" where
  "reply_removed key v r = (if v = [] then Inr r else reply_push key (Array_msg v) r)"

definition reply_start :: "peer \<Rightarrow> (string, msg_ptr) omap \<Rightarrow> (string, msg_ptr) omap" where
  "reply_start p ack =
     memplace ''write_data_channels'' (Some (Array_msg [])) (memplace ''read_data_channels'' (Some (Array_msg []))
       (memplace ''read_video_streams'' (Some (Array_msg [])) (memplace ''session'' (text_message (pe_session p)) ack)))"

text \<open>One turn of each loop.\<close>

definition read_topic :: "env \<Rightarrow> string \<Rightarrow> (string, msg_ptr) omap \<Rightarrow> (string, msg_ptr) omap pact" where
  "read_topic env topic r =
     (let msg_type = e_topic env topic
      in if msg_type = [] then retA r
         else if \<not> isImageOrVideoType msg_type then
           bindA (subscribeReadDataTopic env topic msg_type) (\<lambda>c. liftA (reply_push ''read_data_channels'' c r))
         else
           bindA (subscribeMediaTopic env topic msg_type) (\<lambda>c. liftA (reply_push ''read_video_streams'' c r)))"

definition write_topic :: "env \<Rightarrow> string \<times> string \<Rightarrow> (string, msg_ptr) omap \<Rightarrow> (string, msg_ptr) omap pact" where
  "write_topic env w r =
     bindA (subscribeWriteDataTopic env (fst w) (snd w)) (\<lambda>c. liftA (reply_push ''write_data_channels'' c r))"

definition close_read :: "env \<Rightarrow> string \<Rightarrow> (string, msg_ptr) omap \<Rightarrow> (string, msg_ptr) omap pact" where
  "close_read env topic r =
     bindA (unsubscribeReadDataTopic env topic) (\<lambda>v. liftA (reply_removed ''read_data_channels'' v r))"

definition close_video :: "env \<Rightarrow> bool \<Rightarrow> string \<Rightarrow> (string, msg_ptr) omap \<Rightarrow> (string, msg_ptr) omap pact" where
  "close_video env close_channel topic r =
     bindA (unsubscribeMediaTopic env topic close_channel) (\<lambda>v. liftA (reply_removed ''read_video_streams'' v r))"

definition close_write :: "env \<Rightarrow> string \<Rightarrow> (string, msg_ptr) omap \<Rightarrow> (string, msg_ptr) omap pact" where
  "close_write env topic r =
     bindA (unsubscribeWriteDataTopic env topic) (\<lambda>v. liftA (reply_removed ''write_data_channels'' v r))"

definition open_reads :: "env \<Rightarrow> (string, msg_ptr) omap \<Rightarrow> (string, msg_ptr) omap pact" where
  "open_reads env r = bindA (get_peer pe_read) (\<lambda>ts. forA (read_topic env) ts r)"

definition open_writes :: "env \<Rightarrow> (string, msg_ptr) omap \<Rightarrow> (string, msg_ptr) omap pact" where
  "open_writes env r = bindA (get_peer pe_write) (\<lambda>ws. forA (write_topic env) ws r)"

definition close_reads :: "env \<Rightarrow> (string, msg_ptr) omap \<Rightarrow> (string, msg_ptr) omap pact" where
  "close_reads env r =
     bindA (get_peer (\<lambda>p. filter (\<lambda>t. t \<notin> set (pe_read p)) (map fst (pe_out p)))) (\<lambda>ts. forA (close_read env) ts r)"

definition close_media :: "env \<Rightarrow> bool \<Rightarrow> (string, msg_ptr) omap \<Rightarrow> (string, msg_ptr) omap pact" where
  "close_media env close_channel r =
     bindA (getA (\<lambda>s. map fst (filter (\<lambda>(t, k).
         (case map_of (vd_tracks (hb_video (hub_of s))) k of None \<Rightarrow> False | Some i \<Rightarrow> tk_in_use i) \<and>
         t \<notin> set (pe_read (peer_of s))) (pe_media (peer_of s))))) (\<lambda>ts. forA (close_video env close_channel) ts r)"

definition close_writes :: "env \<Rightarrow> (string, msg_ptr) omap \<Rightarrow> (string, msg_ptr) omap pact" where
  "close_writes env r =
     bindA (get_peer (\<lambda>p. filter (\<lambda>t. t \<notin> fst ` set (pe_write p)) (map fst (pe_in p)))) (\<lambda>ts. forA (close_write env) ts r)"

text \<open>
  With nobody to wait for the processing is done; with a new description it goes on until the client's
  answer comes (\<open>pe_awaiting\<close>), and holds the mutex until then.
\<close>

definition is_reconnect :: "env \<Rightarrow> peer \<Rightarrow> bool" where
  "is_reconnect env p =
     (pe_connected p \<and> e_sio env \<and>
      (pe_restart p \<or> (case pe_pc p of None \<Rightarrow> True | Some pc \<Rightarrow> e_pc_bad env pc)))"

definition reconnect :: "env \<Rightarrow> 'j bridge_config \<Rightarrow> unit pact" where
  "reconnect env cfg =
     thenA (on_peer (\<lambda>p. p\<lparr>pe_restart := False\<rparr>))
     (thenA removePeerConnection
     (thenA (on_peer (\<lambda>p. p\<lparr>pe_out := [], pe_in := []\<rparr>)) (createPeerConnection env cfg)))"

text \<open>\<open>setLocalDescription\<close> on a null connection; otherwise the offer goes into the reply.\<close>

definition negotiate :: "env \<Rightarrow> (string, msg_ptr) omap \<Rightarrow> (string, msg_ptr) omap pact" where
  "negotiate env r =
     thenA (on_peer (\<lambda>p. p\<lparr>pe_awaiting := False\<rparr>))
     (bindA (get_peer id) (\<lambda>p.
       if pe_connected p \<and> pe_negotiation p then
         if pe_pc p = None then liftA (Inl Null_deref)
         else thenA (on_peer (\<lambda>p. p\<lparr>pe_awaiting := True\<rparr>)) (retA (memplace ''offer'' (text_message (e_offer env)) r))
       else retA r))"

definition send_reply :: "env \<Rightarrow> int \<Rightarrow> bool \<Rightarrow> (string, msg_ptr) omap \<Rightarrow> unit pact" where
  "send_reply env ack_msg_id was_reconnect r =
     bindA (get_peer id) (\<lambda>p.
       if \<not> pe_connected p \<and> \<not> was_reconnect then removePeerConnection
       else if pe_connected p then
         if ack_msg_id < 0 then
           sio_emit env ''peer:update'' (Object_msg
             (let r = (if pe_id_app p = [] then r else memplace ''id_app'' (text_message (pe_id_app p)) r)
              in if pe_id_instance p = [] then r else memplace ''id_instance'' (text_message (pe_id_instance p)) r))
         else sio_ack env ack_msg_id (Object_msg r)
       else retA ())"

text \<open>Channels and tracks are opened first and closed then.\<close>

definition update_channels :: "env \<Rightarrow> bool \<Rightarrow> (string, msg_ptr) omap \<Rightarrow> (string, msg_ptr) omap pact" where
  "update_channels env close_channel r =
     bindA (open_reads env r) (\<lambda>r.
     bindA (open_writes env r) (\<lambda>r.
     bindA (close_reads env r) (\<lambda>r.
     bindA (close_media env close_channel r) (close_writes env))))"

definition processSubscriptionsSync ::
  "env \<Rightarrow> 'j bridge_config \<Rightarrow> int \<Rightarrow> (string, msg_ptr) omap option \<Rightarrow> unit pact" where
  "processSubscriptionsSync env cfg ack_msg_id ack =
     bindA (get_peer id) (\<lambda>p.
     let again = is_reconnect env p
     in thenA (on_peer (\<lambda>p. p\<lparr>pe_negotiation := again\<rparr>))
       (thenA (ifA again (reconnect env cfg))
       (bindA (update_channels env (again \<or> \<not> pe_connected p) (reply_start p (case ack of None \<Rightarrow> [] | Some r \<Rightarrow> r))) (\<lambda>r.
        bindA (negotiate env r) (send_reply env ack_msg_id again)))))"

text \<open>The next processing can begin when the one before has its answer or the peer is gone.\<close>

definition mutex_free :: "peer \<Rightarrow> bool" where
  "mutex_free p = (\<not> pe_awaiting p \<or> \<not> pe_connected p)"

section \<open>Answers\<close>

definition onSDPAnswer :: "env \<Rightarrow> message \<Rightarrow> unit pact" where
  "onSDPAnswer env m =
     bindA (get_peer pe_pc) (\<lambda>pc.
       case pc of None \<Rightarrow> liftA (Inl Null_deref)
       | Some n \<Rightarrow>
           if \<not> e_have_local_offer env n then on_peer (\<lambda>p. p\<lparr>pe_awaiting := False\<rparr>)
           else bindA (liftA (bindR (conf_at m ''sdp'') get_string)) (\<lambda>sdp.
                if \<not> e_sdp_ok env sdp then liftA (Inl Invalid_argument)
                else thenA (emitA [Set_remote sdp]) (on_peer (\<lambda>p. p\<lparr>pe_awaiting := False\<rparr>))))"

definition onSIOOfferReply :: "env \<Rightarrow> msg_ptr list \<Rightarrow> unit pact" where
  "onSIOOfferReply env reply =
     bindA (liftA (bindR (mlist_at reply 0) deref)) (\<lambda>m.
     bindA (liftA (get_map m)) (\<lambda>kvs.
       case map_of kvs ''err'' of
         Some p \<Rightarrow> thenA (bindA (liftA (bindR (deref p) get_string)) (\<lambda>_. retA ())) (on_peer (\<lambda>p. p\<lparr>pe_awaiting := False\<rparr>))
       | None \<Rightarrow> onSDPAnswer env m))"

text \<open>A restart is asked for by the client; the processing it requests is the result.\<close>

definition onWRTCInfo :: "message \<Rightarrow> bool pact" where
  "onWRTCInfo m =
     bindA (liftA (get_map m)) (\<lambda>kvs.
       case map_of kvs ''state'' of None \<Rightarrow> retA False
       | Some p \<Rightarrow>
           bindA (liftA (bindR (deref p) get_string)) (\<lambda>st.
             if st = ''n/a'' \<or> st = ''failed''
             then thenA (on_peer (\<lambda>p. p\<lparr>pe_restart := True\<rparr>)) (retA True)
             else retA False))"

text \<open>Disconnecting; the table of peers is the caller's.\<close>

definition onDisconnected :: "env \<Rightarrow> 'j bridge_config \<Rightarrow> unit pact" where
  "onDisconnected env cfg =
     thenA (on_peer (\<lambda>p. p\<lparr>pe_read := [], pe_write := [], pe_connected := False\<rparr>))
           (processSubscriptionsSync env cfg (- 1) None)"

section \<open>Peers\<close>

definition getId :: "message \<Rightarrow> string res" where
  "getId data =
     bindR (get_map data) (\<lambda>m.
     bindR (if mhas m ''id_app'' then bindR (bindR (mat m ''id_app'') deref) get_string else Inr []) (\<lambda>a.
     bindR (if mhas m ''id_instance'' then bindR (bindR (mat m ''id_instance'') deref) get_string else Inr a) Inr))"

definition blank_peer :: "string \<Rightarrow> string \<Rightarrow> string \<Rightarrow> string \<Rightarrow> peer" where
  "blank_peer i app inst session =
     \<lparr>pe_id = i, pe_id_app = app, pe_id_instance = inst, pe_session = session, pe_connected = True, pe_time_base = 0,
      pe_pc = None, pe_read = [], pe_write = [], pe_out = [], pe_in = [], pe_media = [], pe_next_channel = 0,
      pe_negotiation = False, pe_restart = False, pe_awaiting = False\<rparr>"

text \<open>The constructor, on a blank peer.\<close>

definition construct :: "env \<Rightarrow> 'j bridge_config \<Rightarrow> unit pact" where
  "construct env cfg =
     thenA (createPeerConnection env cfg)
           (on_peer (\<lambda>p. p\<lparr>pe_time_base := getCurrentRtpTimestamp (e_now_ns env)\<rparr>))"

text \<open>The subscriptions that come with the connection request: a member that is no array is skipped.\<close>

definition elements_of :: "string \<Rightarrow> message \<Rightarrow> msg_ptr list res" where
  "elements_of key m =
     bindR (get_map m) (\<lambda>kvs.
       case map_of kvs key of None \<Rightarrow> Inr []
       | Some p \<Rightarrow> bindR (deref p) (\<lambda>a. case a of Array_msg v \<Rightarrow> Inr v | _ \<Rightarrow> Inr []))"

definition read_request :: "(string \<Rightarrow> peer \<Rightarrow> bool \<times> peer) \<Rightarrow> msg_ptr list \<Rightarrow> unit pact" where
  "read_request f v =
     forA (\<lambda>t _. bindA (liftA (bindR (deref t) get_string)) (\<lambda>topic. on_peer (\<lambda>p. snd (f topic p)))) v ()"

text \<open>With \<open>strict\<close> the length of a pair is checked (on connection), otherwise its elements are just taken.\<close>

definition write_request :: "bool \<Rightarrow> msg_ptr list \<Rightarrow> unit pact" where
  "write_request strict v =
     forA (\<lambda>tt _. bindA (liftA (deref tt)) (\<lambda>a.
       case a of
         Array_msg pair \<Rightarrow>
           if strict \<and> length pair \<noteq> 2 then retA ()
           else bindA (liftA (bindR (bindR (array_at pair 0) deref) get_string)) (\<lambda>topic.
                bindA (liftA (bindR (bindR (array_at pair 1) deref) get_string)) (\<lambda>ty.
                  on_peer (\<lambda>p. snd (addReqWrite topic ty p))))
       | _ \<Rightarrow> retA ())) v ()"

definition initial_requests :: "message \<Rightarrow> unit pact" where
  "initial_requests m =
     thenA (on_peer (\<lambda>p. p\<lparr>pe_read := []\<rparr>))
     (thenA (bindA (liftA (elements_of ''read'' m)) (read_request addReqRead))
     (thenA (on_peer (\<lambda>p. p\<lparr>pe_write := []\<rparr>))
            (bindA (liftA (elements_of ''write'' m)) (write_request True))))"

section \<open>The user interface\<close>

definition widget_message :: "widget_def \<Rightarrow> msg_ptr" where
  "widget_message w = Some (Object_msg (memplace ''url'' (text_message (wd_url w)) (memplace ''class'' (text_message (wd_class_name w)) [])))"

definition has_data :: "jvalue option \<Rightarrow> bool" where
  "has_data d = (d \<noteq> None \<and> d \<noteq> Some J_null)"

definition service_widget_message :: "jsoncpp \<Rightarrow> jvalue widget_config \<Rightarrow> msg_ptr" where
  "service_widget_message P w =
     (let m = memplace ''srv'' (text_message (wc_service w)) (memplace ''class'' (text_message (wc_class_name w)) [])
      in Some (Object_msg (if has_data (wc_data w) then memplace ''data'' (Some (json_opt P (wc_data w))) m else m)))"

definition text_array :: "string list \<Rightarrow> msg_ptr" where
  "text_array ss = Some (Array_msg (map text_message ss))"

definition ui_config_message :: "(64 word \<Rightarrow> bool) \<Rightarrow> 'j bridge_config \<Rightarrow> msg_ptr" where
  "ui_config_message dbl_pos c =
     Some (Object_msg (emplace_all
       [(''introspection_control'', Some (Bool_msg (dbl_pos (cf_stop_discovery_after_sec c)))),
        (''battery_topic'', text_message (cf_ui_battery_topic c)),
        (''docker_control'', Some (Bool_msg (cf_docker_control_enabled c))),
        (''docker_monitor_topic'', text_message (cf_docker_monitor_topic c)),
        (''wifi_monitor_topic'', text_message (cf_ui_wifi_monitor_topic c)),
        (''enable_wifi_scan'', Some (Bool_msg (cf_ui_enable_wifi_scan c))),
        (''enable_wifi_roam'', Some (Bool_msg (cf_ui_enable_wifi_roam c))),
        (''collapse_services'', text_array (cf_collapse_services c)),
        (''collapse_unhandled_services'', Some (Bool_msg (cf_collapse_unhandled_services c)))]))"

definition addUIConfigToMessage ::
  "(64 word \<Rightarrow> bool) \<Rightarrow> jsoncpp \<Rightarrow> jvalue bridge_config \<Rightarrow> (string, msg_ptr) omap \<Rightarrow> (string, msg_ptr) omap" where
  "addUIConfigToMessage dbl_pos P c m =
     fold (\<lambda>(k, x). memplace k x)
       [(''input_drivers'', text_array (cf_input_drivers c)),
        (''input_defaults'', Some (json_opt P (cf_input_defaults c))),
        (''custom_input_drivers'', Some (Array_msg (map widget_message (cf_custom_input_drivers c)))),
        (''service_defaults'', Some (json_opt P (cf_service_defaults c))),
        (''custom_service_widgets'', Some (Array_msg (map widget_message (cf_custom_service_widgets c)))),
        (''service_widgets'', Some (Array_msg (map (service_widget_message P) (cf_service_widgets c)))),
        (''ui'', ui_config_message dbl_pos c),
        (''ice_servers'', text_array (cf_ice_servers c)),
        (''ice_username'', text_message (cf_ice_username c)),
        (''ice_secret'', text_message (cf_ice_secret c))] m"

section \<open>Names of states\<close>

datatype pc_state = Pc_new | Pc_connecting | Pc_connected | Pc_disconnected | Pc_failed | Pc_closed
datatype signaling_state = Sg_stable | Sg_have_local_offer | Sg_have_remote_offer | Sg_have_local_pranswer | Sg_have_remote_pranswer
datatype gathering_state = Ga_new | Ga_in_progress | Ga_complete
datatype ice_state = Ic_new | Ic_checking | Ic_connected | Ic_completed | Ic_failed | Ic_disconnected | Ic_closed

fun pc_state_name :: "pc_state \<Rightarrow> string" where
  "pc_state_name Pc_connected = ''Connected''"
| "pc_state_name Pc_connecting = ''Connecting''"
| "pc_state_name Pc_closed = ''Closed''"
| "pc_state_name Pc_disconnected = ''Disconnected''"
| "pc_state_name Pc_failed = ''Failed''"
| "pc_state_name Pc_new = ''New''"

fun signaling_state_name :: "signaling_state \<Rightarrow> string" where
  "signaling_state_name Sg_stable = ''Stable''"
| "signaling_state_name Sg_have_local_offer = ''HaveLocalOffer''"
| "signaling_state_name Sg_have_remote_offer = ''HaveRemoteOffer''"
| "signaling_state_name Sg_have_local_pranswer = ''HaveLocalPranswer''"
| "signaling_state_name Sg_have_remote_pranswer = ''HaveRemotePranswer''"

fun gathering_state_name :: "gathering_state \<Rightarrow> string" where
  "gathering_state_name Ga_new = ''New''"
| "gathering_state_name Ga_in_progress = ''InProgress''"
| "gathering_state_name Ga_complete = ''Complete''"

fun ice_state_name :: "ice_state \<Rightarrow> string" where
  "ice_state_name Ic_new = ''New''"
| "ice_state_name Ic_checking = ''Checking''"
| "ice_state_name Ic_connected = ''Connected''"
| "ice_state_name Ic_completed = ''Completed''"
| "ice_state_name Ic_failed = ''Failed''"
| "ice_state_name Ic_disconnected = ''Disconnected''"
| "ice_state_name Ic_closed = ''Closed''"

end
