(* ===== verification/PeerLaws.thy ===== *)
theory PeerLaws
  imports Peer "HOL-Library.Multiset"
begin

text \<open>
  What the processing of a peer's subscriptions guarantees: which parts of the state each operation
  leaves alone (frames), the channels after processing, the ids of the channels, and what is left when
  a peer goes.
\<close>

section \<open>Frames\<close>

lemma peer_hub_simps [simp]: "peer_of (p, h) = p" "hub_of (p, h) = h"
  by (simp_all add: peer_of_def hub_of_def)

lemma frame_on_hub [simp, intro]: "frameA (\<lambda>s. f (peer_of s)) (on_hub h)"
  by (simp add: on_hub_def frameA_mod)

lemma frame_peer_hub [simp, intro]: "frameA peer_of (on_hub h)"
  by (simp add: on_hub_def frameA_mod)

lemma frame_on_peer: "(\<And>p. f (h p) = f p) \<Longrightarrow> frameA (\<lambda>s. f (peer_of s)) (on_peer h)"
  by (simp add: on_peer_def frameA_mod)

lemma frame_hub_peer [simp, intro]: "frameA hub_of (on_peer h)"
  by (simp add: on_peer_def frameA_mod)

lemma frame_get [simp, intro]: "frameA g (get_peer f)" "frameA g (get_hub k)"
  by (simp_all add: get_peer_def get_hub_def)

lemma frame_sio [simp, intro]: "frameA g (sio_emit env n m)" "frameA g (sio_ack env i m)"
  by (simp_all add: sio_emit_def sio_ack_def)

lemma frame_topic_qos [simp, intro]: "frameA (\<lambda>s. f (peer_of s)) (topic_qos env topic)"
  by (auto simp: topic_qos_def intro!: frame_rules)

lemma frame_topic_conf [simp, intro]: "frameA (\<lambda>s. f (peer_of s)) (topic_conf env topic ty)"
  by (auto simp: topic_conf_def intro!: frame_rules)

lemma frame_on_readers [simp, intro]: "frameA (\<lambda>s. f (peer_of s)) (on_readers g)"
  by (auto simp: on_readers_def intro!: frame_rules)

lemma frame_on_writers [simp, intro]: "frameA (\<lambda>s. f (peer_of s)) (on_writers g)"
  by (auto simp: on_writers_def intro!: frame_rules)

lemma frame_release [simp, intro]: "frameA (\<lambda>s. f (peer_of s)) (release_reader env topic dc)"
  by (auto simp: release_reader_def intro!: frame_rules)

lemma frame_destroy_video [simp, intro]: "frameA (\<lambda>s. f (peer_of s)) (destroy_video env topic)"
  by (auto simp: destroy_video_def intro!: frame_rules)

text \<open>What the peer asked for is changed by no part of the processing.\<close>

definition wishes :: "peer \<Rightarrow> string list \<times> (string \<times> string) list \<times> bool \<times> string" where
  "wishes p = (pe_read p, pe_write p, pe_connected p, pe_id p)"

definition channels :: "peer \<Rightarrow> (string, chan) omap \<times> (string, chan) omap \<times> 16 word" where
  "channels p = (pe_out p, pe_in p, pe_next_channel p)"

abbreviation frame_wishes :: "'a pact \<Rightarrow> bool" where
  "frame_wishes m \<equiv> frameA (\<lambda>s. wishes (peer_of s)) m"

abbreviation frame_channels :: "'a pact \<Rightarrow> bool" where
  "frame_channels m \<equiv> frameA (\<lambda>s. channels (peer_of s)) m"

lemma wishes_update [simp]:
  "wishes (p\<lparr>pe_pc := a\<rparr>) = wishes p" "wishes (p\<lparr>pe_out := b\<rparr>) = wishes p" "wishes (p\<lparr>pe_in := b\<rparr>) = wishes p"
  "wishes (p\<lparr>pe_media := c\<rparr>) = wishes p" "wishes (p\<lparr>pe_next_channel := d\<rparr>) = wishes p"
  "wishes (p\<lparr>pe_negotiation := e\<rparr>) = wishes p" "wishes (p\<lparr>pe_restart := e\<rparr>) = wishes p"
  "wishes (p\<lparr>pe_awaiting := e\<rparr>) = wishes p" "wishes (p\<lparr>pe_time_base := g\<rparr>) = wishes p"
  by (simp_all add: wishes_def)

lemma channels_update [simp]:
  "channels (p\<lparr>pe_pc := a\<rparr>) = channels p" "channels (p\<lparr>pe_media := c\<rparr>) = channels p"
  "channels (p\<lparr>pe_negotiation := e\<rparr>) = channels p" "channels (p\<lparr>pe_restart := e\<rparr>) = channels p"
  "channels (p\<lparr>pe_awaiting := e\<rparr>) = channels p" "channels (p\<lparr>pe_time_base := g\<rparr>) = channels p"
  "channels (p\<lparr>pe_read := r\<rparr>) = channels p" "channels (p\<lparr>pe_write := w\<rparr>) = channels p"
  "channels (p\<lparr>pe_connected := x\<rparr>) = channels p"
  by (simp_all add: channels_def)

lemma frame_create [simp, intro]:
  "frame_wishes (createPeerConnection env cfg)" "frame_channels (createPeerConnection env cfg)"
  by (auto simp: createPeerConnection_def ice_server_def Let_def intro!: frame_rules frame_on_peer)

lemma frame_removePC [simp, intro]: "frame_wishes removePeerConnection" "frame_channels removePeerConnection"
  by (auto simp: removePeerConnection_def intro!: frame_rules frame_on_peer)

lemma frame_openDC [simp, intro]: "frame_wishes (openDataChannel env topic ty rel write)"
  by (auto simp: openDataChannel_def Let_def intro!: frame_rules frame_on_peer)

lemma frame_closeDC [simp, intro]: "frame_wishes (closeDataChannel env topic write)"
  by (auto simp: closeDataChannel_def Let_def intro!: frame_rules frame_on_peer)

lemma frame_the_channel [simp, intro]: "frame_wishes (the_channel env topic ty rel write)"
  by (auto simp: the_channel_def Let_def intro!: frame_rules frame_on_peer)

lemma frame_subscribe [simp, intro]:
  "frame_wishes (subscribeReadDataTopic env topic ty)" "frame_wishes (subscribeWriteDataTopic env topic ty)"
  by (auto simp: subscribeReadDataTopic_def subscribeWriteDataTopic_def Let_def intro!: frame_rules)

lemma frame_unsubscribe [simp, intro]:
  "frame_wishes (unsubscribeReadDataTopic env topic)" "frame_wishes (unsubscribeWriteDataTopic env topic)"
  by (auto simp: unsubscribeReadDataTopic_def unsubscribeWriteDataTopic_def intro!: frame_rules)

lemma frame_openMedia [simp, intro]: "frame_wishes (openMediaTrack env topic)" "frame_channels (openMediaTrack env topic)"
  by (auto simp: openMediaTrack_def intro!: frame_rules frame_on_peer)

lemma frame_media [simp, intro]:
  "frame_wishes (subscribeMediaTopic env topic ty)" "frame_channels (subscribeMediaTopic env topic ty)"
  "frame_wishes (unsubscribeMediaTopic env topic b)" "frame_channels (unsubscribeMediaTopic env topic b)"
  by (auto simp: subscribeMediaTopic_def unsubscribeMediaTopic_def intro!: frame_rules frame_on_peer)

section \<open>The channels of one topic\<close>

lemma peer_act_iffs:
  "get_peer f s = (Inr y, out, t) \<longleftrightarrow> y = f (peer_of s) \<and> out = [] \<and> t = s"
  "get_hub k s = (Inr z, out, t) \<longleftrightarrow> z = k (hub_of s) \<and> out = [] \<and> t = s"
  "on_peer h s = (Inr (), out, t) \<longleftrightarrow> out = [] \<and> t = (h (peer_of s), hub_of s)"
  "on_hub g s = (Inr (), out, t) \<longleftrightarrow> out = [] \<and> t = (peer_of s, g (hub_of s))"
  by (auto simp: get_peer_def get_hub_def on_peer_def on_hub_def act_defs)

lemma bind_get [simp]:
  "bindA (get_peer f) k s = k (f (peer_of s)) s" "bindA (get_hub g) k s = k (g (hub_of s)) s"
  "bindA (getA a) k s = k (a s) s"
  by (simp_all add: bindA_def get_peer_def get_hub_def getA_def split: prod.splits)

lemmas run_iffs = bindA_Inr_iff thenA_Inr_iff act_Inr_iffs peer_act_iffs

lemma openDataChannel_Inr:
  assumes "openDataChannel env topic ty rel write s = (Inr c, out, t)"
  shows "ch_id c = pe_next_channel (peer_of s) + 1" "ch_dc c = hb_next_dc (hub_of s)"
    "channels (peer_of t) =
       (if write then pe_out (peer_of s) else memplace topic c (pe_out (peer_of s)),
        if write then memplace topic c (pe_in (peer_of s)) else pe_in (peer_of s), ch_id c)"
    "hub_of t = (hub_of s)\<lparr>hb_next_dc := Suc (hb_next_dc (hub_of s))\<rparr>"
    "\<exists>pc. pe_pc (peer_of s) = Some pc \<and> out = [Open_dc pc (ch_dc c) topic ty (ch_id c) (\<not> rel) (if rel then 10 else 0)]"
proof -
  obtain p h where s: "s = (p, h)" by (cases s)
  from assms obtain pc where pc: "pe_pc p = Some pc"
    by (cases "pe_pc p") (auto simp: openDataChannel_def run_iffs s)
  with assms have ok: "e_dc_ok env pc (pe_next_channel p + 1)"
    by (auto simp: openDataChannel_def run_iffs s Let_def split: if_splits)
  from assms pc ok have "c = \<lparr>ch_dc = hb_next_dc h, ch_id = pe_next_channel p + 1\<rparr> \<and>
      out = [Open_dc pc (hb_next_dc h) topic ty (pe_next_channel p + 1) (\<not> rel) (if rel then 10 else 0)] \<and>
      t = ((\<lambda>p. if write then p\<lparr>pe_in := memplace topic c (pe_in p)\<rparr> else p\<lparr>pe_out := memplace topic c (pe_out p)\<rparr>)
             (p\<lparr>pe_next_channel := pe_next_channel p + 1\<rparr>), h\<lparr>hb_next_dc := Suc (hb_next_dc h)\<rparr>)"
    by (simp add: openDataChannel_def run_iffs s Let_def)
  then show "ch_id c = pe_next_channel (peer_of s) + 1" "ch_dc c = hb_next_dc (hub_of s)"
    "channels (peer_of t) =
       (if write then pe_out (peer_of s) else memplace topic c (pe_out (peer_of s)),
        if write then memplace topic c (pe_in (peer_of s)) else pe_in (peer_of s), ch_id c)"
    "hub_of t = (hub_of s)\<lparr>hb_next_dc := Suc (hb_next_dc (hub_of s))\<rparr>"
    "\<exists>pc. pe_pc (peer_of s) = Some pc \<and> out = [Open_dc pc (ch_dc c) topic ty (ch_id c) (\<not> rel) (if rel then 10 else 0)]"
    using pc by (simp_all add: s channels_def)
qed

text \<open>The channels of one direction.\<close>

definition side :: "bool \<Rightarrow> peer \<Rightarrow> (string, chan) omap" where
  "side write p = (if write then pe_in p else pe_out p)"

lemma side_channels: "side write p = (if write then fst (snd (channels p)) else fst (channels p))"
  by (simp add: side_def channels_def)

lemma side_upd [simp]: "side write (p\<lparr>pe_negotiation := b\<rparr>) = side write p"
  by (simp add: side_def)

lemma the_channel_Inr:
  assumes "the_channel env topic ty rel write s = (Inr c, out, t)"
  shows "side write (peer_of t) = memplace topic c (side write (peer_of s))"
    "side (\<not> write) (peer_of t) = side (\<not> write) (peer_of s)"
    "map_of (side write (peer_of t)) topic = Some c"
proof -
  have "side write (peer_of t) = memplace topic c (side write (peer_of s)) \<and>
    side (\<not> write) (peer_of t) = side (\<not> write) (peer_of s) \<and> map_of (side write (peer_of t)) topic = Some c"
  proof (cases "map_of (side write (peer_of s)) topic")
    case (Some c')
    have "(if write then pe_in else pe_out) (peer_of s) = side write (peer_of s)" by (simp add: side_def)
    with assms Some have "c = c' \<and> t = s" by (simp add: the_channel_def run_iffs)
    with Some show ?thesis by (simp add: memplace_def)
  next
    case None
    have sd: "(if write then pe_in else pe_out) (peer_of s) = side write (peer_of s)" by (simp add: side_def)
    from assms None obtain o1 s1 where o: "openDataChannel env topic ty rel write s = (Inr c, o1, s1)"
      and t: "t = ((peer_of s1)\<lparr>pe_negotiation := True\<rparr>, hub_of s1)"
      by (auto simp: the_channel_def run_iffs sd)
    have "side write (peer_of t) = memplace topic c (side write (peer_of s))"
      "side (\<not> write) (peer_of t) = side (\<not> write) (peer_of s)"
      using openDataChannel_Inr(3) [OF o] by (simp_all add: t side_channels) (simp_all add: channels_def)
    with None show ?thesis by (simp add: map_of_memplace mhas_def)
  qed
  then show "side write (peer_of t) = memplace topic c (side write (peer_of s))"
    "side (\<not> write) (peer_of t) = side (\<not> write) (peer_of s)"
    "map_of (side write (peer_of t)) topic = Some c" by blast+
qed

lemma frame_side: "frame_channels m \<Longrightarrow> frameA (\<lambda>s. side w (peer_of s)) m"
  using frameA_mono [of "\<lambda>s. channels (peer_of s)" m "\<lambda>c. if w then fst (snd c) else fst c"]
  by (simp add: side_channels [abs_def])

lemma subscribeRead_Inr:
  assumes "subscribeReadDataTopic env topic ty s = (Inr m, out, t)"
  obtains c rel conf where "m = Array_msg [text_message topic, id_message (ch_id c), text_message ty, Some (Bool_msg rel), Some conf]"
    "side False (peer_of t) = memplace topic c (side False (peer_of s))" "side True (peer_of t) = side True (peer_of s)"
    "map_of (side False (peer_of t)) topic = Some c"
proof -
  from assms obtain q o1 s1 conf o2 s2 c o3 s3 x o4 s4 r4 where
    st: "topic_qos env topic s = (Inr q, o1, s1)" "topic_conf env topic ty s1 = (Inr conf, o2, s2)"
      "the_channel env topic ty (q_reliability q = 1) False s2 = (Inr c, o3, s3)"
      "on_readers (\<lambda>r. add_reader_output (e_can_sub env) topic (ch_dc c) (pc_handle (peer_of s3)) (get_reader topic ty q r)) s3 = (Inr x, o4, s4)"
      "t = s4" "m = Array_msg [text_message topic, id_message (ch_id c), text_message ty, Some (Bool_msg (q_reliability q = 1)), Some conf]"
    unfolding subscribeReadDataTopic_def Let_def run_iffs by blast
  have "peer_of s1 = peer_of s" "peer_of s2 = peer_of s1" "peer_of s4 = peer_of s3"
    using frameAD [OF frame_topic_qos [of id] st(1)] frameAD [OF frame_topic_conf [of id] st(2)]
      frameAD [OF frame_on_readers [of id] st(4)] by simp_all
  with the_channel_Inr [OF st(3)] st(5,6) that show thesis by simp
qed

lemma subscribeWrite_Inr:
  assumes "subscribeWriteDataTopic env topic ty s = (Inr m, out, t)"
  obtains c where "m = Array_msg [text_message topic, id_message (ch_id c), text_message ty]"
    "side True (peer_of t) = memplace topic c (side True (peer_of s))" "side False (peer_of t) = side False (peer_of s)"
    "map_of (side True (peer_of t)) topic = Some c"
proof -
  from assms obtain q o1 s1 conf o2 s2 c o3 s3 x o4 s4 where
    st: "topic_qos env topic s = (Inr q, o1, s1)" "topic_conf env topic ty s1 = (Inr conf, o2, s2)"
      "the_channel env topic ty (q_reliability q = 1) True s2 = (Inr c, o3, s3)"
      "(if topic = HEARTBEAT_CHANNEL_ID then retA False
        else on_writers (\<lambda>w. addInput (e_can_pub env) topic (ch_dc c) (get_writer topic ty w))) s3 = (Inr x, o4, s4)"
      "t = s4" "m = Array_msg [text_message topic, id_message (ch_id c), text_message ty]"
    unfolding subscribeWriteDataTopic_def run_iffs by blast
  have "frameA (\<lambda>s. id (peer_of s)) (if topic = HEARTBEAT_CHANNEL_ID then retA False
        else on_writers (\<lambda>w. addInput (e_can_pub env) topic (ch_dc c) (get_writer topic ty w)))"
    by (intro frame_rules frame_on_writers)
  from frameAD [OF this st(4)] have "peer_of s4 = peer_of s3" by simp
  moreover have "peer_of s1 = peer_of s" "peer_of s2 = peer_of s1"
    using frameAD [OF frame_topic_qos [of id] st(1)] frameAD [OF frame_topic_conf [of id] st(2)] by simp_all
  ultimately show thesis using the_channel_Inr [OF st(3)] st(5,6) that by simp
qed

lemma closeDataChannel_Inr:
  assumes "closeDataChannel env topic write s = (Inr (), out, t)"
  shows "side write (peer_of t) = mdel topic (side write (peer_of s))" "side (\<not> write) (peer_of t) = side (\<not> write) (peer_of s)"
    "hub_of t = hub_of s"
  using assms by (auto simp: closeDataChannel_def run_iffs side_def split: if_splits)

lemma unsubscribe_Inr:
  assumes "(if write then unsubscribeWriteDataTopic env topic else unsubscribeReadDataTopic env topic) s = (Inr v, out, t)"
  shows "side write (peer_of t) = mdel topic (side write (peer_of s))" "side (\<not> write) (peer_of t) = side (\<not> write) (peer_of s)"
    "v = (if mhas (side write (peer_of s)) topic then [text_message topic] else [])"
proof -
  have *: "side write (peer_of t) = mdel topic (side write (peer_of s)) \<and> side (\<not> write) (peer_of t) = side (\<not> write) (peer_of s) \<and>
    v = (if mhas (side write (peer_of s)) topic then [text_message topic] else [])"
  proof (cases "map_of (side write (peer_of s)) topic")
    case None
    with assms have "t = s \<and> v = []"
      by (cases "write") (auto simp: unsubscribeReadDataTopic_def unsubscribeWriteDataTopic_def run_iffs side_def)
    moreover have "mdel topic (side write (peer_of s)) = side write (peer_of s)"
      using None by (auto simp: mdel_def map_of_eq_None_iff filter_id_conv)
    ultimately show ?thesis using None by (simp add: mhas_def)
  next
    case (Some c)
    have ex: "\<exists>m o1 s1 o2. frameA (\<lambda>s. id (peer_of s)) (m :: unit pact) \<and> m s = (Inr (), o1, s1) \<and>
        closeDataChannel env topic write s1 = (Inr (), o2, t) \<and> v = [text_message topic]"
    proof (cases "write")
      case True
      let ?m = "ifA (topic \<noteq> HEARTBEAT_CHANNEL_ID) (bindA (on_writers (removeInput (e_ros_ok env) topic (ch_dc c))) (\<lambda>_. retA ()))"
      have "frameA (\<lambda>s. id (peer_of s)) ?m" by (intro frame_rules frame_on_writers)
      have "thenA ?m (thenA (closeDataChannel env topic True) (retA [text_message topic])) s = (Inr v, out, t)"
        using True assms Some by (simp add: unsubscribeWriteDataTopic_def side_def)
      then obtain o1 s1 o2 where m: "?m s = (Inr (), o1, s1)"
        "thenA (closeDataChannel env topic True) (retA [text_message topic]) s1 = (Inr v, o2, t)" by (rule thenA_InrE)
      from m(2) obtain o3 s2 and o4 :: "peer_effect list" where "closeDataChannel env topic True s1 = (Inr (), o3, s2)"
        "retA [text_message topic] s2 = (Inr v, o4, t)" by (rule thenA_InrE)
      then have "closeDataChannel env topic True s1 = (Inr (), o3, t)" "v = [text_message topic]" by (simp_all add: act_Inr_iffs)
      with True m(1) \<open>frameA (\<lambda>s. id (peer_of s)) ?m\<close> show ?thesis
        by (intro exI [of _ ?m] exI [of _ o1] exI [of _ s1] exI [of _ o3] conjI) simp_all
    next
      case False
      let ?m = "ifA (topic \<noteq> HEARTBEAT_CHANNEL_ID) (bindA (get_hub (\<lambda>h. find_reader topic (hb_readers h))) (\<lambda>r. ifA (r \<noteq> None) (release_reader env topic (ch_dc c))))"
      have "frameA (\<lambda>s. id (peer_of s)) ?m" by (intro frame_rules frame_release frame_get)
      have "thenA ?m (thenA (closeDataChannel env topic False) (retA [text_message topic])) s = (Inr v, out, t)"
        using False assms Some by (simp add: unsubscribeReadDataTopic_def side_def)
      then obtain o1 s1 o2 where m: "?m s = (Inr (), o1, s1)"
        "thenA (closeDataChannel env topic False) (retA [text_message topic]) s1 = (Inr v, o2, t)" by (rule thenA_InrE)
      from m(2) obtain o3 s2 and o4 :: "peer_effect list" where "closeDataChannel env topic False s1 = (Inr (), o3, s2)"
        "retA [text_message topic] s2 = (Inr v, o4, t)" by (rule thenA_InrE)
      then have "closeDataChannel env topic False s1 = (Inr (), o3, t)" "v = [text_message topic]" by (simp_all add: act_Inr_iffs)
      with False m(1) \<open>frameA (\<lambda>s. id (peer_of s)) ?m\<close> show ?thesis
        by (intro exI [of _ ?m] exI [of _ o1] exI [of _ s1] exI [of _ o3] conjI) simp_all
    qed
    then obtain m o1 s1 o2 where m: "frameA (\<lambda>s. id (peer_of s)) (m :: unit pact)" "m s = (Inr (), o1, s1)"
      "closeDataChannel env topic write s1 = (Inr (), o2, t)" "v = [text_message topic]" by blast
    from frameAD [OF m(1,2)] have "peer_of s1 = peer_of s" by simp
    with closeDataChannel_Inr [OF m(3)] m(4) Some show ?thesis by (simp add: mhas_def)
  qed
  then show "side write (peer_of t) = mdel topic (side write (peer_of s))" "side (\<not> write) (peer_of t) = side (\<not> write) (peer_of s)"
    "v = (if mhas (side write (peer_of s)) topic then [text_message topic] else [])" by blast+
qed

section \<open>The reply\<close>

definition has_entry :: "string \<Rightarrow> message \<Rightarrow> (string, msg_ptr) omap \<Rightarrow> bool" where
  "has_entry key m r = (case map_of r key of Some (Some (Array_msg v)) \<Rightarrow> Some m \<in> set v | _ \<Rightarrow> False)"

text \<open>Entries are only ever added.\<close>

definition grows :: "(string, msg_ptr) omap \<Rightarrow> (string, msg_ptr) omap \<Rightarrow> bool" where
  "grows r r' = (\<forall>key m. has_entry key m r \<longrightarrow> has_entry key m r')"

lemma grows_refl [simp]: "grows r r"
  by (simp add: grows_def)

lemma grows_trans: "grows r1 r2 \<Longrightarrow> grows r2 r3 \<Longrightarrow> grows r1 r3"
  by (simp add: grows_def)

lemma growsD: "grows r r' \<Longrightarrow> has_entry key m r \<Longrightarrow> has_entry key m r'"
  by (simp add: grows_def)

lemma reply_push_Inr:
  assumes "reply_push key m r = Inr r'"
  shows "grows r r'" "has_entry key m r'"
proof -
  from assms obtain v where "map_of r key = Some (Some (Array_msg v))" "r' = mput key (Some (Array_msg (v @ [Some m]))) r"
    by (auto simp: reply_push_def res_simps elim!: get_vector.elims split: option.splits)
  then show "grows r r'" "has_entry key m r'" by (auto simp: grows_def has_entry_def)
qed

lemma reply_removed_grows: "reply_removed key v r = Inr r' \<Longrightarrow> grows r r'"
  by (auto simp: reply_removed_def dest: reply_push_Inr split: if_splits)

lemma grows_emplace: "grows r (memplace key x r)"
  by (auto simp: grows_def has_entry_def map_of_memplace mhas_def split: option.splits)

lemma grows_emplace_trans: "grows r r1 \<Longrightarrow> grows r (memplace key x r1)"
  using grows_trans grows_emplace by blast

section \<open>The loops\<close>

definition data_topic :: "env \<Rightarrow> string \<Rightarrow> bool" where
  "data_topic env t = (e_topic env t \<noteq> [] \<and> \<not> isImageOrVideoType (e_topic env t))"

abbreviation keys :: "('k, 'v) omap \<Rightarrow> 'k set" where
  "keys m \<equiv> fst ` set m"

lemma keys_memplace: "keys (memplace k v m) = insert k (keys m)"
  by (auto simp: memplace_def set_mput_keys map_of_eq_None_iff split: option.splits dest!: map_of_SomeD intro: rev_image_eqI)

lemma keys_mdel: "keys (mdel k m) = keys m - {k}"
  by (auto simp: mdel_def)

definition read_entry :: "env \<Rightarrow> string \<Rightarrow> chan \<Rightarrow> (string, msg_ptr) omap \<Rightarrow> bool" where
  "read_entry env t c r = (\<exists>rel conf. has_entry ''read_data_channels''
     (Array_msg [text_message t, id_message (ch_id c), text_message (e_topic env t), Some (Bool_msg rel), Some conf]) r)"

definition write_entry :: "string \<Rightarrow> string \<Rightarrow> chan \<Rightarrow> (string, msg_ptr) omap \<Rightarrow> bool" where
  "write_entry t ty c r = has_entry ''write_data_channels'' (Array_msg [text_message t, id_message (ch_id c), text_message ty]) r"

lemma read_topic_Inr:
  assumes "read_topic env topic r s = (Inr r', out, t)"
  shows "wishes (peer_of t) = wishes (peer_of s)" "side True (peer_of t) = side True (peer_of s)" "grows r r'"
    "keys (side False (peer_of t)) = keys (side False (peer_of s)) \<union> (if data_topic env topic then {topic} else {})"
    "\<And>x c. map_of (side False (peer_of s)) x = Some c \<Longrightarrow> map_of (side False (peer_of t)) x = Some c"
    "data_topic env topic \<Longrightarrow> \<exists>c. map_of (side False (peer_of t)) topic = Some c \<and> read_entry env topic c r'"
proof -
  have "frame_wishes (read_topic env topic r)"
    by (auto simp: read_topic_def Let_def intro!: frame_rules)
  from frameAD [OF this assms] show "wishes (peer_of t) = wishes (peer_of s)" .
  have "side True (peer_of t) = side True (peer_of s) \<and> grows r r' \<and>
    keys (side False (peer_of t)) = keys (side False (peer_of s)) \<union> (if data_topic env topic then {topic} else {}) \<and>
    (\<forall>x c. map_of (side False (peer_of s)) x = Some c \<longrightarrow> map_of (side False (peer_of t)) x = Some c) \<and>
    (data_topic env topic \<longrightarrow> (\<exists>c. map_of (side False (peer_of t)) topic = Some c \<and> read_entry env topic c r'))"
  proof (cases "e_topic env topic = []")
    case True
    with assms show ?thesis by (simp add: read_topic_def retA_def data_topic_def)
  next
    case False
    show ?thesis
    proof (cases "isImageOrVideoType (e_topic env topic)")
      case True
      with assms False obtain m o1 where m: "subscribeMediaTopic env topic (e_topic env topic) s = (Inr m, o1, t)"
        "reply_push ''read_video_streams'' m r = Inr r'" by (auto simp: read_topic_def run_iffs)
      have "channels (peer_of t) = channels (peer_of s)" using frame_media(2) m(1) by (rule frameAD)
      with True False reply_push_Inr(1) [OF m(2)] show ?thesis by (simp add: side_channels data_topic_def)
    next
      case vid: False
      with assms False obtain m o1 where m: "subscribeReadDataTopic env topic (e_topic env topic) s = (Inr m, o1, t)"
        "reply_push ''read_data_channels'' m r = Inr r'" by (auto simp: read_topic_def run_iffs)
      obtain c rel conf where c: "m = Array_msg [text_message topic, id_message (ch_id c), text_message (e_topic env topic), Some (Bool_msg rel), Some conf]"
        "side False (peer_of t) = memplace topic c (side False (peer_of s))" "side True (peer_of t) = side True (peer_of s)"
        "map_of (side False (peer_of t)) topic = Some c" by (rule subscribeRead_Inr [OF m(1)])
      have "read_entry env topic c r'" using reply_push_Inr(2) [OF m(2)] c(1) by (auto simp: read_entry_def)
      with c(2-4) vid False reply_push_Inr(1) [OF m(2)] show ?thesis
        by (auto simp: data_topic_def keys_memplace map_of_memplace mhas_def)
    qed
  qed
  then show "side True (peer_of t) = side True (peer_of s)" "grows r r'"
    "keys (side False (peer_of t)) = keys (side False (peer_of s)) \<union> (if data_topic env topic then {topic} else {})"
    "\<And>x c. map_of (side False (peer_of s)) x = Some c \<Longrightarrow> map_of (side False (peer_of t)) x = Some c"
    "data_topic env topic \<Longrightarrow> \<exists>c. map_of (side False (peer_of t)) topic = Some c \<and> read_entry env topic c r'" by blast+
qed

lemma read_entry_grows: "read_entry env t c r \<Longrightarrow> grows r r' \<Longrightarrow> read_entry env t c r'"
  by (auto simp: read_entry_def dest: growsD)

lemma write_entry_grows: "write_entry t ty c r \<Longrightarrow> grows r r' \<Longrightarrow> write_entry t ty c r'"
  by (auto simp: write_entry_def dest: growsD)

lemma for_reads_Inr:
  assumes "forA (read_topic env) ts r s = (Inr r', out, t)"
  shows "wishes (peer_of t) = wishes (peer_of s) \<and> side True (peer_of t) = side True (peer_of s) \<and> grows r r' \<and>
    keys (side False (peer_of t)) = keys (side False (peer_of s)) \<union> {x \<in> set ts. data_topic env x} \<and>
    (\<forall>x c. map_of (side False (peer_of s)) x = Some c \<longrightarrow> map_of (side False (peer_of t)) x = Some c) \<and>
    (\<forall>x\<in>set ts. data_topic env x \<longrightarrow> (\<exists>c. map_of (side False (peer_of t)) x = Some c \<and> read_entry env x c r'))"
  using assms
proof (induction ts arbitrary: r s out)
  case Nil
  then show ?case by (simp add: retA_def)
next
  case (Cons x ts)
  from Cons.prems obtain r1 o1 s1 o2 where st: "read_topic env x r s = (Inr r1, o1, s1)"
    "forA (read_topic env) ts r1 s1 = (Inr r', o2, t)" by (auto elim: bindA_InrE)
  note a = read_topic_Inr [OF st(1)]
  note b = Cons.IH [OF st(2)]
  have old: "map_of (side False (peer_of t)) y = Some c" if "map_of (side False (peer_of s1)) y = Some c" for y c
    using b that by blast
  have x: "\<exists>c. map_of (side False (peer_of t)) x = Some c \<and> read_entry env x c r'" if d: "data_topic env x"
  proof -
    from a(6) [OF d] obtain c where c: "map_of (side False (peer_of s1)) x = Some c" "read_entry env x c r1" by blast
    moreover have "read_entry env x c r'" using c(2) by (rule read_entry_grows) (use b in blast)
    ultimately show ?thesis using old by blast
  qed
  have g: "grows r r'" using a(3) by (rule grows_trans) (use b in blast)
  have k: "keys (side False (peer_of t)) = keys (side False (peer_of s)) \<union> {y \<in> set (x # ts). data_topic env y}"
  proof -
    have "keys (side False (peer_of t)) = keys (side False (peer_of s1)) \<union> {y \<in> set ts. data_topic env y}" using b by blast
    with a(4) show ?thesis by auto
  qed
  show ?case
    using a(1,2) b old a(5) x g k by simp
qed

lemma write_topic_Inr:
  assumes "write_topic env (x, ty) r s = (Inr r', out, t)"
  shows "wishes (peer_of t) = wishes (peer_of s)" "side False (peer_of t) = side False (peer_of s)" "grows r r'"
    "keys (side True (peer_of t)) = insert x (keys (side True (peer_of s)))"
    "\<And>y c. map_of (side True (peer_of s)) y = Some c \<Longrightarrow> map_of (side True (peer_of t)) y = Some c"
    "\<exists>c. map_of (side True (peer_of t)) x = Some c \<and> write_entry x ty c r'"
proof -
  have "frame_wishes (write_topic env (x, ty) r)" by (auto simp: write_topic_def intro!: frame_rules)
  from frameAD [OF this assms] show "wishes (peer_of t) = wishes (peer_of s)" .
  from assms obtain m o1 where m: "subscribeWriteDataTopic env x ty s = (Inr m, o1, t)"
    "reply_push ''write_data_channels'' m r = Inr r'" by (auto simp: write_topic_def run_iffs)
  obtain c where c: "m = Array_msg [text_message x, id_message (ch_id c), text_message ty]"
    "side True (peer_of t) = memplace x c (side True (peer_of s))" "side False (peer_of t) = side False (peer_of s)"
    "map_of (side True (peer_of t)) x = Some c" by (rule subscribeWrite_Inr [OF m(1)])
  show "side False (peer_of t) = side False (peer_of s)" by (rule c(3))
  show "grows r r'" using m(2) by (rule reply_push_Inr)
  show "keys (side True (peer_of t)) = insert x (keys (side True (peer_of s)))" by (simp add: c(2) keys_memplace)
  show "map_of (side True (peer_of t)) y = Some d" if "map_of (side True (peer_of s)) y = Some d" for y d
    using that by (auto simp: c(2) map_of_memplace mhas_def)
  show "\<exists>c. map_of (side True (peer_of t)) x = Some c \<and> write_entry x ty c r'"
    using c(4) reply_push_Inr(2) [OF m(2)] by (simp add: c(1) write_entry_def)
qed

lemma for_writes_Inr:
  assumes "forA (write_topic env) ws r s = (Inr r', out, t)"
  shows "wishes (peer_of t) = wishes (peer_of s) \<and> side False (peer_of t) = side False (peer_of s) \<and> grows r r' \<and>
    keys (side True (peer_of t)) = keys (side True (peer_of s)) \<union> keys ws \<and>
    (\<forall>y c. map_of (side True (peer_of s)) y = Some c \<longrightarrow> map_of (side True (peer_of t)) y = Some c) \<and>
    (\<forall>(x, ty)\<in>set ws. \<exists>c. map_of (side True (peer_of t)) x = Some c \<and> write_entry x ty c r')"
  using assms
proof (induction ws arbitrary: r s out)
  case Nil
  then show ?case by (simp add: retA_def)
next
  case (Cons w ws)
  obtain x ty where w: "w = (x, ty)" by (cases w)
  from Cons.prems obtain r1 o1 s1 o2 where st: "write_topic env (x, ty) r s = (Inr r1, o1, s1)"
    "forA (write_topic env) ws r1 s1 = (Inr r', o2, t)" by (auto simp: w elim: bindA_InrE)
  note a = write_topic_Inr [OF st(1)]
  note b = Cons.IH [OF st(2)]
  have old: "map_of (side True (peer_of t)) y = Some c" if "map_of (side True (peer_of s1)) y = Some c" for y c
    using b that by blast
  obtain c where c: "map_of (side True (peer_of s1)) x = Some c" "write_entry x ty c r1" using a(6) by blast
  have "write_entry x ty c r'" using c(2) by (rule write_entry_grows) (use b in blast)
  with old [OF c(1)] have new: "\<exists>c. map_of (side True (peer_of t)) x = Some c \<and> write_entry x ty c r'" by blast
  have g: "grows r r'" using a(3) by (rule grows_trans) (use b in blast)
  show ?case using a(1,2,4,5) b old new g by (simp add: w)
qed

lemma close_read_Inr:
  assumes "close_read env x r s = (Inr r', out, t)"
  shows "wishes (peer_of t) = wishes (peer_of s) \<and> side True (peer_of t) = side True (peer_of s) \<and> grows r r' \<and>
    side False (peer_of t) = mdel x (side False (peer_of s))"
proof -
  have "frame_wishes (close_read env x r)" by (auto simp: close_read_def intro!: frame_rules)
  note w = frameAD [OF this assms]
  from assms obtain v o1 where v: "unsubscribeReadDataTopic env x s = (Inr v, o1, t)"
    "reply_removed ''read_data_channels'' v r = Inr r'" by (auto simp: close_read_def run_iffs)
  from v(1) have "(if False then unsubscribeWriteDataTopic env x else unsubscribeReadDataTopic env x) s = (Inr v, o1, t)" by simp
  note u = unsubscribe_Inr [OF this]
  from u reply_removed_grows [OF v(2)] w show ?thesis by simp
qed

lemma close_write_Inr:
  assumes "close_write env x r s = (Inr r', out, t)"
  shows "wishes (peer_of t) = wishes (peer_of s) \<and> side False (peer_of t) = side False (peer_of s) \<and> grows r r' \<and>
    side True (peer_of t) = mdel x (side True (peer_of s))"
proof -
  have "frame_wishes (close_write env x r)" by (auto simp: close_write_def intro!: frame_rules)
  note w = frameAD [OF this assms]
  from assms obtain v o1 where v: "unsubscribeWriteDataTopic env x s = (Inr v, o1, t)"
    "reply_removed ''write_data_channels'' v r = Inr r'" by (auto simp: close_write_def run_iffs)
  from v(1) have "(if True then unsubscribeWriteDataTopic env x else unsubscribeReadDataTopic env x) s = (Inr v, o1, t)" by simp
  note u = unsubscribe_Inr [OF this]
  from u reply_removed_grows [OF v(2)] w show ?thesis by simp
qed

text \<open>A loop of removals.\<close>

lemma for_close_Inr:
  assumes step: "\<And>x r s r' out t. f x r s = (Inr r', out, t) \<Longrightarrow>
      wishes (peer_of t) = wishes (peer_of s) \<and> side (\<not> b) (peer_of t) = side (\<not> b) (peer_of s) \<and> grows r r' \<and>
      side b (peer_of t) = mdel x (side b (peer_of s))"
    and "forA f ts r s = (Inr r', out, t)"
  shows "wishes (peer_of t) = wishes (peer_of s) \<and> side (\<not> b) (peer_of t) = side (\<not> b) (peer_of s) \<and> grows r r' \<and>
    side b (peer_of t) = fold mdel ts (side b (peer_of s))"
  using assms(2)
proof (induction ts arbitrary: r s out)
  case Nil
  then show ?case by (simp add: retA_def)
next
  case (Cons x ts)
  from Cons.prems obtain r1 o1 s1 o2 where st: "f x r s = (Inr r1, o1, s1)" "forA f ts r1 s1 = (Inr r', o2, t)"
    by (auto elim: bindA_InrE)
  from step [OF st(1)] Cons.IH [OF st(2)] show ?case using grows_trans by auto
qed

lemma fold_mdel: "fold mdel ts m = filter (\<lambda>p. fst p \<notin> set ts) m"
  by (induction ts arbitrary: m) (auto simp: mdel_def conj_commute)

lemma open_reads_Inr:
  assumes "open_reads env r s = (Inr r', out, t)"
  shows "wishes (peer_of t) = wishes (peer_of s) \<and> side True (peer_of t) = side True (peer_of s) \<and> grows r r' \<and>
    keys (side False (peer_of t)) = keys (side False (peer_of s)) \<union> {x \<in> set (pe_read (peer_of s)). data_topic env x} \<and>
    (\<forall>x\<in>set (pe_read (peer_of s)). data_topic env x \<longrightarrow>
       (\<exists>c. map_of (side False (peer_of t)) x = Some c \<and> read_entry env x c r'))"
  using for_reads_Inr [of env "pe_read (peer_of s)" r s r' out t] assms by (simp add: open_reads_def)

lemma open_writes_Inr:
  assumes "open_writes env r s = (Inr r', out, t)"
  shows "wishes (peer_of t) = wishes (peer_of s) \<and> side False (peer_of t) = side False (peer_of s) \<and> grows r r' \<and>
    keys (side True (peer_of t)) = keys (side True (peer_of s)) \<union> keys (pe_write (peer_of s)) \<and>
    (\<forall>(x, ty)\<in>set (pe_write (peer_of s)). \<exists>c. map_of (side True (peer_of t)) x = Some c \<and> write_entry x ty c r')"
  using for_writes_Inr [of env "pe_write (peer_of s)" r s r' out t] assms by (simp add: open_writes_def)

lemma close_reads_Inr:
  assumes "close_reads env r s = (Inr r', out, t)"
  shows "wishes (peer_of t) = wishes (peer_of s) \<and> side True (peer_of t) = side True (peer_of s) \<and> grows r r' \<and>
    side False (peer_of t) = filter (\<lambda>p. fst p \<in> set (pe_read (peer_of s))) (side False (peer_of s))"
proof -
  have f: "forA (close_read env) (filter (\<lambda>t. t \<notin> set (pe_read (peer_of s))) (map fst (pe_out (peer_of s)))) r s = (Inr r', out, t)"
    using assms by (simp add: close_reads_def)
  have "wishes (peer_of t) = wishes (peer_of s) \<and> side (\<not> False) (peer_of t) = side (\<not> False) (peer_of s) \<and> grows r r' \<and>
    side False (peer_of t) = fold mdel (filter (\<lambda>t. t \<notin> set (pe_read (peer_of s))) (map fst (pe_out (peer_of s)))) (side False (peer_of s))"
    by (rule for_close_Inr [OF _ f]) (use close_read_Inr in simp)
  moreover have "fold mdel (filter (\<lambda>t. t \<notin> set (pe_read (peer_of s))) (map fst (pe_out (peer_of s)))) (side False (peer_of s)) =
      filter (\<lambda>p. fst p \<in> set (pe_read (peer_of s))) (side False (peer_of s))"
    by (auto simp: fold_mdel side_def intro!: filter_cong intro: rev_image_eqI)
  ultimately show ?thesis by simp
qed

lemma close_writes_Inr:
  assumes "close_writes env r s = (Inr r', out, t)"
  shows "wishes (peer_of t) = wishes (peer_of s) \<and> side False (peer_of t) = side False (peer_of s) \<and> grows r r' \<and>
    side True (peer_of t) = filter (\<lambda>p. fst p \<in> keys (pe_write (peer_of s))) (side True (peer_of s))"
proof -
  have f: "forA (close_write env) (filter (\<lambda>t. t \<notin> keys (pe_write (peer_of s))) (map fst (pe_in (peer_of s)))) r s = (Inr r', out, t)"
    using assms by (simp add: close_writes_def)
  have "wishes (peer_of t) = wishes (peer_of s) \<and> side (\<not> True) (peer_of t) = side (\<not> True) (peer_of s) \<and> grows r r' \<and>
    side True (peer_of t) = fold mdel (filter (\<lambda>t. t \<notin> keys (pe_write (peer_of s))) (map fst (pe_in (peer_of s)))) (side True (peer_of s))"
    by (rule for_close_Inr [OF _ f]) (use close_write_Inr in simp)
  moreover have "fold mdel (filter (\<lambda>t. t \<notin> keys (pe_write (peer_of s))) (map fst (pe_in (peer_of s)))) (side True (peer_of s)) =
      filter (\<lambda>p. fst p \<in> keys (pe_write (peer_of s))) (side True (peer_of s))"
    by (auto simp: fold_mdel side_def intro!: filter_cong intro: rev_image_eqI)
  ultimately show ?thesis by simp
qed

lemma close_media_Inr:
  assumes "close_media env b r s = (Inr r', out, t)"
  shows "wishes (peer_of t) = wishes (peer_of s) \<and> channels (peer_of t) = channels (peer_of s) \<and> grows r r'"
proof -
  have "frame_wishes (close_media env b r)" "frame_channels (close_media env b r)"
    by (auto simp: close_media_def close_video_def intro!: frame_rules)
  from frameAD [OF this(1) assms] frameAD [OF this(2) assms]
  have fr: "wishes (peer_of t) = wishes (peer_of s)" "channels (peer_of t) = channels (peer_of s)" by simp_all
  obtain ts where "forA (close_video env b) ts r s = (Inr r', out, t)" using assms by (simp add: close_media_def)
  then have "grows r r'"
  proof (rule forA_Inr_inv [where P = "\<lambda>r1 _. grows r r1"])
    show "grows r b2" if "grows r a" "close_video env b x a s1 = (Inr b2, out1, t1)" for x a s1 out1 b2 t1
    proof -
      from that(2) obtain v where "reply_removed ''read_video_streams'' v a = Inr b2" by (auto simp: close_video_def run_iffs)
      with that(1) show ?thesis by (meson grows_trans reply_removed_grows)
    qed
  qed simp
  with fr show ?thesis by simp
qed

section \<open>After processing\<close>

lemma reconnect_Inr:
  assumes "reconnect env cfg s = (Inr (), out, t)"
  shows "wishes (peer_of t) = wishes (peer_of s) \<and> side w (peer_of t) = []"
proof -
  from assms obtain o1 s1 o2 s2 o3 s3 o4 where st:
    "on_peer (\<lambda>p. p\<lparr>pe_restart := False\<rparr>) s = (Inr (), o1, s1)" "removePeerConnection s1 = (Inr (), o2, s2)"
    "on_peer (\<lambda>p. p\<lparr>pe_out := [], pe_in := []\<rparr>) s2 = (Inr (), o3, s3)" "createPeerConnection env cfg s3 = (Inr (), o4, t)"
    unfolding reconnect_def by (auto elim!: thenA_InrE)
  have "wishes (peer_of s1) = wishes (peer_of s)" using st(1) by (auto simp: peer_act_iffs)
  moreover have "wishes (peer_of s2) = wishes (peer_of s1)" using frame_removePC(1) st(2) by (rule frameAD)
  moreover have "wishes (peer_of s3) = wishes (peer_of s2)" "side w (peer_of s3) = []" using st(3) by (auto simp: peer_act_iffs side_def)
  moreover have "wishes (peer_of t) = wishes (peer_of s3)" "channels (peer_of t) = channels (peer_of s3)"
    using frameAD [OF frame_create(1) st(4)] frameAD [OF frame_create(2) st(4)] by simp_all
  ultimately show ?thesis by (auto simp: side_channels split: if_splits)
qed

lemma frame_negotiate [simp, intro]: "frame_wishes (negotiate env r)" "frame_channels (negotiate env r)"
  by (auto simp: negotiate_def intro!: frame_rules frame_on_peer)

lemma frame_send_reply [simp, intro]: "frame_wishes (send_reply env i b r)" "frame_channels (send_reply env i b r)"
  by (auto simp: send_reply_def Let_def intro!: frame_rules frame_on_peer)

lemma negotiate_grows: "negotiate env r s = (Inr r', out, t) \<Longrightarrow> grows r r'"
  by (auto simp: negotiate_def run_iffs grows_emplace split: if_splits)

lemma keys_filter: "keys (filter (\<lambda>q. fst q \<in> S) m) = keys m \<inter> S"
  by auto

lemma map_of_filter_in: "x \<in> S \<Longrightarrow> map_of (filter (\<lambda>q. fst q \<in> S) m) x = map_of m x"
  by (induction m) auto

text \<open>The update of the channels: which ones there are and what the reply says of them.\<close>

lemma update_channels_Inr:
  assumes "update_channels env b r s = (Inr r', out, t)"
  shows "wishes (peer_of t) = wishes (peer_of s)"
    "keys (side False (peer_of t)) =
       (keys (side False (peer_of s)) \<union> {x. data_topic env x}) \<inter> set (pe_read (peer_of s))"
    "keys (side True (peer_of t)) = keys (pe_write (peer_of s))"
    "\<And>x. x \<in> set (pe_read (peer_of s)) \<Longrightarrow> data_topic env x \<Longrightarrow>
       \<exists>c. map_of (side False (peer_of t)) x = Some c \<and> read_entry env x c r'"
    "\<And>x ty. (x, ty) \<in> set (pe_write (peer_of s)) \<Longrightarrow> \<exists>c. map_of (side True (peer_of t)) x = Some c \<and> write_entry x ty c r'"
proof -
  obtain r1 o1 s1 r2 o2 s2 r3 o3 s3 r4 o4 s4 o5 where st: "open_reads env r s = (Inr r1, o1, s1)"
    "open_writes env r1 s1 = (Inr r2, o2, s2)" "close_reads env r2 s2 = (Inr r3, o3, s3)"
    "close_media env b r3 s3 = (Inr r4, o4, s4)" "close_writes env r4 s4 = (Inr r', o5, t)"
    using assms unfolding update_channels_def by (auto elim!: bindA_InrE)
  note e1 = open_reads_Inr [OF st(1)] and e2 = open_writes_Inr [OF st(2)] and e3 = close_reads_Inr [OF st(3)]
    and e4 = close_media_Inr [OF st(4)] and e5 = close_writes_Inr [OF st(5)]
  have w: "wishes (peer_of s1) = wishes (peer_of s)" "wishes (peer_of s2) = wishes (peer_of s)"
    "wishes (peer_of s4) = wishes (peer_of s)" "wishes (peer_of t) = wishes (peer_of s)"
    using e1 e2 e3 e4 e5 by simp_all
  then have reqs: "pe_write (peer_of s1) = pe_write (peer_of s)" "pe_read (peer_of s2) = pe_read (peer_of s)"
    "pe_write (peer_of s4) = pe_write (peer_of s)" by (simp_all add: wishes_def)
  have s34: "side b (peer_of s4) = side b (peer_of s3)" for b using e4 by (simp add: side_channels)
  have f: "side False (peer_of t) = filter (\<lambda>q. fst q \<in> set (pe_read (peer_of s))) (side False (peer_of s1))"
    using e2 e3 e5 s34 [of False] reqs by simp
  have g: "side True (peer_of t) = filter (\<lambda>q. fst q \<in> keys (pe_write (peer_of s))) (side True (peer_of s2))"
    using e3 e5 s34 [of True] reqs by simp
  have gr: "grows r1 r'" "grows r2 r'" using e2 e3 e4 e5 grows_trans by meson+
  show "wishes (peer_of t) = wishes (peer_of s)" by (rule w(4))
  show "keys (side False (peer_of t)) =
       (keys (side False (peer_of s)) \<union> {x. data_topic env x}) \<inter> set (pe_read (peer_of s))"
    unfolding f keys_filter using e1 by auto
  show "keys (side True (peer_of t)) = keys (pe_write (peer_of s))"
    unfolding g keys_filter using e2 reqs by auto
  show "\<exists>c. map_of (side False (peer_of t)) x = Some c \<and> read_entry env x c r'"
    if x: "x \<in> set (pe_read (peer_of s))" "data_topic env x" for x
  proof -
    from e1 x obtain c where "map_of (side False (peer_of s1)) x = Some c" "read_entry env x c r1" by auto
    with map_of_filter_in [OF x(1), of "side False (peer_of s1)"] read_entry_grows [OF _ gr(1)] show ?thesis
      by (auto simp: f)
  qed
  show "\<exists>c. map_of (side True (peer_of t)) x = Some c \<and> write_entry x ty c r'"
    if x: "(x, ty) \<in> set (pe_write (peer_of s))" for x ty
  proof -
    from e2 reqs x obtain c where "map_of (side True (peer_of s2)) x = Some c" "write_entry x ty c r2" by auto
    moreover have "x \<in> keys (pe_write (peer_of s))" using x by force
    ultimately show ?thesis
      using map_of_filter_in [of x "keys (pe_write (peer_of s))" "side True (peer_of s2)"] write_entry_grows [OF _ gr(2)]
      by (auto simp: g)
  qed
qed

text \<open>The processing: its state \<open>s0\<close> before and \<open>s1\<close> after the update, and the reply \<open>r\<close>.\<close>

lemma processing_phases:
  assumes "processSubscriptionsSync env cfg i ack (p, h) = (Inr (), out, t)"
  obtains s0 r0 r1 o1 s1 r o2 s2 o3 o0 where
    "wishes (peer_of s0) = wishes p" "\<And>w. side w (peer_of s0) = (if is_reconnect env p then [] else side w p)"
    "update_channels env (is_reconnect env p \<or> \<not> pe_connected p) r0 s0 = (Inr r1, o1, s1)"
    "negotiate env r1 s1 = (Inr r, o2, s2)" "send_reply env i (is_reconnect env p) r s2 = (Inr (), o3, t)"
    "out = o0 @ o1 @ o2 @ o3"
proof -
  let ?again = "is_reconnect env p" and ?r0 = "reply_start p (case ack of None \<Rightarrow> [] | Some r \<Rightarrow> r)"
  obtain oa sa ob s0 oc where a: "on_peer (\<lambda>p. p\<lparr>pe_negotiation := ?again\<rparr>) (p, h) = (Inr (), oa, sa)"
    and c: "ifA ?again (reconnect env cfg) sa = (Inr (), ob, s0)"
    and d: "bindA (update_channels env (?again \<or> \<not> pe_connected p) ?r0) (\<lambda>r.
        bindA (negotiate env r) (send_reply env i ?again)) s0 = (Inr (), oc, t)" and out: "out = oa @ ob @ oc"
    using assms unfolding processSubscriptionsSync_def Let_def by (auto elim!: thenA_InrE)
  obtain r1 o1 s1 od where u: "update_channels env (?again \<or> \<not> pe_connected p) ?r0 s0 = (Inr r1, o1, s1)"
    and e: "bindA (negotiate env r1) (send_reply env i ?again) s1 = (Inr (), od, t)" and oc: "oc = o1 @ od"
    using d by (rule bindA_InrE)
  obtain r o2 s2 o3 where n: "negotiate env r1 s1 = (Inr r, o2, s2)" "send_reply env i ?again r s2 = (Inr (), o3, t)"
    and od: "od = o2 @ o3" using e by (rule bindA_InrE)
  from a have sa: "sa = (p\<lparr>pe_negotiation := ?again\<rparr>, h)" by (simp add: peer_act_iffs)
  show thesis
  proof (rule that [OF _ _ u n])
    show "wishes (peer_of s0) = wishes p"
      using c reconnect_Inr [of env cfg sa ob s0] by (cases ?again) (auto simp: ifA_def retA_def sa)
    show "side w (peer_of s0) = (if ?again then [] else side w p)" for w
      using c reconnect_Inr [of env cfg sa ob s0 w] by (cases ?again) (auto simp: ifA_def retA_def sa)
    show "out = (oa @ ob) @ o1 @ o2 @ o3" by (simp add: out oc od)
  qed
qed

text \<open>C2. When the processing returns, the peer has exactly the data channels it asked for: a read channel for
  every requested topic that Introspection knows as a data topic (and those kept from before that are still
  requested), a write channel for every requested write topic. The requests themselves are unchanged.\<close>

theorem processing_matches_requests:
  assumes "processSubscriptionsSync env cfg i ack (p, h) = (Inr (), out, (p', h'))"
  shows "keys (pe_in p') = keys (pe_write p) \<and>
    keys (pe_out p') = {x \<in> set (pe_read p). data_topic env x} \<union>
       (if is_reconnect env p then {} else keys (pe_out p) \<inter> set (pe_read p)) \<and>
    pe_read p' = pe_read p \<and> pe_write p' = pe_write p"
proof -
  from assms obtain s0 r0 r1 o1 s1 r o2 s2 o3 where
    w0: "wishes (peer_of s0) = wishes p" and k0: "\<And>w. side w (peer_of s0) = (if is_reconnect env p then [] else side w p)"
    and u: "update_channels env (is_reconnect env p \<or> \<not> pe_connected p) r0 s0 = (Inr r1, o1, s1)"
    and n: "negotiate env r1 s1 = (Inr r, o2, s2)" "send_reply env i (is_reconnect env p) r s2 = (Inr (), o3, p', h')"
    by (rule processing_phases) (rule that)
  have "channels p' = channels (peer_of s1)" "wishes p' = wishes (peer_of s1)"
    using frameAD [OF frame_send_reply(2) n(2)] frameAD [OF frame_negotiate(2) n(1)]
      frameAD [OF frame_send_reply(1) n(2)] frameAD [OF frame_negotiate(1) n(1)] by simp_all
  then have "pe_in p' = side True (peer_of s1)" "pe_out p' = side False (peer_of s1)" "wishes p' = wishes p"
    using update_channels_Inr(1) [OF u] w0 by (simp_all add: channels_def side_def)
  moreover have "pe_read (peer_of s0) = pe_read p" "pe_write (peer_of s0) = pe_write p" using w0 by (simp_all add: wishes_def)
  ultimately show ?thesis
    using update_channels_Inr(2,3) [OF u] k0 [of False] by (auto simp: wishes_def side_def)
qed

text \<open>C17. The update that a connected client gets after every processing, if the socket is open, announces the id of the
  channel that is open for each requested topic that Introspection knows as a data topic, and of the one for each
  topic requested for writing. A channel that is kept for a topic Introspection has lost is not announced.\<close>

theorem update_announces_channels:
  assumes "processSubscriptionsSync env cfg (- 1) ack (p, h) = (Inr (), out, (p', h'))"
    and "pe_connected p" "e_sio env"
  shows "\<exists>r o1. out = o1 @ [Sio_emit ''peer:update'' (Object_msg r)] \<and>
    (\<forall>x\<in>set (pe_read p). data_topic env x \<longrightarrow> (\<exists>c. map_of (pe_out p') x = Some c \<and> read_entry env x c r)) \<and>
    (\<forall>(x, ty)\<in>set (pe_write p). \<exists>c. map_of (pe_in p') x = Some c \<and> write_entry x ty c r)"
proof -
  from assms(1) obtain s0 r0 r1 o1 s1 r o2 s2 o3 o0 where
    w0: "wishes (peer_of s0) = wishes p"
    and u: "update_channels env (is_reconnect env p \<or> \<not> pe_connected p) r0 s0 = (Inr r1, o1, s1)"
    and n: "negotiate env r1 s1 = (Inr r, o2, s2)" "send_reply env (- 1) (is_reconnect env p) r s2 = (Inr (), o3, p', h')"
    and out: "out = o0 @ o1 @ o2 @ o3"
    by (rule processing_phases) (rule that)
  have ch: "pe_in p' = side True (peer_of s1)" "pe_out p' = side False (peer_of s1)"
    using frameAD [OF frame_send_reply(2) n(2)] frameAD [OF frame_negotiate(2) n(1)]
    by (simp_all add: channels_def side_def)
  have "wishes (peer_of s2) = wishes p"
    using w0 update_channels_Inr(1) [OF u] frameAD [OF frame_negotiate(1) n(1)] by simp
  then have conn: "pe_connected (peer_of s2)" using assms(2) by (simp add: wishes_def)
  let ?q = "peer_of s2"
  let ?r = "let r = (if pe_id_app ?q = [] then r else memplace ''id_app'' (text_message (pe_id_app ?q)) r)
     in if pe_id_instance ?q = [] then r else memplace ''id_instance'' (text_message (pe_id_instance ?q)) r"
  have "o3 = [Sio_emit ''peer:update'' (Object_msg ?r)]"
    using n(2) conn assms(3) by (auto simp: send_reply_def sio_emit_def emitA_def Let_def id_def)
  moreover have "grows r1 ?r"
    using negotiate_grows [OF n(1)] by (simp add: Let_def grows_emplace_trans)
  ultimately obtain rr where o3: "o3 = [Sio_emit ''peer:update'' (Object_msg rr)]" and gr: "grows r1 rr" by blast
  have reqs: "pe_read (peer_of s0) = pe_read p" "pe_write (peer_of s0) = pe_write p" using w0 by (simp_all add: wishes_def)
  show ?thesis
  proof (intro exI conjI)
    show "out = (o0 @ o1 @ o2) @ [Sio_emit ''peer:update'' (Object_msg rr)]" by (simp only: out o3 append_assoc)
    show "\<forall>x\<in>set (pe_read p). data_topic env x \<longrightarrow> (\<exists>c. map_of (pe_out p') x = Some c \<and> read_entry env x c rr)"
      using update_channels_Inr(4) [OF u] reqs ch read_entry_grows [OF _ gr] by metis
    show "\<forall>(x, ty)\<in>set (pe_write p). \<exists>c. map_of (pe_in p') x = Some c \<and> write_entry x ty c rr"
    proof (intro ballI, clarify)
      fix x ty assume "(x, ty) \<in> set (pe_write p)"
      with update_channels_Inr(5) [OF u, of x ty] reqs obtain c where
        "map_of (side True (peer_of s1)) x = Some c" "write_entry x ty c r1" by auto
      with write_entry_grows [OF _ gr] ch show "\<exists>c. map_of (pe_in p') x = Some c \<and> write_entry x ty c rr" by auto
    qed
  qed
qed

section \<open>Requests\<close>

lemma addReqRead_distinct: "distinct (pe_read p) \<Longrightarrow> distinct (pe_read (snd (addReqRead topic p)))"
  by (simp add: addReqRead_def)

lemma drop_write_Some:
  "drop_write topic ty ws = Some vs \<Longrightarrow> (topic, ty) \<notin> set ws \<and> vs = filter (\<lambda>w. fst w \<noteq> topic) ws"
  by (induction topic ty ws arbitrary: vs rule: drop_write.induct) (auto split: if_splits)

lemma drop_write_None: "drop_write topic ty ws = None \<longleftrightarrow> (topic, ty) \<in> set ws"
  by (induction topic ty ws rule: drop_write.induct) auto

lemma dropped_before_id: "distinct (map fst ws) \<Longrightarrow> (topic, ty) \<in> set ws \<Longrightarrow> dropped_before topic ty ws = ws"
  by (induction topic ty ws rule: dropped_before.induct) force+

lemma map_of_filter_fst: "map_of (filter (\<lambda>w. fst w \<noteq> k) ws) = (map_of ws)(k := None)"
  by (induction ws) (auto simp: fun_eq_iff)

lemma remove_first_write_map:
  "distinct (map fst ws) \<Longrightarrow> distinct (map fst (remove_first_write topic ws)) \<and> map_of (remove_first_write topic ws) = (map_of ws)(topic := None)"
proof (induction ws)
  case Nil
  then show ?case by simp
next
  case (Cons w ws)
  have sub: "keys (remove_first_write topic ws) \<subseteq> keys ws" for ws :: "(string \<times> string) list" by (induction ws) auto
  from Cons sub [of ws] show ?case by (auto simp: fun_eq_iff map_of_eq_None_iff)
qed

lemma write_requests_map:
  assumes "distinct (map fst (pe_write p))"
  shows "distinct (map fst (pe_write (snd (addReqWrite topic ty p)))) \<and>
    map_of (pe_write (snd (addReqWrite topic ty p))) = (map_of (pe_write p))(topic \<mapsto> ty) \<and>
    distinct (map fst (pe_write (snd (removeReqWrite topic p)))) \<and>
    map_of (pe_write (snd (removeReqWrite topic p))) = (map_of (pe_write p))(topic := None) \<and>
    fst (addReqWrite topic ty p) = (map_of (pe_write p) topic \<noteq> Some ty)"
proof -
  have mem: "(topic, ty) \<in> set (pe_write p) \<longleftrightarrow> map_of (pe_write p) topic = Some ty"
    using assms by (metis map_of_SomeD map_of_is_SomeI)
  have rm: "distinct (map fst (pe_write (snd (removeReqWrite topic p)))) \<and>
      map_of (pe_write (snd (removeReqWrite topic p))) = (map_of (pe_write p))(topic := None)"
    using remove_first_write_map [OF assms, of topic] assms
    by (auto simp: removeReqWrite_def fun_eq_iff map_of_eq_None_iff)
  show ?thesis
  proof (cases "drop_write topic ty (pe_write p)")
    case None
    with drop_write_None have "(topic, ty) \<in> set (pe_write p)" by blast
    with None assms mem rm show ?thesis by (auto simp: addReqWrite_def dropped_before_id)
  next
    case (Some vs)
    from drop_write_Some [OF Some] have vs: "(topic, ty) \<notin> set (pe_write p)" "vs = filter (\<lambda>w. fst w \<noteq> topic) (pe_write p)" by auto
    have "map_of (vs @ [(topic, ty)]) = (map_of (pe_write p))(topic \<mapsto> ty)"
      by (auto simp: vs(2) map_add_def map_of_filter_fst fun_eq_iff split: option.splits)
    moreover have "distinct (map fst (vs @ [(topic, ty)]))" using assms by (auto simp: vs(2) distinct_map_filter)
    ultimately show ?thesis using Some mem rm vs(1) by (simp add: addReqWrite_def)
  qed
qed

text \<open>The write subscriptions are a map from topics to message types: adding sets the type of the topic (a
  new type replaces the old one), removing removes it, and no topic is ever listed twice.\<close>

theorem write_requests_are_a_map:
  assumes "distinct (map fst (pe_write p))"
  shows "distinct (map fst (pe_write (snd (addReqWrite topic ty p)))) \<and>
    map_of (pe_write (snd (addReqWrite topic ty p))) = (map_of (pe_write p))(topic \<mapsto> ty) \<and>
    distinct (map fst (pe_write (snd (removeReqWrite topic p)))) \<and>
    map_of (pe_write (snd (removeReqWrite topic p))) = (map_of (pe_write p))(topic := None) \<and>
    fst (addReqWrite topic ty p) = (map_of (pe_write p) topic \<noteq> Some ty)"
  using assms by (rule write_requests_map)

theorem write_requests_are_a_map_witness:
  "map_of (pe_write (snd (addReqWrite ''/cmd'' ''Twist'' (snd (addReqWrite ''/cmd'' ''Joy'' (blank_peer ''a'' [] [] []))))) ) ''/cmd'' = Some ''Twist''"
  using write_requests_are_a_map [of "snd (addReqWrite ''/cmd'' ''Joy'' (blank_peer ''a'' [] [] []))" "''/cmd''" "''Twist''"]
  by (simp add: addReqWrite_def blank_peer_def)

section \<open>Ids of channels\<close>

text \<open>
  The ids in use are distinct, none is 0, and none is above the counter, which has not passed \<open>N\<close>. An
  action costs the number of channels it may open: \<open>costs k m\<close> carries the invariant as long as the
  16 bits of the counter suffice, on its error paths too.
\<close>

definition ids :: "peer \<Rightarrow> 16 word list" where
  "ids p = map (\<lambda>q. ch_id (snd q)) (pe_out p @ pe_in p)"

definition ids_inv :: "nat \<Rightarrow> peer \<Rightarrow> bool" where
  "ids_inv N p = (distinct (ids p) \<and> list_all (\<lambda>i. 0 < i \<and> i \<le> pe_next_channel p) (ids p) \<and> unat (pe_next_channel p) \<le> N)"

definition costs :: "nat \<Rightarrow> 'a pact \<Rightarrow> bool" where
  "costs k m = (\<forall>s N. N + k < 2 ^ 16 \<longrightarrow> ids_inv N (peer_of s) \<longrightarrow> ids_inv (N + k) (peer_of (final (m s))))"

lemma costsI: "(\<And>s N. N + k < 2 ^ 16 \<Longrightarrow> ids_inv N (peer_of s) \<Longrightarrow> ids_inv (N + k) (peer_of (final (m s)))) \<Longrightarrow> costs k m"
  unfolding costs_def by blast

lemma costsD: "costs k m \<Longrightarrow> N + k < 2 ^ 16 \<Longrightarrow> ids_inv N (peer_of s) \<Longrightarrow> ids_inv (N + k) (peer_of (final (m s)))"
  unfolding costs_def by blast

lemma ids_inv_channels: "channels p = channels q \<Longrightarrow> ids_inv N p = ids_inv N q"
  by (simp add: ids_inv_def ids_def channels_def)

lemma costs_frame:
  assumes "frame_channels m"
  shows "costs 0 m"
proof (rule costsI)
  fix s N assume i: "ids_inv N (peer_of s)"
  have c: "channels (peer_of (final (m s))) = channels (peer_of s)"
    by (rule assms [unfolded frameA_def, rule_format])
  from i ids_inv_channels [OF c, of N] show "ids_inv (N + 0) (peer_of (final (m s)))" by simp
qed

lemma final_bindA:
  "final (bindA m f s) = (case m s of (Inl e, out, s1) \<Rightarrow> s1 | (Inr x, out, s1) \<Rightarrow> final (f x s1))"
  by (auto simp: bindA_def split: prod.splits sum.splits)

lemma ids_inv_mono: "ids_inv N p \<Longrightarrow> N \<le> M \<Longrightarrow> ids_inv M p"
  by (auto simp: ids_inv_def)

lemma costs_bind:
  assumes "costs k m" "\<And>x. costs j (f x)"
  shows "costs (k + j) (bindA m f)"
proof (rule costsI)
  fix s N assume N: "N + (k + j) < 2 ^ 16" "ids_inv N (peer_of s)"
  obtain r out s1 where m: "m s = (r, out, s1)" by (cases "m s")
  have s1: "ids_inv (N + k) (peer_of s1)" using costsD [OF assms(1), of N s] N m by simp
  show "ids_inv (N + (k + j)) (peer_of (final (bindA m f s)))"
  proof (cases r)
    case (Inl e)
    with m s1 show ?thesis by (auto simp: final_bindA intro: ids_inv_mono)
  next
    case (Inr x)
    with m costsD [OF assms(2), of "N + k" s1 x] s1 N show ?thesis by (simp add: final_bindA add.assoc)
  qed
qed

lemma costs_bind0: "costs 0 m \<Longrightarrow> (\<And>x. costs k (f x)) \<Longrightarrow> costs k (bindA m f)"
  using costs_bind [of 0 m k f] by simp

lemma costs_bind1: "costs k m \<Longrightarrow> (\<And>x. costs 0 (f x)) \<Longrightarrow> costs k (bindA m f)"
  using costs_bind [of k m 0 f] by simp

lemma costs_then0: "costs 0 m \<Longrightarrow> costs k n \<Longrightarrow> costs k (thenA m n)"
  by (simp add: thenA_bindA costs_bind0)

lemma costs_then1: "costs k m \<Longrightarrow> costs 0 n \<Longrightarrow> costs k (thenA m n)"
  by (simp add: thenA_bindA costs_bind1)

lemma costs_mono:
  assumes "costs k m" "k \<le> j"
  shows "costs j m"
proof (rule costsI)
  fix s N assume "N + j < 2 ^ 16" "ids_inv N (peer_of s)"
  with assms have "ids_inv (N + k) (peer_of (final (m s)))" by (intro costsD) auto
  then show "ids_inv (N + j) (peer_of (final (m s)))" by (rule ids_inv_mono) (simp add: assms)
qed

lemma costs_for: "(\<And>x a. costs k (f x a)) \<Longrightarrow> costs (length xs * k) (forA f xs a)"
proof (induction xs arbitrary: a)
  case Nil
  then show ?case by (simp add: costs_frame)
next
  case (Cons x xs)
  from Cons.prems Cons.IH show ?case using costs_bind [of k "f x a" "length xs * k" "forA f xs"] by simp
qed

lemma mset_mput_new: "map_of m k = None \<Longrightarrow> mset (mput k v m) = add_mset (k, v) (mset m)"
  by (induction k v m rule: mput.induct) (auto split: if_splits)

lemma ids_new:
  assumes "ids_inv N p" "Suc N < 2 ^ 16" "c = \<lparr>ch_dc = d, ch_id = pe_next_channel p + 1\<rparr>"
    and q: "q = p\<lparr>pe_next_channel := pe_next_channel p + 1\<rparr>"
    and r: "r = (if w then q\<lparr>pe_in := memplace topic c (pe_in q)\<rparr> else q\<lparr>pe_out := memplace topic c (pe_out q)\<rparr>)"
  shows "ids_inv (Suc N) q \<and> ids_inv (Suc N) r"
proof -
  let ?n = "pe_next_channel p"
  have lt: "unat ?n \<le> N" "?n < ?n + 1" "unat (?n + 1) = Suc (unat ?n)"
  proof -
    show n: "unat ?n \<le> N" using assms(1) by (simp add: ids_inv_def)
    with assms(2) have "unat ?n + 1 < 2 ^ 16" by simp
    then show "unat (?n + 1) = Suc (unat ?n)" by (simp add: unat_word_ariths)
    then show "?n < ?n + 1" by (simp add: word_less_nat_alt)
  qed
  have qi: "ids_inv (Suc N) q"
  proof -
    have "i \<le> ?n \<Longrightarrow> i \<le> ?n + 1" for i using lt(2) by (meson order.strict_implies_order order.trans)
    then show ?thesis using assms(1) lt by (fastforce simp: ids_inv_def q ids_def list_all_iff)
  qed
  have fresh: "?n + 1 \<notin> set (ids q)"
  proof
    assume "?n + 1 \<in> set (ids q)"
    moreover have "ids q = ids p" by (simp add: q ids_def)
    ultimately have "?n + 1 \<le> ?n" using assms(1) by (simp add: ids_inv_def list_all_iff)
    with lt(2) show False by simp
  qed
  have z: "0 < ?n + 1" using lt(3) by (simp add: word_less_nat_alt)
  have "ids_inv (Suc N) r"
  proof (cases "map_of (side w q) topic")
    case (Some c')
    then have "r = q" by (auto simp: r side_def memplace_def)
    with qi show ?thesis by simp
  next
    case None
    have "mset (ids r) = add_mset (?n + 1) (mset (ids q))"
      using None assms(3) by (cases w) (simp_all add: r side_def memplace_def ids_def mset_mput_new)
    then have "mset (ids r) = mset ((?n + 1) # ids q)" by simp
    from mset_eq_imp_distinct_iff [OF this] mset_eq_setD [OF this]
    have d: "distinct (ids r)" "set (ids r) = insert (?n + 1) (set (ids q))"
      using fresh qi by (simp_all add: ids_inv_def)
    have "pe_next_channel r = ?n + 1" "pe_next_channel q = ?n + 1" by (simp_all add: r q)
    with d qi z show ?thesis by (simp add: ids_inv_def list_all_iff)
  qed
  with qi show ?thesis by simp
qed

lemma costs_openDC: "costs 1 (openDataChannel env topic ty rel write)"
proof (rule costsI)
  fix s N assume N: "N + 1 < 2 ^ 16" "ids_inv N (peer_of s)"
  obtain p h where s: "s = (p, h)" by (cases s)
  from N(2) s have inv: "ids_inv N p" by simp
  have nc: "Suc N < 2 ^ 16" using N by simp
  note new = ids_new [OF inv nc refl refl refl, where d = "hb_next_dc h" and topic = topic]
  show "ids_inv (N + 1) (peer_of (final (openDataChannel env topic ty rel write s)))"
  proof (cases "pe_pc p")
    case None
    with new show ?thesis
      by (simp add: openDataChannel_def s thenA_def bindA_def on_peer_def get_peer_def act_defs Let_def)
  next
    case (Some pc)
    with new [of True] new [of False] show ?thesis
      by (simp add: openDataChannel_def s thenA_def bindA_def on_peer_def on_hub_def get_peer_def get_hub_def act_defs Let_def)
  qed
qed

lemma costs_the_channel: "costs 1 (the_channel env topic ty rel write)"
  unfolding the_channel_def
proof (rule costs_bind0 [OF costs_frame [OF frame_get(1)]])
  fix cs :: "(string, chan) omap"
  show "costs 1 (case map_of cs topic of Some c \<Rightarrow> retA c
       | None \<Rightarrow> bindA (openDataChannel env topic ty rel write) (\<lambda>c. thenA (on_peer (\<lambda>p. p\<lparr>pe_negotiation := True\<rparr>)) (retA c)))"
  proof (cases "map_of cs topic")
    case None
    have "frame_channels (thenA (on_peer (\<lambda>p. p\<lparr>pe_negotiation := True\<rparr>)) (retA c))" for c :: chan
      by (intro frame_rules frame_on_peer) simp
    then have "costs 1 (bindA (openDataChannel env topic ty rel write) (\<lambda>c. thenA (on_peer (\<lambda>p. p\<lparr>pe_negotiation := True\<rparr>)) (retA c)))"
      by (intro costs_bind1 [OF costs_openDC] costs_frame)
    with None show ?thesis by simp
  next
    case (Some c)
    have "costs 0 (retA c :: chan pact)" by (intro costs_frame frameA_basic)
    with Some show ?thesis by (auto intro: costs_mono)
  qed
qed

lemma costs_subscribe:
  "costs 1 (subscribeReadDataTopic env topic ty)" "costs 1 (subscribeWriteDataTopic env topic ty)"
  unfolding subscribeReadDataTopic_def subscribeWriteDataTopic_def Let_def
  by (intro costs_bind0 [OF costs_frame] costs_bind1 [OF costs_the_channel] costs_frame frame_rules
        frame_topic_qos frame_topic_conf frame_get frame_on_readers frame_on_writers)+

lemma ids_inv_del: "ids_inv N p \<Longrightarrow> ids_inv N (p\<lparr>pe_in := mdel t (pe_in p)\<rparr>) \<and> ids_inv N (p\<lparr>pe_out := mdel t (pe_out p)\<rparr>)"
  by (auto simp: ids_inv_def ids_def mdel_def list_all_iff distinct_map_filter)

lemma costs_on_peer: "(\<And>N p. ids_inv N p \<Longrightarrow> ids_inv N (f p)) \<Longrightarrow> costs 0 (on_peer f)"
  by (rule costsI) (simp add: on_peer_def modA_def)

lemma costs_closeDC: "costs 0 (closeDataChannel env topic write)"
proof -
  have "costs 0 (on_peer (\<lambda>p. if write then p\<lparr>pe_in := mdel topic (pe_in p)\<rparr> else p\<lparr>pe_out := mdel topic (pe_out p)\<rparr>))"
    by (rule costs_on_peer) (use ids_inv_del in auto)
  then show ?thesis
    unfolding closeDataChannel_def
    by (intro costs_bind0 [OF costs_frame] costs_then0 [OF costs_frame] frame_get frameA_basic)
qed

lemma costs_option: "costs 0 m \<Longrightarrow> (\<And>x. costs 0 (f x)) \<Longrightarrow> costs 0 (case y of None \<Rightarrow> m | Some x \<Rightarrow> f x)"
  by (cases y) simp_all

lemma costs_unsubscribe:
  "costs 0 (unsubscribeReadDataTopic env topic)" "costs 0 (unsubscribeWriteDataTopic env topic)"
proof -
  have r: "costs 0 (thenA m (thenA (closeDataChannel env topic b) (retA v)))" if "frame_channels m" for m b and v :: "msg_ptr list"
    by (intro costs_then0 costs_frame [OF that] costs_closeDC costs_frame [OF frameA_basic(1)])
  have n: "costs 0 (retA v :: 'a pact)" for v :: 'a by (intro costs_frame frameA_basic)
  have f1: "frame_channels (ifA (topic \<noteq> HEARTBEAT_CHANNEL_ID)
      (bindA (get_hub (\<lambda>h. find_reader topic (hb_readers h))) (\<lambda>r. ifA (r \<noteq> None) (release_reader env topic d))))" for d
    by (intro frame_rules frame_get frame_release)
  have f2: "frame_channels (ifA (topic \<noteq> HEARTBEAT_CHANNEL_ID)
      (bindA (on_writers (removeInput (e_ros_ok env) topic d)) (\<lambda>_. retA ())))" for d
    by (intro frame_rules frame_on_writers)
  show "costs 0 (unsubscribeReadDataTopic env topic)"
    unfolding unsubscribeReadDataTopic_def
    by (rule costs_bind0 [OF costs_frame [OF frame_get(1)]]) (intro costs_option n r [OF f1])
  show "costs 0 (unsubscribeWriteDataTopic env topic)"
    unfolding unsubscribeWriteDataTopic_def
    by (rule costs_bind0 [OF costs_frame [OF frame_get(1)]]) (intro costs_option n r [OF f2])
qed

lemma costs_lift: "costs 0 (liftA r)" by (intro costs_frame frameA_basic)

lemma costs_turns:
  "costs 1 (read_topic env topic r)" "costs 1 (write_topic env w r)" "costs 0 (close_read env topic r)" "costs 0 (close_write env topic r)"
proof -
  show "costs 1 (read_topic env topic r)"
  proof -
    have "costs 1 (retA r :: (string, msg_ptr) omap pact)" by (rule costs_mono [OF costs_frame]) auto
    moreover have "costs 1 (bindA (subscribeReadDataTopic env topic (e_topic env topic)) (\<lambda>c. liftA (reply_push ''read_data_channels'' c r)))"
      by (intro costs_bind1 costs_subscribe costs_lift)
    moreover have "costs 1 (bindA (subscribeMediaTopic env topic (e_topic env topic)) (\<lambda>c. liftA (reply_push ''read_video_streams'' c r)))"
      by (rule costs_mono [OF costs_frame]) (auto intro!: frame_rules)
    ultimately show ?thesis by (simp add: read_topic_def Let_def)
  qed
  show "costs 1 (write_topic env w r)"
    unfolding write_topic_def by (intro costs_bind1 costs_subscribe costs_lift)
  show "costs 0 (close_read env topic r)" "costs 0 (close_write env topic r)"
    unfolding close_read_def close_write_def by (intro costs_bind0 costs_unsubscribe costs_lift)+
qed

lemma open_reads_costs:
  "N + length (pe_read (peer_of s)) < 2 ^ 16 \<Longrightarrow> ids_inv N (peer_of s) \<Longrightarrow>
   ids_inv (N + length (pe_read (peer_of s))) (peer_of (final (open_reads env r s)))"
  using costsD [OF costs_for [where f = "read_topic env" and xs = "pe_read (peer_of s)" and a = r, OF costs_turns(1)], of N s] by (simp add: open_reads_def)

lemma open_writes_costs:
  "N + length (pe_write (peer_of s)) < 2 ^ 16 \<Longrightarrow> ids_inv N (peer_of s) \<Longrightarrow>
   ids_inv (N + length (pe_write (peer_of s))) (peer_of (final (open_writes env r s)))"
  using costsD [OF costs_for [where f = "write_topic env" and xs = "pe_write (peer_of s)" and a = r, OF costs_turns(2)], of N s] by (simp add: open_writes_def)

lemma costs_closing:
  "costs 0 (close_reads env r)" "costs 0 (close_writes env r)" "costs 0 (close_media env b r)"
proof -
  have c: "costs 0 (forA (close_read env) ts r)" "costs 0 (forA (close_write env) ts r)" for ts
    using costs_for [where f = "close_read env" and xs = ts and a = r, OF costs_turns(3)]
      costs_for [where f = "close_write env" and xs = ts and a = r, OF costs_turns(4)] by simp_all
  show "costs 0 (close_reads env r)" unfolding close_reads_def
    by (rule costs_bind0 [OF costs_frame [OF frame_get(1)]]) (rule c(1))
  show "costs 0 (close_writes env r)" unfolding close_writes_def
    by (rule costs_bind0 [OF costs_frame [OF frame_get(1)]]) (rule c(2))
  show "costs 0 (close_media env b r)"
    by (rule costs_frame) (auto simp: close_media_def close_video_def intro!: frame_rules)
qed

text \<open>Sequencing with a bound that depends on the state.\<close>

lemma final_bindA_inv:
  assumes "P (final (m s))" "\<And>x s1. m s = (Inr x, effects (m s), s1) \<Longrightarrow> P (final (f x s1))"
  shows "P (final (bindA m f s))"
  using assms by (cases "m s") (auto simp: final_bindA split: sum.splits)

lemma update_costs:
  assumes "N + (length (pe_read (peer_of s)) + length (pe_write (peer_of s))) < 2 ^ 16" "ids_inv N (peer_of s)"
  shows "ids_inv (N + (length (pe_read (peer_of s)) + length (pe_write (peer_of s)))) (peer_of (final (update_channels env b r s)))"
proof -
  let ?R = "length (pe_read (peer_of s))" and ?W = "length (pe_write (peer_of s))"
  have one: "ids_inv (N + ?R) (peer_of (final (open_reads env r s)))" using open_reads_costs [of N s env r] assms by simp
  have c2: "costs 0 (bindA (close_reads env r) (\<lambda>r. bindA (close_media env b r) (close_writes env)))" for r
    by (intro costs_bind0 costs_closing)
  show ?thesis unfolding update_channels_def
  proof (rule final_bindA_inv [where P = "\<lambda>t. ids_inv (N + (?R + ?W)) (peer_of t)"])
    show "ids_inv (N + (?R + ?W)) (peer_of (final (open_reads env r s)))" using one by (rule ids_inv_mono) simp
  next
    fix r1 s1 assume r1: "open_reads env r s = (Inr r1, effects (open_reads env r s), s1)"
    have inv1: "ids_inv (N + ?R) (peer_of s1)" using one by (subst (asm) r1) simp
    have "wishes (peer_of s1) = wishes (peer_of s)" using open_reads_Inr [OF r1] by simp
    then have w1: "pe_write (peer_of s1) = pe_write (peer_of s)" by (simp add: wishes_def)
    have two: "ids_inv (N + (?R + ?W)) (peer_of (final (open_writes env r1 s1)))"
      using open_writes_costs [of "N + ?R" s1 env r1] inv1 w1 assms(1) by (simp add: add.assoc)
    show "ids_inv (N + (?R + ?W)) (peer_of (final (bindA (open_writes env r1) (\<lambda>r. bindA (close_reads env r)
        (\<lambda>r. bindA (close_media env b r) (close_writes env))) s1)))"
    proof (rule final_bindA_inv [where P = "\<lambda>t. ids_inv (N + (?R + ?W)) (peer_of t)"], rule two)
      fix r2 s2 assume r2: "open_writes env r1 s1 = (Inr r2, effects (open_writes env r1 s1), s2)"
      have "ids_inv (N + (?R + ?W)) (peer_of s2)" using two by (subst (asm) r2) simp
      from costsD [OF c2 _ this, of r2] assms(1)
      show "ids_inv (N + (?R + ?W)) (peer_of (final (bindA (close_reads env r2) (\<lambda>r. bindA (close_media env b r) (close_writes env)) s2)))"
        by simp
    qed
  qed
qed

text \<open>C18. The ids of a peer's data channels never clash: they stay distinct and non-zero through every processing,
  also one that ends with an exception, until the counter of 16 bits has been used up.\<close>

theorem channel_ids_distinct:
  assumes "ids_inv N p" "N + (length (pe_read p) + length (pe_write p)) < 2 ^ 16"
  shows "ids_inv (N + (length (pe_read p) + length (pe_write p)))
    (peer_of (final (processSubscriptionsSync env cfg i ack (p, h))))"
proof -
  let ?K = "N + (length (pe_read p) + length (pe_write p))"
  let ?P = "\<lambda>t. ids_inv ?K (peer_of t)"
  define again where "again = is_reconnect env p"
  have re: "costs 0 (ifA again (reconnect env cfg))"
  proof -
    have "ids_inv M (q\<lparr>pe_out := [], pe_in := []\<rparr>)" if "ids_inv M q" for M q
      using that by (simp add: ids_inv_def ids_def)
    then have "costs 0 (reconnect env cfg)" unfolding reconnect_def
      by (intro costs_then0 costs_on_peer costs_frame [OF frame_removePC(2)] costs_frame [OF frame_create(2)])
        (simp_all add: ids_inv_def ids_def)
    moreover have "costs 0 (retA () :: unit pact)" by (intro costs_frame frameA_basic)
    ultimately show ?thesis by (simp add: ifA_def)
  qed
  have fr: "frame_wishes (ifA again (reconnect env cfg))"
    by (auto simp: reconnect_def intro!: frame_rules frame_on_peer)
  let ?s = "(p\<lparr>pe_negotiation := again\<rparr>, h)"
  let ?r0 = "reply_start p (case ack of None \<Rightarrow> [] | Some r \<Rightarrow> r)"
  let ?rest = "\<lambda>_::unit. bindA (update_channels env (again \<or> \<not> pe_connected p) ?r0) (\<lambda>r. bindA (negotiate env r) (send_reply env i again))"
  have inv0: "ids_inv N (peer_of ?s)" using assms(1) by (simp add: ids_inv_def ids_def)
  have inv1: "ids_inv N (peer_of (final (ifA again (reconnect env cfg) ?s)))"
    using costsD [OF re _ inv0] assms(2) by simp
  have last: "costs 0 (bindA (negotiate env r) (send_reply env i again))" for r
    by (intro costs_bind0 costs_frame frame_negotiate frame_send_reply)
  have "?P (final (bindA (ifA again (reconnect env cfg)) ?rest ?s))"
  proof (rule final_bindA_inv [where P = ?P])
    show "?P (final (ifA again (reconnect env cfg) ?s))" using inv1 by (rule ids_inv_mono) simp
  next
    fix u s1 assume s1: "ifA again (reconnect env cfg) ?s = (Inr u, effects (ifA again (reconnect env cfg) ?s), s1)"
    have i1: "ids_inv N (peer_of s1)" using inv1 by (subst (asm) s1) simp
    have "wishes (peer_of s1) = wishes (peer_of ?s)" using fr s1 by (rule frameAD)
    then have w: "pe_read (peer_of s1) = pe_read p" "pe_write (peer_of s1) = pe_write p" by (simp_all add: wishes_def)
    have up: "?P (final (update_channels env (again \<or> \<not> pe_connected p) ?r0 s1))"
      using update_costs [of N s1 env _ ?r0] i1 w assms(2) by simp
    show "?P (final (?rest u s1))"
    proof (rule final_bindA_inv [where P = ?P], rule up)
      fix r s2 assume s2: "update_channels env (again \<or> \<not> pe_connected p) ?r0 s1 =
        (Inr r, effects (update_channels env (again \<or> \<not> pe_connected p) ?r0 s1), s2)"
      have "ids_inv ?K (peer_of s2)" using up by (subst (asm) s2) simp
      from costsD [OF last _ this] assms(2) show "?P (final (bindA (negotiate env r) (send_reply env i again) s2))" by simp
    qed
  qed
  moreover have "final (processSubscriptionsSync env cfg i ack (p, h)) = final (bindA (ifA again (reconnect env cfg)) ?rest ?s)"
    by (simp add: processSubscriptionsSync_def Let_def again_def [symmetric] thenA_def on_peer_def modA_def final_bindA)
  ultimately show ?thesis by simp
qed

section \<open>An example\<close>

text \<open>A client that reads one topic and writes another, on a connection that accepts every channel.\<close>

definition sample_env :: env where
  "sample_env = \<lparr>e_topic = (\<lambda>t. if t = ''/odom'' then ''nav_msgs/msg/Odometry'' else []), e_can_sub = True, e_can_pub = True,
     e_ros_ok = True, e_dc_open = (\<lambda>_. True), e_track_open = (\<lambda>_. True), e_dc_ok = (\<lambda>_ _. True), e_ice_ok = (\<lambda>_. True),
     e_sdp_ok = (\<lambda>_. True), e_pc_bad = (\<lambda>_. False), e_have_local_offer = (\<lambda>_. True), e_sio = True, e_offer = ''sdp'',
     e_ssrc = 1, e_msid = ''m'', e_now_ns = 0, e_ov = [], e_dbl_neg = (\<lambda>_. True), e_dbl_pos = (\<lambda>_. False),
     e_dur = (\<lambda>_. 0), e_conv = (\<lambda>x. x),
     e_json = \<lparr>jp_isDouble = (\<lambda>_. False), jp_isInt = (\<lambda>_. False), jp_isInt64 = (\<lambda>_. False), jp_isNumeric = (\<lambda>_. False),
       jp_asDouble = (\<lambda>_. 0), jp_asInt = (\<lambda>_. 0), jp_asInt64 = (\<lambda>_. 0)\<rparr>\<rparr>"

definition sample_hub :: hub where
  "sample_hub = \<lparr>hb_readers = no_readers, hb_writers = no_writers, hb_video = no_video,
     hb_params = [(''low_fps_default'', P_int 30)], hb_next_dc = 1, hb_next_pc = 2\<rparr>"

definition sample_peer :: peer where
  "sample_peer = (blank_peer ''app'' ''app'' [] ''s'')\<lparr>pe_pc := Some 1, pe_read := [''/odom'', ''/later''], pe_write := [(''/cmd'', ''Twist'')]\<rparr>"

lemma sample_run:
  obtains out p' h' where
    "processSubscriptionsSync sample_env (empty_config :: jvalue bridge_config) (- 1) None (sample_peer, sample_hub) = (Inr (), out, (p', h'))"
proof -
  have "result (processSubscriptionsSync sample_env (empty_config :: jvalue bridge_config) (- 1) None (sample_peer, sample_hub)) = Inr ()"
    by code_simp
  then show thesis using that
    by (cases "processSubscriptionsSync sample_env (empty_config :: jvalue bridge_config) (- 1) None (sample_peer, sample_hub)") auto
qed

lemma sample_simps:
  "pe_read sample_peer = [''/odom'', ''/later'']" "pe_write sample_peer = [(''/cmd'', ''Twist'')]" "pe_connected sample_peer"
  "e_sio sample_env" "pe_out sample_peer = []" "is_reconnect sample_env sample_peer \<longleftrightarrow> False"
  "data_topic sample_env x \<longleftrightarrow> x = ''/odom''"
  by (simp_all add: sample_peer_def sample_env_def blank_peer_def is_reconnect_def data_topic_def isImageOrVideoType_def
      isImageType_def isCompressedImageType_def isEncodedVideoType_def IMAGE_MSG_TYPE_def COMPRESSED_IMAGE_MSG_TYPE_def VIDEO_STREAM_MSG_TYPE_def)

theorem processing_matches_requests_witness:
  "\<exists>out p' h'. processSubscriptionsSync sample_env (empty_config :: jvalue bridge_config) (- 1) None (sample_peer, sample_hub) = (Inr (), out, (p', h')) \<and>
     keys (pe_in p') = {''/cmd''} \<and> keys (pe_out p') = {''/odom''}"
proof -
  obtain out p' h' where r: "processSubscriptionsSync sample_env (empty_config :: jvalue bridge_config) (- 1) None (sample_peer, sample_hub) = (Inr (), out, (p', h'))"
    by (rule sample_run)
  note m = processing_matches_requests [OF r]
  have i: "keys (pe_in p') = {''/cmd''}" using m by (simp add: sample_simps)
  have o: "keys (pe_out p') = {''/odom''}" using m by (simp add: sample_simps) auto
  show ?thesis by (rule exI [of _ out], rule exI [of _ p'], rule exI [of _ h'], intro conjI r i o)
qed

theorem update_announces_channels_witness:
  "\<exists>out p' h' r o1 c. processSubscriptionsSync sample_env (empty_config :: jvalue bridge_config) (- 1) None (sample_peer, sample_hub) = (Inr (), out, (p', h')) \<and>
     out = o1 @ [Sio_emit ''peer:update'' (Object_msg r)] \<and> map_of (pe_out p') ''/odom'' = Some c \<and> read_entry sample_env ''/odom'' c r"
proof -
  obtain out p' h' where r: "processSubscriptionsSync sample_env (empty_config :: jvalue bridge_config) (- 1) None (sample_peer, sample_hub) = (Inr (), out, (p', h'))"
    by (rule sample_run)
  from update_announces_channels [OF r sample_simps(3,4)] r show ?thesis by (auto simp: sample_simps)
qed

theorem channel_ids_distinct_witness:
  "ids_inv 3 (peer_of (final (processSubscriptionsSync sample_env (empty_config :: jvalue bridge_config) (- 1) None (sample_peer, sample_hub))))"
proof -
  have "ids_inv 0 sample_peer" by (simp add: ids_inv_def ids_def sample_peer_def blank_peer_def)
  moreover have "0 + (length (pe_read sample_peer) + length (pe_write sample_peer)) = 3" by (simp add: sample_simps)
  ultimately show ?thesis using channel_ids_distinct [of 0 sample_peer sample_env] by simp
qed

end
