(* ===== verification/PeerEnd.thy ===== *)
theory PeerEnd
  imports PeerLaws
begin

text \<open>
  The end of a peer: what \<open>onDisconnected\<close> releases, what a reconnection forgets, and the ways a peer can
  get stuck.
\<close>

section \<open>Readers and writers let go\<close>

definition readers_good :: "hub \<Rightarrow> bool" where
  "readers_good h = (\<forall>t r. map_of (rs_map (hb_readers h)) t = Some r \<longrightarrow> distinct (map o_dc (rd_outputs r)))"

definition not_reading :: "string \<Rightarrow> nat \<Rightarrow> hub \<Rightarrow> bool" where
  "not_reading t d h = (case map_of (rs_map (hb_readers h)) t of None \<Rightarrow> True | Some r \<Rightarrow> d \<notin> o_dc ` set (rd_outputs r))"

definition index_of :: "hub \<Rightarrow> nat \<Rightarrow> string option" where
  "index_of h = map_of (ws_index (hb_writers h))"

text \<open>What closing keeps: no channel is added anywhere.\<close>

definition closing_step :: "hub \<Rightarrow> hub \<Rightarrow> bool" where
  "closing_step h h' =
     ((readers_good h \<longrightarrow> readers_good h') \<and> (writers_ok (hb_writers h) \<longrightarrow> writers_ok (hb_writers h')) \<and>
      (\<forall>t d. not_reading t d h \<longrightarrow> not_reading t d h') \<and> (\<forall>d. index_of h' d \<in> {None, index_of h d}))"

lemma closing_refl [simp]: "closing_step h h"
  by (simp add: closing_step_def)

lemma closing_trans: "closing_step h1 h2 \<Longrightarrow> closing_step h2 h3 \<Longrightarrow> closing_step h1 h3"
  unfolding closing_step_def by (metis insertCI insertE singletonD)

lemma closing_video: "hb_readers h' = hb_readers h \<Longrightarrow> hb_writers h' = hb_writers h \<Longrightarrow> closing_step h h'"
  by (simp add: closing_step_def readers_good_def not_reading_def index_of_def)

lemma on_readers_Inr:
  assumes "on_readers f s = (Inr y, out, t)"
  shows "y = fst (f (hb_readers (hub_of s)))" "peer_of t = peer_of s"
    "hub_of t = (hub_of s)\<lparr>hb_readers := snd (snd (f (hb_readers (hub_of s))))\<rparr>"
  using assms by (auto simp: on_readers_def run_iffs split: prod.splits)

lemma on_writers_Inr:
  assumes "on_writers f s = (Inr y, out, t)"
  shows "y = fst (f (hb_writers (hub_of s)))" "peer_of t = peer_of s"
    "hub_of t = (hub_of s)\<lparr>hb_writers := snd (snd (f (hb_writers (hub_of s))))\<rparr>"
  using assms by (auto simp: on_writers_def run_iffs split: prod.splits)

lemma removeOutput_outputs: "rd_outputs (snd (snd (removeOutput ok d r))) = drop_dc d (rd_outputs r)"
  by (simp add: removeOutput_def Let_def)

lemma drop_dc_props:
  "o_dc ` set (drop_dc d os) \<subseteq> o_dc ` set os"
  "distinct (map o_dc os) \<Longrightarrow> distinct (map o_dc (drop_dc d os)) \<and> d \<notin> o_dc ` set (drop_dc d os)"
proof -
  show "o_dc ` set (drop_dc d os) \<subseteq> o_dc ` set os" by (induction os) auto
  assume d: "distinct (map o_dc os)"
  have "set (map o_dc (drop_dc d os)) = set (map o_dc os) - {d}" unfolding chans_drop using d by (rule set_remove1_eq)
  then have "d \<notin> o_dc ` set (drop_dc d os)" by (simp only: list.set_map) blast
  with d show "distinct (map o_dc (drop_dc d os)) \<and> d \<notin> o_dc ` set (drop_dc d os)" by (simp add: chans_drop)
qed

lemma remove_output_hub:
  assumes "h' = h\<lparr>hb_readers := snd (snd (remove_reader_output ok t d (hb_readers h)))\<rparr>"
  shows "closing_step h h'" "readers_good h \<Longrightarrow> not_reading t d h'"
proof -
  have m: "map_of (rs_map (hb_readers h')) = (case map_of (rs_map (hb_readers h)) t of None \<Rightarrow> map_of (rs_map (hb_readers h))
      | Some r \<Rightarrow> (map_of (rs_map (hb_readers h)))(t \<mapsto> snd (snd (removeOutput ok d r))))"
    by (simp add: assms remove_reader_output_def split_beta Let_def split: option.splits)
  have w: "hb_writers h' = hb_writers h" by (simp add: assms)
  have g: "readers_good h'" if "readers_good h"
    using that by (auto simp: readers_good_def m removeOutput_outputs drop_dc_props split: option.splits if_splits)
  have n: "not_reading t2 d2 h'" if "not_reading t2 d2 h" for t2 d2
    using that drop_dc_props(1) by (fastforce simp: not_reading_def m removeOutput_outputs split: option.splits if_splits)
  show "closing_step h h'" using g n w by (simp add: closing_step_def index_of_def)
  show "not_reading t d h'" if "readers_good h"
    using that by (auto simp: not_reading_def readers_good_def m removeOutput_outputs drop_dc_props split: option.splits)
qed

lemma destroy_reader_hub:
  assumes "h' = h\<lparr>hb_readers := snd (destroy_reader ok t (hb_readers h))\<rparr>"
  shows "closing_step h h'"
  by (auto simp: assms closing_step_def destroy_reader_def readers_good_def not_reading_def index_of_def split: option.splits if_splits)

lemma release_reader_Inr:
  assumes "release_reader env t d s = (Inr (), out, s')"
  shows "closing_step (hub_of s) (hub_of s')" "readers_good (hub_of s) \<Longrightarrow> not_reading t d (hub_of s')"
proof -
  from assms obtain b o1 s1 o2 where st: "on_readers (remove_reader_output (e_ros_ok env) t d) s = (Inr b, o1, s1)"
    "ifA b (on_readers (\<lambda>r. case destroy_reader (e_ros_ok env) t r of (out, r') \<Rightarrow> ((), out, r'))) s1 = (Inr (), o2, s')"
    unfolding release_reader_def by (auto elim: bindA_InrE)
  note h1 = remove_output_hub [OF on_readers_Inr(3) [OF st(1)]]
  have h2: "closing_step (hub_of s1) (hub_of s')"
  proof (cases b)
    case True
    with st(2) have "on_readers (\<lambda>r. case destroy_reader (e_ros_ok env) t r of (out, r') \<Rightarrow> ((), out, r')) s1 = (Inr (), o2, s')"
      by (simp add: ifA_def)
    from on_readers_Inr(3) [OF this] have "hub_of s' = (hub_of s1)\<lparr>hb_readers := snd (destroy_reader (e_ros_ok env) t (hb_readers (hub_of s1)))\<rparr>"
      by (simp add: split_beta)
    then show ?thesis by (rule destroy_reader_hub)
  next
    case False
    with st(2) show ?thesis by (simp add: ifA_def retA_def)
  qed
  show "closing_step (hub_of s) (hub_of s')" using h1(1) h2 by (rule closing_trans)
  show "not_reading t d (hub_of s')" if "readers_good (hub_of s)"
    using h1(2) [OF that] h2 by (simp add: closing_step_def)
qed

lemma removeInput_hub:
  assumes "h' = h\<lparr>hb_writers := snd (snd (removeInput ok t d (hb_writers h)))\<rparr>"
  shows "closing_step h h'" "writers_ok (hb_writers h) \<Longrightarrow> index_of h d \<in> {None, Some t} \<Longrightarrow> index_of h' d = None"
proof -
  have i: "ws_index (hb_writers h') \<in> {ws_index (hb_writers h), mdel d (ws_index (hb_writers h))}"
    by (simp add: assms removeInput_def split_beta Let_def split: option.splits)
  have "index_of h' c \<in> {None, index_of h c}" for c using i by (auto simp: index_of_def)
  moreover have "hb_readers h' = hb_readers h" by (simp add: assms)
  moreover have "writers_ok (hb_writers h')" if "writers_ok (hb_writers h)" using writers_ok_remove [OF that] by (simp add: assms)
  ultimately show "closing_step h h'" by (simp add: closing_step_def readers_good_def not_reading_def)
  assume ok: "writers_ok (hb_writers h)" and ix: "index_of h d \<in> {None, Some t}"
  show "index_of h' d = None"
  proof (cases "index_of h d")
    case None
    then show ?thesis using i by (auto simp: index_of_def)
  next
    case (Some t')
    with ix have "index_of h d = Some t" by simp
    then obtain r where "map_of (ws_map (hb_writers h)) t = Some r" "d \<in> in_dc ` set (wr_inputs r)"
      using ok unfolding writers_ok_def index_of_def by blast
    then show ?thesis by (simp add: index_of_def assms removeInput_def remove_input_def split_beta Let_def)
  qed
qed

section \<open>Closing the channels of a peer\<close>

lemma closeDC_effect:
  assumes "closeDataChannel env t b s = (Inr (), out, s')" "map_of (side b (peer_of s)) t = Some c"
  shows "out = (if e_dc_open env (ch_dc c) then [Close_dc (ch_dc c)] else [])" "hub_of s' = hub_of s"
proof -
  have "(if b then pe_in else pe_out) (peer_of s) = side b (peer_of s)" by (simp add: side_def)
  then show "out = (if e_dc_open env (ch_dc c) then [Close_dc (ch_dc c)] else [])" "hub_of s' = hub_of s"
    using assms by (auto simp: closeDataChannel_def run_iffs res_simps split: if_splits)
qed

lemma close_read_hub:
  assumes "close_read env t r s = (Inr r', out, s')"
  shows "closing_step (hub_of s) (hub_of s')"
    "\<And>c. map_of (side False (peer_of s)) t = Some c \<Longrightarrow> readers_good (hub_of s) \<Longrightarrow> t \<noteq> HEARTBEAT_CHANNEL_ID \<Longrightarrow>
       find_reader t (hb_readers (hub_of s)) = None \<or> not_reading t (ch_dc c) (hub_of s')"
    "\<And>c. map_of (side False (peer_of s)) t = Some c \<Longrightarrow> e_dc_open env (ch_dc c) \<Longrightarrow> Close_dc (ch_dc c) \<in> set out"
proof -
  from assms obtain v o1 s1 where u: "unsubscribeReadDataTopic env t s = (Inr v, o1, s1)" "s' = s1" "out = o1"
    by (auto simp: close_read_def run_iffs)
  have "closing_step (hub_of s) (hub_of s') \<and>
    (\<forall>c. map_of (side False (peer_of s)) t = Some c \<longrightarrow>
       (readers_good (hub_of s) \<longrightarrow> t \<noteq> HEARTBEAT_CHANNEL_ID \<longrightarrow>
          find_reader t (hb_readers (hub_of s)) = None \<or> not_reading t (ch_dc c) (hub_of s')) \<and>
       (e_dc_open env (ch_dc c) \<longrightarrow> Close_dc (ch_dc c) \<in> set out))"
  proof (cases "map_of (pe_out (peer_of s)) t")
    case None
    with u show ?thesis by (simp add: unsubscribeReadDataTopic_def retA_def side_def)
  next
    case (Some c)
    let ?m = "ifA (t \<noteq> HEARTBEAT_CHANNEL_ID) (bindA (get_hub (\<lambda>h. find_reader t (hb_readers h)))
      (\<lambda>r. ifA (r \<noteq> None) (release_reader env t (ch_dc c))))"
    from u(1) Some have "thenA ?m (thenA (closeDataChannel env t False) (retA [text_message t])) s = (Inr v, o1, s1)"
      by (simp add: unsubscribeReadDataTopic_def)
    then obtain o2 s2 o3 where m: "?m s = (Inr (), o2, s2)"
      "thenA (closeDataChannel env t False) (retA [text_message t]) s2 = (Inr v, o3, s1)" and o1: "o1 = o2 @ o3" by (rule thenA_InrE)
    from m(2) obtain o4 s3 and o5 :: "peer_effect list" where c: "closeDataChannel env t False s2 = (Inr (), o4, s3)"
      "retA [text_message t] s3 = (Inr v, o5, s1)" and o3: "o3 = o4 @ o5" by (rule thenA_InrE)
    have "frameA (\<lambda>s. id (peer_of s)) ?m" by (intro frame_rules frame_release frame_get)
    from frameAD [OF this m(1)] have p2: "peer_of s2 = peer_of s" by simp
    with Some have c': "map_of (side False (peer_of s2)) t = Some c" by (simp add: side_def)
    note cl = closeDC_effect [OF c(1) c']
    have h: "hub_of s' = hub_of s2" using cl(2) c(2) u(2) by (simp add: retA_def)
    have "closing_step (hub_of s) (hub_of s2) \<and> (readers_good (hub_of s) \<longrightarrow> t \<noteq> HEARTBEAT_CHANNEL_ID \<longrightarrow>
        find_reader t (hb_readers (hub_of s)) = None \<or> not_reading t (ch_dc c) (hub_of s2))"
    proof (cases "t = HEARTBEAT_CHANNEL_ID \<or> find_reader t (hb_readers (hub_of s)) = None")
      case True
      then have "s2 = s" using m(1) by (cases "t = HEARTBEAT_CHANNEL_ID") (simp_all add: ifA_def retA_def)
      then show ?thesis using True by auto
    next
      case False
      with m(1) have "release_reader env t (ch_dc c) s = (Inr (), o2, s2)" by (simp add: ifA_def)
      from release_reader_Inr [OF this] show ?thesis by blast
    qed
    moreover have "e_dc_open env (ch_dc c) \<longrightarrow> Close_dc (ch_dc c) \<in> set out" using cl(1) u(3) o1 o3 by simp
    ultimately show ?thesis using h Some by (auto simp: side_def)
  qed
  then show "closing_step (hub_of s) (hub_of s')"
    "\<And>c. map_of (side False (peer_of s)) t = Some c \<Longrightarrow> readers_good (hub_of s) \<Longrightarrow> t \<noteq> HEARTBEAT_CHANNEL_ID \<Longrightarrow>
       find_reader t (hb_readers (hub_of s)) = None \<or> not_reading t (ch_dc c) (hub_of s')"
    "\<And>c. map_of (side False (peer_of s)) t = Some c \<Longrightarrow> e_dc_open env (ch_dc c) \<Longrightarrow> Close_dc (ch_dc c) \<in> set out"
    by blast+
qed

lemma not_reading_no_reader: "find_reader t (hb_readers h) = None \<Longrightarrow> not_reading t d h"
  by (simp add: find_reader_def not_reading_def)

lemma close_write_hub:
  assumes "close_write env t r s = (Inr r', out, s')"
  shows "closing_step (hub_of s) (hub_of s')"
    "\<And>c. map_of (side True (peer_of s)) t = Some c \<Longrightarrow> writers_ok (hb_writers (hub_of s)) \<Longrightarrow> t \<noteq> HEARTBEAT_CHANNEL_ID \<Longrightarrow>
       index_of (hub_of s) (ch_dc c) \<in> {None, Some t} \<Longrightarrow> index_of (hub_of s') (ch_dc c) = None"
    "\<And>c. map_of (side True (peer_of s)) t = Some c \<Longrightarrow> e_dc_open env (ch_dc c) \<Longrightarrow> Close_dc (ch_dc c) \<in> set out"
proof -
  from assms obtain v o1 s1 where u: "unsubscribeWriteDataTopic env t s = (Inr v, o1, s1)" "s' = s1" "out = o1"
    by (auto simp: close_write_def run_iffs)
  have "closing_step (hub_of s) (hub_of s') \<and>
    (\<forall>c. map_of (side True (peer_of s)) t = Some c \<longrightarrow>
       (writers_ok (hb_writers (hub_of s)) \<longrightarrow> t \<noteq> HEARTBEAT_CHANNEL_ID \<longrightarrow> index_of (hub_of s) (ch_dc c) \<in> {None, Some t} \<longrightarrow>
          index_of (hub_of s') (ch_dc c) = None) \<and>
       (e_dc_open env (ch_dc c) \<longrightarrow> Close_dc (ch_dc c) \<in> set out))"
  proof (cases "map_of (pe_in (peer_of s)) t")
    case None
    with u show ?thesis by (simp add: unsubscribeWriteDataTopic_def retA_def side_def)
  next
    case (Some c)
    let ?m = "ifA (t \<noteq> HEARTBEAT_CHANNEL_ID) (bindA (on_writers (removeInput (e_ros_ok env) t (ch_dc c))) (\<lambda>_. retA ()))"
    from u(1) Some have "thenA ?m (thenA (closeDataChannel env t True) (retA [text_message t])) s = (Inr v, o1, s1)"
      by (simp add: unsubscribeWriteDataTopic_def)
    then obtain o2 s2 o3 where m: "?m s = (Inr (), o2, s2)"
      "thenA (closeDataChannel env t True) (retA [text_message t]) s2 = (Inr v, o3, s1)" and o1: "o1 = o2 @ o3" by (rule thenA_InrE)
    from m(2) obtain o4 s3 and o5 :: "peer_effect list" where c: "closeDataChannel env t True s2 = (Inr (), o4, s3)"
      "retA [text_message t] s3 = (Inr v, o5, s1)" and o3: "o3 = o4 @ o5" by (rule thenA_InrE)
    have "frameA (\<lambda>s. id (peer_of s)) ?m" by (intro frame_rules frame_on_writers)
    from frameAD [OF this m(1)] have p2: "peer_of s2 = peer_of s" by simp
    with Some have c': "map_of (side True (peer_of s2)) t = Some c" by (simp add: side_def)
    note cl = closeDC_effect [OF c(1) c']
    have h: "hub_of s' = hub_of s2" using cl(2) c(2) u(2) by (simp add: retA_def)
    have "closing_step (hub_of s) (hub_of s2) \<and> (writers_ok (hb_writers (hub_of s)) \<longrightarrow> t \<noteq> HEARTBEAT_CHANNEL_ID \<longrightarrow>
        index_of (hub_of s) (ch_dc c) \<in> {None, Some t} \<longrightarrow> index_of (hub_of s2) (ch_dc c) = None)"
    proof (cases "t = HEARTBEAT_CHANNEL_ID")
      case True
      with m(1) show ?thesis by (auto simp: ifA_def retA_def)
    next
      case False
      with m(1) obtain y where "on_writers (removeInput (e_ros_ok env) t (ch_dc c)) s = (Inr y, o2, s2)"
        by (auto simp: ifA_def run_iffs)
      from removeInput_hub [OF on_writers_Inr(3) [OF this]] show ?thesis by blast
    qed
    moreover have "e_dc_open env (ch_dc c) \<longrightarrow> Close_dc (ch_dc c) \<in> set out" using cl(1) u(3) o1 o3 by simp
    ultimately show ?thesis using h Some by (auto simp: side_def)
  qed
  then show "closing_step (hub_of s) (hub_of s')"
    "\<And>c. map_of (side True (peer_of s)) t = Some c \<Longrightarrow> writers_ok (hb_writers (hub_of s)) \<Longrightarrow> t \<noteq> HEARTBEAT_CHANNEL_ID \<Longrightarrow>
       index_of (hub_of s) (ch_dc c) \<in> {None, Some t} \<Longrightarrow> index_of (hub_of s') (ch_dc c) = None"
    "\<And>c. map_of (side True (peer_of s)) t = Some c \<Longrightarrow> e_dc_open env (ch_dc c) \<Longrightarrow> Close_dc (ch_dc c) \<in> set out"
    by blast+
qed

text \<open>The loops: \<open>freed\<close> is what holds of each channel afterwards.\<close>

lemma for_close_hub:
  assumes step: "\<And>t r s r' out s'. f t r s = (Inr r', out, s') \<Longrightarrow>
      closing_step (hub_of s) (hub_of s') \<and> side b (peer_of s') = mdel t (side b (peer_of s)) \<and>
      (\<forall>c. map_of (side b (peer_of s)) t = Some c \<longrightarrow> ok (hub_of s) \<longrightarrow> linked t c (hub_of s) \<longrightarrow>
         freed t c (hub_of s') \<and> (e_dc_open env (ch_dc c) \<longrightarrow> Close_dc (ch_dc c) \<in> set out))"
    and keep: "\<And>h h'. closing_step h h' \<Longrightarrow> (ok h \<longrightarrow> ok h') \<and> (\<forall>t c. linked t c h \<longrightarrow> linked t c h') \<and> (\<forall>t c. freed t c h \<longrightarrow> freed t c h')"
    and run: "forA f ts r s = (Inr r', out, s')" and "ok (hub_of s)"
  shows "closing_step (hub_of s) (hub_of s') \<and>
    (\<forall>t\<in>set ts. \<forall>c. map_of (side b (peer_of s)) t = Some c \<longrightarrow> linked t c (hub_of s) \<longrightarrow>
       freed t c (hub_of s') \<and> (e_dc_open env (ch_dc c) \<longrightarrow> Close_dc (ch_dc c) \<in> set out))"
  using run assms(4)
proof (induction ts arbitrary: r s out)
  case Nil
  then show ?case by (simp add: retA_def)
next
  case (Cons x ts)
  from Cons.prems(1) obtain r1 o1 s1 o2 where st: "f x r s = (Inr r1, o1, s1)" "forA f ts r1 s1 = (Inr r', o2, s')" "out = o1 @ o2"
    by (auto elim: bindA_InrE)
  note a = step [OF st(1)]
  from a have c1: "closing_step (hub_of s) (hub_of s1)" by blast
  note k1 = keep [OF c1]
  have ok1: "ok (hub_of s1)" using k1 Cons.prems(2) by blast
  note b = Cons.IH [OF st(2) ok1]
  then have c2: "closing_step (hub_of s1) (hub_of s')" by blast
  note k2 = keep [OF c2]
  have head: "freed x c (hub_of s') \<and> (e_dc_open env (ch_dc c) \<longrightarrow> Close_dc (ch_dc c) \<in> set out)"
    if "map_of (side b (peer_of s)) x = Some c" "linked x c (hub_of s)" for c
    using a that Cons.prems(2) k2 st(3) by auto
  have tail: "freed t c (hub_of s') \<and> (e_dc_open env (ch_dc c) \<longrightarrow> Close_dc (ch_dc c) \<in> set out)"
    if t: "t \<in> set ts" "map_of (side b (peer_of s)) t = Some c" "linked t c (hub_of s)" for t c
  proof (cases "t = x")
    case True
    with head t show ?thesis by blast
  next
    case False
    with a t(2) have "map_of (side b (peer_of s1)) t = Some c" by auto
    moreover have "linked t c (hub_of s1)" using k1 t(3) by blast
    ultimately show ?thesis using b t(1) st(3) by auto
  qed
  show ?case using closing_trans [OF c1 c2] head tail by auto
qed

section \<open>What a peer says\<close>

text \<open>Of all that a peer does only its replies go through the socket, and those only while the socket is connected.\<close>

definition says :: "peer_effect \<Rightarrow> bool" where
  "says e = (case e of Sio_emit k m \<Rightarrow> True | Sio_ack i m \<Rightarrow> True | _ \<Rightarrow> False)"

lemma says_simps [simp]:
  "says (Sio_ack j m)" "says (Sio_emit k m)" "\<not> says (Rd_eff x)" "\<not> says (Wr_eff y)" "\<not> says (Vd_eff z)"
  "\<not> says (New_pc n c)" "\<not> says (Close_pc n)" "\<not> says (Open_dc n d t ty ch u mt)" "\<not> says (Close_dc n)"
  "\<not> says (Open_track n tk k)" "\<not> says (Set_remote sdp)"
  by (simp_all add: says_def)

abbreviation calm :: "'a pact \<Rightarrow> bool" where
  "calm m \<equiv> emitsA (\<lambda>e. \<not> says e) m"

lemma calm_map [simp]: "list_all (\<lambda>e. \<not> says e) (map Rd_eff xs)" "list_all (\<lambda>e. \<not> says e) (map Wr_eff ys)"
  "list_all (\<lambda>e. \<not> says e) (map Vd_eff zs)"
  by (simp_all add: list_all_iff)

lemma calm_basic [simp, intro]:
  "calm (get_peer f)" "calm (get_hub h)" "calm (on_peer p)" "calm (on_hub k)"
  by (simp_all add: get_peer_def get_hub_def on_peer_def on_hub_def)

lemma calm_config [simp, intro]:
  "calm (topic_qos env topic)" "calm (topic_conf env topic ty)" "calm (on_readers f)" "calm (on_writers g)"
  by (auto simp: topic_qos_def topic_conf_def on_readers_def on_writers_def intro!: emit_rules)

lemma calm_connection [simp, intro]:
  "calm (createPeerConnection env cfg)" "calm removePeerConnection" "calm (openDataChannel env topic ty rel w)"
  "calm (closeDataChannel env topic w)"
  by (auto simp: createPeerConnection_def ice_server_def removePeerConnection_def openDataChannel_def closeDataChannel_def Let_def
      intro!: emit_rules)

lemma calm_channel [simp, intro]: "calm (the_channel env topic ty rel w)" "calm (release_reader env topic dc)"
  "calm (destroy_video env topic)" "calm (openMediaTrack env topic)"
  by (auto simp: the_channel_def release_reader_def destroy_video_def openMediaTrack_def intro!: emit_rules)

lemma calm_topic [simp, intro]:
  "calm (subscribeReadDataTopic env topic ty)" "calm (subscribeWriteDataTopic env topic ty)"
  "calm (unsubscribeReadDataTopic env topic)" "calm (unsubscribeWriteDataTopic env topic)"
  by (auto simp: subscribeReadDataTopic_def subscribeWriteDataTopic_def unsubscribeReadDataTopic_def
      unsubscribeWriteDataTopic_def Let_def intro!: emit_rules)

lemma calm_media [simp, intro]:
  "calm (subscribeMediaTopic env topic ty)" "calm (unsubscribeMediaTopic env topic c)"
  by (auto simp: subscribeMediaTopic_def unsubscribeMediaTopic_def close_track_def intro!: emit_rules)

lemma calm_update: "calm (update_channels env c r)"
  by (auto simp: update_channels_def open_reads_def open_writes_def close_reads_def close_media_def close_writes_def
      read_topic_def write_topic_def close_read_def close_video_def close_write_def Let_def intro!: emit_rules)

lemma calm_stages: "calm (reconnect env cfg)" "calm (negotiate env r)"
  by (auto simp: reconnect_def negotiate_def intro!: emit_rules)

lemma calm_requests:
  "calm (read_request f v)" "calm (write_request strict v)" "calm (initial_requests m)"
  "calm (construct env cfg)" "calm (onWRTCInfo m)" "calm (onSDPAnswer env m)"
proof -
  show r: "calm (read_request f v)" for f v by (auto simp: read_request_def intro!: emit_rules)
  show w: "calm (write_request strict v)" for strict v
    unfolding write_request_def by (intro emit_rules) (auto split: message.split intro!: emit_rules)
  show "calm (initial_requests m)" by (auto simp: initial_requests_def intro!: emit_rules r w)
  show "calm (construct env cfg)" by (auto simp: construct_def intro!: emit_rules)
  show "calm (onWRTCInfo m)" by (auto simp: onWRTCInfo_def intro!: emit_rules)
  show "calm (onSDPAnswer env m)" by (auto simp: onSDPAnswer_def intro!: emit_rules)
qed

lemma offline_process: "\<not> e_sio env \<Longrightarrow> calm (processSubscriptionsSync env cfg i ack)"
proof -
  assume "\<not> e_sio env"
  then have "calm (send_reply env i again r)" for again r
    by (auto simp: send_reply_def sio_emit_def sio_ack_def intro!: emit_rules)
  then show ?thesis
    unfolding processSubscriptionsSync_def Let_def by (intro emit_rules calm_basic calm_update calm_stages)
qed

lemma offline_disconnect: "\<not> e_sio env \<Longrightarrow> calm (onDisconnected env cfg)"
  unfolding onDisconnected_def by (intro emit_rules calm_basic offline_process)

section \<open>Disconnection\<close>

definition freed_out :: "string \<Rightarrow> chan \<Rightarrow> hub \<Rightarrow> bool" where
  "freed_out t c h = (t \<noteq> HEARTBEAT_CHANNEL_ID \<longrightarrow> not_reading t (ch_dc c) h)"

definition freed_in :: "string \<Rightarrow> chan \<Rightarrow> hub \<Rightarrow> bool" where
  "freed_in t c h = (t \<noteq> HEARTBEAT_CHANNEL_ID \<longrightarrow> index_of h (ch_dc c) = None)"

definition linked_in :: "string \<Rightarrow> chan \<Rightarrow> hub \<Rightarrow> bool" where
  "linked_in t c h = (index_of h (ch_dc c) \<in> {None, Some t})"

definition closed_in :: "env \<Rightarrow> chan \<Rightarrow> peer_effect list \<Rightarrow> bool" where
  "closed_in env c out = (e_dc_open env (ch_dc c) \<longrightarrow> Close_dc (ch_dc c) \<in> set out)"

lemma closing_keeps_out:
  "closing_step h h' \<Longrightarrow> (readers_good h \<longrightarrow> readers_good h') \<and> (\<forall>t c. True \<longrightarrow> True) \<and> (\<forall>t c. freed_out t c h \<longrightarrow> freed_out t c h')"
  by (auto simp: closing_step_def freed_out_def)

lemma closing_keeps_in:
  "closing_step h h' \<Longrightarrow> (writers_ok (hb_writers h) \<longrightarrow> writers_ok (hb_writers h')) \<and>
     (\<forall>t c. linked_in t c h \<longrightarrow> linked_in t c h') \<and> (\<forall>t c. freed_in t c h \<longrightarrow> freed_in t c h')"
proof (intro conjI allI impI)
  assume st: "closing_step h h'"
  then show "writers_ok (hb_writers h')" if "writers_ok (hb_writers h)" using that by (simp add: closing_step_def)
  from st have ix: "index_of h' d = None \<or> index_of h' d = index_of h d" for d by (simp add: closing_step_def)
  show "linked_in t c h'" if "linked_in t c h" for t c using that ix [of "ch_dc c"] by (auto simp: linked_in_def)
  show "freed_in t c h'" if "freed_in t c h" for t c using that ix [of "ch_dc c"] by (auto simp: freed_in_def)
qed

lemma close_reads_hub:
  assumes "close_reads env r s = (Inr r', out, s')" "pe_read (peer_of s) = []" "readers_good (hub_of s)"
  shows "closing_step (hub_of s) (hub_of s')"
    "\<And>t c. map_of (pe_out (peer_of s)) t = Some c \<Longrightarrow> freed_out t c (hub_of s') \<and> closed_in env c out"
proof -
  have run: "forA (close_read env) (map fst (pe_out (peer_of s))) r s = (Inr r', out, s')"
    using assms(1,2) by (simp add: close_reads_def)
  have step: "closing_step (hub_of s) (hub_of s') \<and> side False (peer_of s') = mdel t (side False (peer_of s)) \<and>
      (\<forall>c. map_of (side False (peer_of s)) t = Some c \<longrightarrow> readers_good (hub_of s) \<longrightarrow> True \<longrightarrow>
         freed_out t c (hub_of s') \<and> (e_dc_open env (ch_dc c) \<longrightarrow> Close_dc (ch_dc c) \<in> set out))"
    if f: "close_read env t r s = (Inr r', out, s')" for t r s r' out s'
  proof -
    note h = close_read_hub [OF f]
    have "freed_out t c (hub_of s')" if c: "map_of (side False (peer_of s)) t = Some c" "readers_good (hub_of s)" for c
      using h(2) [OF c] h(1) not_reading_no_reader by (fastforce simp: freed_out_def closing_step_def)
    with h(1,3) close_read_Inr [OF f] show ?thesis by blast
  qed
  have all: "closing_step (hub_of s) (hub_of s') \<and> (\<forall>t\<in>set (map fst (pe_out (peer_of s))). \<forall>c.
      map_of (side False (peer_of s)) t = Some c \<longrightarrow> True \<longrightarrow>
        freed_out t c (hub_of s') \<and> (e_dc_open env (ch_dc c) \<longrightarrow> Close_dc (ch_dc c) \<in> set out))"
    by (rule for_close_hub [where ok = readers_good and linked = "\<lambda>_ _ _. True", OF _ _ run assms(3)]) (erule step, erule closing_keeps_out)
  then show "closing_step (hub_of s) (hub_of s')" by blast
  show "freed_out t c (hub_of s') \<and> closed_in env c out" if c: "map_of (pe_out (peer_of s)) t = Some c" for t c
  proof -
    from c have t: "t \<in> set (map fst (pe_out (peer_of s)))" by (force dest: map_of_SomeD)
    from all have "map_of (side False (peer_of s)) t = Some c \<longrightarrow> freed_out t c (hub_of s') \<and> (e_dc_open env (ch_dc c) \<longrightarrow> Close_dc (ch_dc c) \<in> set out)"
      using t by blast
    with c show ?thesis by (simp add: side_def closed_in_def)
  qed
qed

lemma close_writes_hub:
  assumes "close_writes env r s = (Inr r', out, s')" "pe_write (peer_of s) = []" "writers_ok (hb_writers (hub_of s))"
  shows "closing_step (hub_of s) (hub_of s')"
    "\<And>t c. map_of (pe_in (peer_of s)) t = Some c \<Longrightarrow> linked_in t c (hub_of s) \<Longrightarrow> freed_in t c (hub_of s') \<and> closed_in env c out"
proof -
  have run: "forA (close_write env) (map fst (pe_in (peer_of s))) r s = (Inr r', out, s')"
    using assms(1,2) by (simp add: close_writes_def)
  have step: "closing_step (hub_of s) (hub_of s') \<and> side True (peer_of s') = mdel t (side True (peer_of s)) \<and>
      (\<forall>c. map_of (side True (peer_of s)) t = Some c \<longrightarrow> writers_ok (hb_writers (hub_of s)) \<longrightarrow> linked_in t c (hub_of s) \<longrightarrow>
         freed_in t c (hub_of s') \<and> (e_dc_open env (ch_dc c) \<longrightarrow> Close_dc (ch_dc c) \<in> set out))"
    if f: "close_write env t r s = (Inr r', out, s')" for t r s r' out s'
  proof -
    note h = close_write_hub [OF f]
    have "freed_in t c (hub_of s')"
      if c: "map_of (side True (peer_of s)) t = Some c" "writers_ok (hb_writers (hub_of s))" "linked_in t c (hub_of s)" for c
      using h(2) [OF c(1,2)] c(3) by (simp add: freed_in_def linked_in_def)
    with h(1,3) close_write_Inr [OF f] show ?thesis by blast
  qed
  have all: "closing_step (hub_of s) (hub_of s') \<and> (\<forall>t\<in>set (map fst (pe_in (peer_of s))). \<forall>c.
      map_of (side True (peer_of s)) t = Some c \<longrightarrow> linked_in t c (hub_of s) \<longrightarrow>
        freed_in t c (hub_of s') \<and> (e_dc_open env (ch_dc c) \<longrightarrow> Close_dc (ch_dc c) \<in> set out))"
    by (rule for_close_hub [where ok = "\<lambda>h. writers_ok (hb_writers h)", OF _ _ run assms(3)]) (erule step, erule closing_keeps_in)
  then show "closing_step (hub_of s) (hub_of s')" by blast
  show "freed_in t c (hub_of s') \<and> closed_in env c out"
    if c: "map_of (pe_in (peer_of s)) t = Some c" "linked_in t c (hub_of s)" for t c
  proof -
    from c(1) have t: "t \<in> set (map fst (pe_in (peer_of s)))" by (force dest: map_of_SomeD)
    from all have "map_of (side True (peer_of s)) t = Some c \<longrightarrow> linked_in t c (hub_of s) \<longrightarrow>
        freed_in t c (hub_of s') \<and> (e_dc_open env (ch_dc c) \<longrightarrow> Close_dc (ch_dc c) \<in> set out)"
      using t by blast
    with c show ?thesis by (simp add: side_def closed_in_def)
  qed
qed

lemma close_media_hub:
  assumes "close_media env b r s = (Inr r', out, s')"
  shows "closing_step (hub_of s) (hub_of s')"
proof -
  have v: "frameA (\<lambda>s. (hb_readers (hub_of s), hb_writers (hub_of s))) (on_hub (\<lambda>h. h\<lparr>hb_video := f h\<rparr>))" for f
    by (simp add: on_hub_def frameA_mod)
  have p: "frameA (\<lambda>s. (hb_readers (hub_of s), hb_writers (hub_of s))) (on_peer f)" for f
    by (simp add: on_peer_def frameA_mod)
  have "frameA (\<lambda>s. (hb_readers (hub_of s), hb_writers (hub_of s))) (close_media env b r)"
    unfolding close_media_def close_video_def unsubscribeMediaTopic_def destroy_video_def
    by (intro frame_rules frame_get v p)
  from frameAD [OF this assms] show ?thesis by (intro closing_video) simp_all
qed

section \<open>Closing the tracks of a peer\<close>

definition video_good :: "hub \<Rightarrow> bool" where
  "video_good h = (\<forall>t r. map_of (vd_readers (hb_video h)) t = Some r \<longrightarrow> distinct (map vo_track (vr_outputs r)))"

definition not_showing :: "string \<Rightarrow> nat \<Rightarrow> hub \<Rightarrow> bool" where
  "not_showing t k h = (case map_of (vd_readers (hb_video h)) t of None \<Rightarrow> True | Some r \<Rightarrow> k \<notin> vo_track ` set (vr_outputs r))"

text \<open>Closing adds no track to any reader.\<close>

definition fading :: "hub \<Rightarrow> hub \<Rightarrow> bool" where
  "fading h h' = ((video_good h \<longrightarrow> video_good h') \<and> (\<forall>t k. not_showing t k h \<longrightarrow> not_showing t k h'))"

lemma fading_same: "vd_readers (hb_video h') = vd_readers (hb_video h) \<Longrightarrow> fading h h'"
  by (simp add: fading_def video_good_def not_showing_def)

lemma fading_trans: "fading h1 h2 \<Longrightarrow> fading h2 h3 \<Longrightarrow> fading h1 h3"
  unfolding fading_def by blast

lemma drop_track_props:
  "vo_track ` set (drop_track k os) \<subseteq> vo_track ` set os"
  "distinct (map vo_track os) \<Longrightarrow> distinct (map vo_track (drop_track k os)) \<and> k \<notin> vo_track ` set (drop_track k os)"
proof -
  have d: "map vo_track (drop_track k os) = remove1 k (map vo_track os)" for os by (induction os) auto
  show "vo_track ` set (drop_track k os) \<subseteq> vo_track ` set os" by (induction os) auto
  assume a: "distinct (map vo_track os)"
  then have "set (map vo_track (drop_track k os)) = set (map vo_track os) - {k}" unfolding d by (rule set_remove1_eq)
  then have "k \<notin> vo_track ` set (drop_track k os)" by (simp only: list.set_map) blast
  with a show "distinct (map vo_track (drop_track k os)) \<and> k \<notin> vo_track ` set (drop_track k os)" by (simp add: d)
qed

lemma remove_voutput_hub:
  assumes "h' = h\<lparr>hb_video := snd (remove_voutput t k (hb_video h))\<rparr>"
  shows "fading h h'" "video_good h \<Longrightarrow> not_showing t k h'"
proof -
  have m: "map_of (vd_readers (hb_video h')) = (case map_of (vd_readers (hb_video h)) t of None \<Rightarrow> map_of (vd_readers (hb_video h))
      | Some r \<Rightarrow> (map_of (vd_readers (hb_video h)))(t \<mapsto> r\<lparr>vr_outputs := drop_track k (vr_outputs r)\<rparr>))"
    by (simp add: assms remove_voutput_def Let_def split: option.splits)
  have g: "video_good h'" if "video_good h"
    using that by (auto simp: video_good_def m drop_track_props split: option.splits if_splits)
  have n: "not_showing t2 k2 h'" if "not_showing t2 k2 h" for t2 k2
    using that drop_track_props(1) by (fastforce simp: not_showing_def m split: option.splits if_splits)
  show "fading h h'" using g n by (simp add: fading_def)
  show "not_showing t k h'" if "video_good h"
    using that by (auto simp: not_showing_def video_good_def m drop_track_props split: option.splits)
qed

lemma destroy_video_hub:
  assumes "destroy_vreader ok t (hb_video h) = Some (out, v)"
  shows "fading h (h\<lparr>hb_video := v\<rparr>)"
  using assms by (auto simp: destroy_vreader_def fading_def video_good_def not_showing_def split: option.splits if_splits)

lemma set_in_use_readers [simp]: "vd_readers (set_in_use b k v) = vd_readers v"
  by (simp add: set_in_use_def split: option.splits)

text \<open>A reader lets a track go, with the reader itself after its last one.\<close>

lemma release_track:
  assumes "bindA (get_hub (\<lambda>h. mhas (vd_readers (hb_video h)) t)) (\<lambda>has.
      ifA has (bindA (get_hub (\<lambda>h. remove_voutput t k (hb_video h))) (\<lambda>(empty, v).
        thenA (on_hub (\<lambda>h. h\<lparr>hb_video := v\<rparr>)) (ifA empty (destroy_video env t))))) s = (Inr (), out, s')"
  shows "peer_of s' = peer_of s \<and> fading (hub_of s) (hub_of s') \<and> (video_good (hub_of s) \<longrightarrow> not_showing t k (hub_of s'))"
proof (cases "mhas (vd_readers (hb_video (hub_of s))) t")
  case False
  with assms have "s' = s" by (auto simp: run_iffs ifA_def)
  with False show ?thesis by (simp add: fading_def not_showing_def mhas_def split: option.splits)
next
  case True
  let ?e = "fst (remove_voutput t k (hb_video (hub_of s)))"
  let ?h = "(hub_of s)\<lparr>hb_video := snd (remove_voutput t k (hb_video (hub_of s)))\<rparr>"
  from assms True have d: "ifA ?e (destroy_video env t) (peer_of s, ?h) = (Inr (), out, s')"
    by (auto simp: run_iffs ifA_def split_beta)
  note r = remove_voutput_hub [OF refl, of "hub_of s" t k]
  have "peer_of s' = peer_of s \<and> fading ?h (hub_of s')"
  proof (cases ?e)
    case False
    with d show ?thesis by (auto simp: ifA_def retA_def fading_same peer_of_def hub_of_def)
  next
    case True
    with d obtain o1 v where v: "destroy_vreader (e_ros_ok env) t (hb_video ?h) = Some (o1, v)" "s' = (peer_of s, ?h\<lparr>hb_video := v\<rparr>)"
      by (auto simp: ifA_def destroy_video_def run_iffs peer_of_def hub_of_def split: option.splits)
    from destroy_video_hub [OF v(1)] v(2) show ?thesis by (simp add: peer_of_def hub_of_def)
  qed
  with r show ?thesis by (auto intro: fading_trans simp: fading_def)
qed

lemma close_video_hub:
  assumes "close_video env True t r s = (Inr r', out, s')"
  shows "fading (hub_of s) (hub_of s') \<and> map_of (pe_media (peer_of s')) = (map_of (pe_media (peer_of s)))(t := None) \<and>
    (\<forall>k. map_of (pe_media (peer_of s)) t = Some k \<longrightarrow>
       (video_good (hub_of s) \<longrightarrow> not_showing t k (hub_of s')) \<and> (e_track_open env k \<longrightarrow> Vd_eff (Close_track k) \<in> set out))"
proof -
  from assms obtain v where u: "unsubscribeMediaTopic env t True s = (Inr v, out, s')" by (auto simp: close_video_def run_iffs)
  show ?thesis
  proof (cases "map_of (pe_media (peer_of s)) t")
    case None
    with u have "s' = s" by (auto simp: unsubscribeMediaTopic_def run_iffs)
    with None show ?thesis by (auto simp: fading_def)
  next
    case (Some k)
    let ?s = "(peer_of s, (hub_of s)\<lparr>hb_video := set_in_use False k (hb_video (hub_of s))\<rparr>)"
    let ?rel = "bindA (get_hub (\<lambda>h. mhas (vd_readers (hb_video h)) t)) (\<lambda>has.
      ifA has (bindA (get_hub (\<lambda>h. remove_voutput t k (hb_video h))) (\<lambda>(empty, v).
        thenA (on_hub (\<lambda>h. h\<lparr>hb_video := v\<rparr>)) (ifA empty (destroy_video env t)))))"
    from u Some obtain o1 s1 o2 where st: "?rel ?s = (Inr (), o1, s1)"
      "thenA (thenA (emitA (map Vd_eff (close_track (e_track_open env) k))) (on_peer (\<lambda>p. p\<lparr>pe_media := mdel t (pe_media p)\<rparr>)))
         (retA [text_message t]) s1 = (Inr v, o2, s')" "out = o1 @ o2"
      unfolding unsubscribeMediaTopic_def
      by (auto simp: bindA_Inr_iff thenA_Inr_iff get_peer_def get_hub_def on_hub_def act_Inr_iffs ifA_def)
    have "fading (hub_of s) (hub_of ?s)" by (rule fading_same) (simp add: hub_of_def)
    moreover note release_track [OF st(1)]
    moreover from st(2) have "s' = ((peer_of s1)\<lparr>pe_media := mdel t (pe_media (peer_of s1))\<rparr>, hub_of s1)"
      "o2 = map Vd_eff (close_track (e_track_open env) k)" by (auto simp: run_iffs)
    ultimately show ?thesis using Some st(3)
      by (auto simp: peer_of_def hub_of_def close_track_def fading_def video_good_def intro: fading_trans)
  qed
qed

lemma close_videos_hub:
  assumes "forA (close_video env True) ts r s = (Inr r', out, s')" "video_good (hub_of s)"
  shows "fading (hub_of s) (hub_of s') \<and> map_of (pe_media (peer_of s')) = (\<lambda>t. if t \<in> set ts then None else map_of (pe_media (peer_of s)) t) \<and>
    (\<forall>t\<in>set ts. \<forall>k. map_of (pe_media (peer_of s)) t = Some k \<longrightarrow>
       not_showing t k (hub_of s') \<and> (e_track_open env k \<longrightarrow> Vd_eff (Close_track k) \<in> set out))"
  using assms
proof (induction ts arbitrary: r s out)
  case Nil
  then show ?case by (auto simp: retA_def fading_def)
next
  case (Cons x ts)
  from Cons.prems(1) obtain r1 o1 s1 o2 where st: "close_video env True x r s = (Inr r1, o1, s1)"
    "forA (close_video env True) ts r1 s1 = (Inr r', o2, s')" "out = o1 @ o2" by (auto elim: bindA_InrE)
  note a = close_video_hub [OF st(1)]
  from a Cons.prems(2) have good: "video_good (hub_of s1)" by (simp add: fading_def)
  note b = Cons.IH [OF st(2) good]
  have head: "not_showing x k (hub_of s') \<and> (e_track_open env k \<longrightarrow> Vd_eff (Close_track k) \<in> set out)"
    if "map_of (pe_media (peer_of s)) x = Some k" for k
    using a b that Cons.prems(2) st(3) by (auto simp: fading_def)
  have tail: "not_showing t k (hub_of s') \<and> (e_track_open env k \<longrightarrow> Vd_eff (Close_track k) \<in> set out)"
    if "t \<in> set ts" "map_of (pe_media (peer_of s)) t = Some k" for t k
  proof (cases "t = x")
    case True
    with head that show ?thesis by blast
  next
    case False
    with a that(2) have "map_of (pe_media (peer_of s1)) t = Some k" by simp
    with b that(1) st(3) show ?thesis by auto
  qed
  have "fading (hub_of s) (hub_of s')" using a b fading_trans by blast
  moreover have "map_of (pe_media (peer_of s')) = (\<lambda>t. if t \<in> set (x # ts) then None else map_of (pe_media (peer_of s)) t)"
    using a b by (auto simp: fun_eq_iff)
  ultimately show ?case using head tail by auto
qed

definition showing :: "nat \<Rightarrow> hub \<Rightarrow> bool" where
  "showing k h = (case map_of (vd_tracks (hb_video h)) k of None \<Rightarrow> False | Some i \<Rightarrow> tk_in_use i)"

text \<open>A track of the peer that is in use, after its end: forgotten, closed and shown by no reader of its topic.\<close>

definition freed_track :: "env \<Rightarrow> string \<Rightarrow> nat \<Rightarrow> peer \<Rightarrow> hub \<Rightarrow> peer_effect list \<Rightarrow> bool" where
  "freed_track env t k p h out =
     (map_of (pe_media p) t = None \<and> not_showing t k h \<and> (e_track_open env k \<longrightarrow> Vd_eff (Close_track k) \<in> set out))"

definition media_of :: "peer \<times> hub \<Rightarrow> (string, nat) omap \<times> video" where
  "media_of s = (pe_media (peer_of s), hb_video (hub_of s))"

lemma media_frames:
  "frameA media_of (close_reads env r)" "frameA media_of (close_writes env r)" "frameA media_of (negotiate env r)"
  "frameA media_of (send_reply env i b r)"
proof -
  have h: "frameA media_of (on_hub (\<lambda>h. h\<lparr>hb_readers := f h\<rparr>))" "frameA media_of (on_hub (\<lambda>h. h\<lparr>hb_writers := g h\<rparr>))" for f g
    by (simp_all add: on_hub_def frameA_mod media_of_def peer_of_def hub_of_def)
  have p: "(\<And>p. pe_media (f p) = pe_media p) \<Longrightarrow> frameA media_of (on_peer f)" for f
    by (simp add: on_peer_def frameA_mod media_of_def peer_of_def hub_of_def)
  show "frameA media_of (close_reads env r)"
    unfolding close_reads_def close_read_def unsubscribeReadDataTopic_def release_reader_def on_readers_def closeDataChannel_def
    by (intro frame_rules frame_get h p) simp
  show "frameA media_of (close_writes env r)"
    unfolding close_writes_def close_write_def unsubscribeWriteDataTopic_def on_writers_def closeDataChannel_def
    by (intro frame_rules frame_get h p) simp
  show "frameA media_of (negotiate env r)" unfolding negotiate_def by (intro frame_rules frame_get p) simp_all
  show "frameA media_of (send_reply env i b r)"
    unfolding send_reply_def removePeerConnection_def by (intro frame_rules frame_get frame_sio p) simp_all
qed

lemma close_media_frees:
  assumes "close_media env True r s = (Inr r', out, s')" "pe_read (peer_of s) = []" "video_good (hub_of s)"
    and "map_of (pe_media (peer_of s)) t = Some k" "showing k (hub_of s)"
  shows "freed_track env t k (peer_of s') (hub_of s') out"
proof -
  let ?ts = "map fst (filter (\<lambda>(t, k). (case map_of (vd_tracks (hb_video (hub_of s))) k of None \<Rightarrow> False | Some i \<Rightarrow> tk_in_use i) \<and>
      t \<notin> set (pe_read (peer_of s))) (pe_media (peer_of s)))"
  have run: "forA (close_video env True) ?ts r s = (Inr r', out, s')" using assms(1) by (simp add: close_media_def bindA_def getA_def split: prod.splits)
  have tin: "t \<in> set ?ts"
  proof -
    have "(t, k) \<in> set (pe_media (peer_of s))" using assms(4) by (rule map_of_SomeD)
    then show ?thesis using assms(2,5) by (force simp: showing_def)
  qed
  note c = close_videos_hub [OF run assms(3)]
  have "not_showing t k (hub_of s') \<and> (e_track_open env k \<longrightarrow> Vd_eff (Close_track k) \<in> set out)"
    using c tin assms(4) by blast
  moreover from c have "map_of (pe_media (peer_of s')) t = (if t \<in> set ?ts then None else map_of (pe_media (peer_of s)) t)"
    by (simp only: fun_eq_iff)
  then have "map_of (pe_media (peer_of s')) t = None" by (simp only: tin if_True)
  ultimately show ?thesis by (simp only: freed_track_def) blast
qed

lemma update_disconnected:
  assumes "update_channels env b r s = (Inr r', out, s')" "pe_read (peer_of s) = []" "pe_write (peer_of s) = []"
    and "readers_good (hub_of s)" "writers_ok (hb_writers (hub_of s))"
  shows "map_of (pe_out (peer_of s)) t = Some c \<Longrightarrow> freed_out t c (hub_of s') \<and> closed_in env c out"
    "map_of (pe_in (peer_of s)) t = Some c \<Longrightarrow> linked_in t c (hub_of s) \<Longrightarrow> freed_in t c (hub_of s') \<and> closed_in env c out"
    "closing_step (hub_of s) (hub_of s')"
    "b \<Longrightarrow> video_good (hub_of s) \<Longrightarrow> map_of (pe_media (peer_of s)) t = Some k \<Longrightarrow> showing k (hub_of s) \<Longrightarrow>
       freed_track env t k (peer_of s') (hub_of s') out"
proof -
  have opened: "open_reads env r s = (Inr r, [], s)" "open_writes env r s = (Inr r, [], s)"
    using assms(2,3) by (simp_all add: open_reads_def open_writes_def retA_def)
  obtain r1 o1 s1 r2 o2 s2 o3 where st: "close_reads env r s = (Inr r1, o1, s1)" "close_media env b r1 s1 = (Inr r2, o2, s2)"
    "close_writes env r2 s2 = (Inr r', o3, s')" "out = o1 @ o2 @ o3"
  proof -
    have "bindA (close_reads env r) (\<lambda>r. bindA (close_media env b r) (close_writes env)) s = (Inr r', out, s')"
      using assms(1) by (simp add: update_channels_def bindA_def opened)
    then show thesis using that by (auto elim!: bindA_InrE)
  qed
  note e1 = close_reads_hub [OF st(1) assms(2,4)] and i1 = close_reads_Inr [OF st(1)]
  note e2 = close_media_hub [OF st(2)] and i2 = close_media_Inr [OF st(2)]
  have e12: "closing_step (hub_of s) (hub_of s2)" using e1(1) e2 by (rule closing_trans)
  have w2: "pe_write (peer_of s2) = []" "pe_in (peer_of s2) = pe_in (peer_of s)"
    using i1 i2 assms(3) by (simp_all add: wishes_def side_def channels_def)
  have ok2: "writers_ok (hb_writers (hub_of s2))" using closing_keeps_in [OF e12] assms(5) by blast
  note e3 = close_writes_hub [OF st(3) w2(1) ok2]
  have e23: "closing_step (hub_of s1) (hub_of s')" using e2 e3(1) by (rule closing_trans)
  show "freed_out t c (hub_of s') \<and> closed_in env c out" if "map_of (pe_out (peer_of s)) t = Some c"
    using e1(2) [OF that] closing_keeps_out [OF e23] by (simp add: closed_in_def st(4))
  show "freed_in t c (hub_of s') \<and> closed_in env c out"
    if "map_of (pe_in (peer_of s)) t = Some c" "linked_in t c (hub_of s)"
    using e3(2) [of t c] closing_keeps_in [OF e12] that by (simp add: closed_in_def st(4) w2)
  show "closing_step (hub_of s) (hub_of s')" using e12 e3(1) by (rule closing_trans)
  assume m: b "video_good (hub_of s)" "map_of (pe_media (peer_of s)) t = Some k" "showing k (hub_of s)"
  have m1: "media_of s1 = media_of s" using media_frames(1) st(1) by (rule frameAD)
  have m3: "media_of s' = media_of s2" using media_frames(2) st(3) by (rule frameAD)
  have "pe_read (peer_of s1) = []" using i1 assms(2) by (simp add: wishes_def)
  with close_media_frees [of env r1 s1 r2 o2 s2 t k] st(2) m m1 have "freed_track env t k (peer_of s2) (hub_of s2) o2"
    by (simp add: media_of_def video_good_def showing_def)
  with m3 show "freed_track env t k (peer_of s') (hub_of s') out"
    by (auto simp: freed_track_def media_of_def not_showing_def st(4))
qed

text \<open>C5. When the processing that a disconnection starts returns, the peer has no data channel, no peer connection and no
  answer to wait for. Of the channels it had, each that was open has been closed; the reader of the topic does not refer to
  it, and, unless it had been routed to another topic's writer, no writer does, the heartbeat topic excepted, which has
  neither. Of its media tracks, each that was in use is forgotten, closed if it was open, and no reader of the topic
  shows it. Channels that a reconnection had forgotten before are not among them. It is assumed that no reader or
  writer lists a channel or track twice and that the index of channels agrees with the writers.\<close>

theorem disconnect_releases:
  assumes "onDisconnected env cfg (p, h) = (Inr (), out, (p', h'))" "readers_good h" "writers_ok (hb_writers h)" "video_good h"
  shows "pe_out p' = [] \<and> pe_in p' = [] \<and> pe_pc p' = None \<and> \<not> pe_connected p' \<and> mutex_free p' \<and>
    (\<forall>t c. map_of (pe_out p) t = Some c \<longrightarrow> freed_out t c h' \<and> closed_in env c out) \<and>
    (\<forall>t c. map_of (pe_in p) t = Some c \<longrightarrow> linked_in t c h \<longrightarrow> freed_in t c h' \<and> closed_in env c out) \<and>
    (\<forall>t k. map_of (pe_media p) t = Some k \<longrightarrow> showing k h \<longrightarrow> freed_track env t k p' h' out)"
proof -
  let ?p = "p\<lparr>pe_read := [], pe_write := [], pe_connected := False\<rparr>"
  let ?s = "(?p\<lparr>pe_negotiation := False\<rparr>, h)"
  have run: "processSubscriptionsSync env cfg (- 1) None (?p, h) = (Inr (), out, (p', h'))"
    using assms(1) by (auto simp: onDisconnected_def run_iffs)
  have "\<not> is_reconnect env ?p" by (simp add: is_reconnect_def)
  then obtain r1 o1 s1 r o2 s2 o3 where u: "update_channels env True (reply_start ?p []) ?s = (Inr r1, o1, s1)"
    and n: "negotiate env r1 s1 = (Inr r, o2, s2)" and f: "send_reply env (- 1) False r s2 = (Inr (), o3, (p', h'))"
    and out: "out = o1 @ o2 @ o3"
    using run unfolding processSubscriptionsSync_def Let_def
    by (auto simp: run_iffs ifA_def retA_def)
  note ud = update_disconnected [OF u] and ui = update_channels_Inr [OF u]
  have c1: "\<not> pe_connected (peer_of s1)" using ui(1) by (simp add: wishes_def)
  have s2: "o2 = []" "s2 = ((peer_of s1)\<lparr>pe_awaiting := False\<rparr>, hub_of s1)"
    using n c1 by (auto simp: negotiate_def run_iffs)
  have fin: "channels p' = channels (peer_of s1)" "wishes p' = wishes (peer_of s1)" "h' = hub_of s1" "pe_pc p' = None"
    using f c1 s2 by (auto simp: send_reply_def removePeerConnection_def run_iffs wishes_def split: option.splits)
  have "keys (side False (peer_of s1)) = {}" "keys (side True (peer_of s1)) = {}" using ui(2,3) by simp_all
  then have "pe_out p' = []" "pe_in p' = []" using fin(1) by (simp_all add: side_def channels_def)
  moreover have "\<not> pe_connected p'" using fin(2) c1 by (simp add: wishes_def)
  moreover have "freed_track env t k p' h' out" if "map_of (pe_media p) t = Some k" "showing k h" for t k
  proof -
    have "freed_track env t k (peer_of s1) (hub_of s1) o1" using ud(4) [of t k] that assms(2-4) by simp
    moreover have "media_of (p', h') = media_of s2" using media_frames(4) f by (rule frameAD)
    ultimately show ?thesis using s2(2) out by (auto simp: freed_track_def media_of_def not_showing_def)
  qed
  ultimately show ?thesis using ud(1,2) assms(2,3) fin(3,4) out by (simp add: mutex_free_def closed_in_def)
qed

section \<open>How a peer gets stuck\<close>

lemma ice_server_blocks:
  "fst (forA (ice_server env cfg) servers acc s) = Inl Blocks \<longleftrightarrow>
     cf_ice_secret cfg = [] \<and> (\<exists>one\<in>set servers. take 5 one = ''turn:'')"
proof (induction servers arbitrary: acc s)
  case Nil
  then show ?case by (simp add: retA_def)
next
  case (Cons one servers)
  show ?case
  proof (cases "take 5 one = ''turn:''")
    case False
    then have "forA (ice_server env cfg) (one # servers) acc s = forA (ice_server env cfg) servers acc s"
      by (simp add: ice_server_def bindA_def retA_def split: prod.splits)
    with Cons.IH [of acc s] False show ?thesis by simp
  next
    case True
    let ?url = "''turn://'' @ cf_ice_username cfg @ '':'' @ cf_ice_secret cfg @ ''@'' @ drop 5 one"
    show ?thesis
    proof (cases "cf_ice_secret cfg = []")
      case secret: True
      then have "replace_str ?url [] ''*******'' = None" by (simp add: replace_str_def replace_loop_empty_diverges)
      with True secret show ?thesis by (simp add: ice_server_def bindA_def liftA_def Let_def)
    next
      case False
      then have "\<exists>r. replace_str ?url (cf_ice_secret cfg) ''*******'' = Some r"
        unfolding replace_str_def by (intro replace_loop_total) simp_all
      then obtain r where "replace_str ?url (cf_ice_secret cfg) ''*******'' = Some r" by blast
      with True False Cons.IH [of "acc @ [?url]" s] show ?thesis
        by (auto simp: ice_server_def bindA_def liftA_def retA_def Let_def split: prod.splits if_splits)
    qed
  qed
qed

text \<open>C33. Making a peer connection does not return exactly if there is a TURN server among the ICE servers and the
  secret is empty: hiding the secret in the log searches for the empty text.\<close>

theorem peer_connection_blocks_iff:
  "result (createPeerConnection env cfg s) = Inl Blocks \<longleftrightarrow>
     cf_ice_secret cfg = [] \<and> (\<exists>one\<in>set (cf_ice_servers cfg). take 5 one = ''turn:'')"
  using ice_server_blocks [of env cfg "cf_ice_servers cfg" "[]" s]
  by (auto simp: createPeerConnection_def result_def bindA_def thenA_def get_hub_def on_hub_def on_peer_def getA_def modA_def emitA_def
      split: prod.splits sum.splits)

text \<open>An answer lets the next processing of a waiting peer begin exactly if the connection expects none or the
  answer carries a session description that the connection accepts; after any other one the peer waits on,
  and only its disconnection ends that.\<close>

theorem answer_ends_waiting_iff:
  assumes "pe_pc p = Some n" "pe_awaiting p" "pe_connected p"
  shows "mutex_free (peer_of (final (onSDPAnswer env m (p, h)))) \<longleftrightarrow>
    \<not> e_have_local_offer env n \<or> (\<exists>sdp. bindR (conf_at m ''sdp'') get_string = Inr sdp \<and> e_sdp_ok env sdp)"
  using assms
  by (auto simp: onSDPAnswer_def mutex_free_def bindA_def thenA_def get_peer_def getA_def on_peer_def modA_def liftA_def emitA_def
      split: sum.splits)

text \<open>A reconnection forgets the channels of the old connection without telling the readers and writers.\<close>

lemma reconnect_keeps_old_channels:
  assumes "reconnect env cfg (p, h) = (Inr (), out, (p', h'))"
  shows "pe_out p' = [] \<and> pe_in p' = [] \<and> hb_readers h' = hb_readers h \<and> hb_writers h' = hb_writers h \<and>
    hb_video h' = hb_video h \<and> pe_media p' = pe_media p"
proof -
  let ?g = "\<lambda>s. (hb_readers (hub_of s), hb_writers (hub_of s), hb_video (hub_of s), pe_media (peer_of s))"
  have p: "frameA ?g (on_peer f)" if "\<And>p. pe_media (f p) = pe_media p" for f using that by (simp add: on_peer_def frameA_mod)
  have hb: "frameA ?g (on_hub f)" if "\<And>h. hb_readers (f h) = hb_readers h \<and> hb_writers (f h) = hb_writers h \<and> hb_video (f h) = hb_video h" for f
    using that by (simp add: on_hub_def frameA_mod)
  have "frameA ?g (ice_server env cfg one acc)" for one acc
    by (auto simp: ice_server_def Let_def intro!: frame_rules split: option.splits)
  then have "frameA ?g (reconnect env cfg)"
    unfolding reconnect_def createPeerConnection_def removePeerConnection_def
    by (intro frame_rules frame_get p hb) simp_all
  from frameAD [OF this assms] show ?thesis
    using reconnect_Inr [OF assms, of True] reconnect_Inr [OF assms, of False] by (simp add: side_def)
qed

section \<open>Examples\<close>

lemma readers_good_list:
  "list_all (\<lambda>(t, r). distinct (map o_dc (rd_outputs r))) (rs_map (hb_readers h)) \<Longrightarrow> readers_good h"
  by (force simp: readers_good_def list_all_iff dest: map_of_SomeD)

lemma video_good_list:
  "list_all (\<lambda>(t, r). distinct (map vo_track (vr_outputs r))) (vd_readers (hb_video h)) \<Longrightarrow> video_good h"
  by (force simp: video_good_def list_all_iff dest: map_of_SomeD)

text \<open>A peer that reads one topic, writes another and watches a third.\<close>

definition watched :: vreader where
  "watched = \<lparr>vr_topic = ''/cam'', vr_msg_type = ''sensor_msgs/msg/Image'', vr_use_pts = False, vr_debug_num_frames = 0,
     vr_create_node = False, vr_running = True, vr_has_node = False, vr_spinning = False, vr_node_no = 0,
     vr_sub = Some Sub_image, vr_outputs = [new_voutput 0 0, new_voutput 7 0], vr_encoder = None,
     vr_encoder_error = False, vr_logged_error = False\<rparr>"

definition leaving_peer :: peer where
  "leaving_peer = sample_peer\<lparr>pe_out := [(''/odom'', \<lparr>ch_dc = 1, ch_id = 1\<rparr>)], pe_in := [(''/cmd'', \<lparr>ch_dc = 2, ch_id = 2\<rparr>)],
     pe_media := [(''/cam'', 0)]\<rparr>"

definition leaving_hub :: hub where
  "leaving_hub = sample_hub\<lparr>
     hb_readers := snd (snd (add_reader_output True ''/odom'' 1 1 (get_reader ''/odom'' ''Odometry'' \<lparr>q_depth = 1, q_reliability = 1, q_durability = 2, q_lifespan = None\<rparr> no_readers))),
     hb_writers := snd (snd (addInput True ''/cmd'' 2 (get_writer ''/cmd'' ''Twist'' no_writers))),
     hb_video := (snd (open_track 1 5 ''m'' no_video))\<lparr>vd_readers := [(''/cam'', watched)]\<rparr>\<rparr>"

lemma leaving_good: "readers_good leaving_hub" "writers_ok (hb_writers leaving_hub)" "video_good leaving_hub"
proof -
  show "readers_good leaving_hub" by (rule readers_good_list) code_simp
  have "writers_ok no_writers" by (simp add: no_writers_def writers_ok_def)
  then have w: "writers_ok (get_writer ''/cmd'' ''Twist'' no_writers)" by (rule writers_ok_get)
  have "map_of (ws_index (get_writer ''/cmd'' ''Twist'' no_writers)) 2 \<in> {None, Some ''/cmd''}"
    by (simp add: get_writer_def no_writers_def)
  from writers_ok_add [OF w this, of True] show "writers_ok (hb_writers leaving_hub)" by (simp add: leaving_hub_def)
  show "video_good leaving_hub" by (rule video_good_list) code_simp
qed

theorem disconnect_releases_witness:
  "\<exists>out p' h'. onDisconnected sample_env (empty_config :: jvalue bridge_config) (leaving_peer, leaving_hub) = (Inr (), out, (p', h')) \<and>
     pe_out p' = [] \<and> not_reading ''/odom'' 1 h' \<and> Close_dc 1 \<in> set out \<and> index_of h' 2 = None \<and> Close_dc 2 \<in> set out \<and>
     not_showing ''/cam'' 0 h' \<and> Vd_eff (Close_track 0) \<in> set out"
proof -
  have "result (onDisconnected sample_env (empty_config :: jvalue bridge_config) (leaving_peer, leaving_hub)) = Inr ()" by code_simp
  then obtain out p' h' where r: "onDisconnected sample_env (empty_config :: jvalue bridge_config) (leaving_peer, leaving_hub) = (Inr (), out, (p', h'))"
    by (cases "onDisconnected sample_env (empty_config :: jvalue bridge_config) (leaving_peer, leaving_hub)") auto
  note d = disconnect_releases [OF r leaving_good]
  have c: "map_of (pe_out leaving_peer) ''/odom'' = Some \<lparr>ch_dc = 1, ch_id = 1\<rparr>"
    "map_of (pe_in leaving_peer) ''/cmd'' = Some \<lparr>ch_dc = 2, ch_id = 2\<rparr>"
    "map_of (pe_media leaving_peer) ''/cam'' = Some 0" by (simp_all add: leaving_peer_def)
  have l: "linked_in ''/cmd'' \<lparr>ch_dc = 2, ch_id = 2\<rparr> leaving_hub" "showing 0 leaving_hub"
    unfolding linked_in_def showing_def by code_simp+
  have "freed_out ''/odom'' \<lparr>ch_dc = 1, ch_id = 1\<rparr> h' \<and> closed_in sample_env \<lparr>ch_dc = 1, ch_id = 1\<rparr> out" using d c(1) by blast
  moreover have "freed_in ''/cmd'' \<lparr>ch_dc = 2, ch_id = 2\<rparr> h' \<and> closed_in sample_env \<lparr>ch_dc = 2, ch_id = 2\<rparr> out"
    using d c(2) l(1) by blast
  moreover have "freed_track sample_env ''/cam'' 0 p' h' out" using d c(3) l(2) by blast
  ultimately show ?thesis using d r
    by (auto simp: freed_out_def freed_in_def closed_in_def freed_track_def HEARTBEAT_CHANNEL_ID_def sample_env_def)
qed

theorem answer_ends_waiting_iff_witness:
  "\<not> mutex_free (peer_of (final (onSDPAnswer sample_env (Object_msg []) (sample_peer\<lparr>pe_awaiting := True\<rparr>, sample_hub)))) \<and>
   mutex_free (peer_of (final (onSDPAnswer sample_env (Object_msg [(''sdp'', text_message ''v=0'')]) (sample_peer\<lparr>pe_awaiting := True\<rparr>, sample_hub))))"
proof -
  have p: "pe_pc (sample_peer\<lparr>pe_awaiting := True\<rparr>) = Some 1" "pe_awaiting (sample_peer\<lparr>pe_awaiting := True\<rparr>)"
    "pe_connected (sample_peer\<lparr>pe_awaiting := True\<rparr>)" by (simp_all add: sample_peer_def blank_peer_def)
  show ?thesis
    by (simp add: answer_ends_waiting_iff [OF p] sample_env_def conf_at_def bindR_def mat_def text_message_def)
qed

end
