(* ===== verification/Leds.thy ===== *)
theory Leds
  imports Config Machine
begin

text \<open>
  \<open>src/status_leds.cpp\<close>: a status LED as a state machine over the clock, and the pair of LEDs of the
  bridge. Times are nanoseconds of the steady clock; \<open>update\<close> and \<open>setState\<close> each read the clock, so an
  update has two times. A change of the light is an effect.
\<close>

section \<open>One LED\<close>

datatype led_mode = UNUSED | ROS | GPIO

datatype led_state = ON | OFF | BLINK_ONCE | BLINKING

record led =
  ld_mode :: led_mode
  ld_state :: led_state
  ld_on_ms :: "32 word"
  ld_interval_ms :: "32 word"
  ld_light :: bool
  ld_last_on :: int
  ld_last_off :: int

definition min_off_ms :: int where
  "min_off_ms = 80"

definition ms :: "int \<Rightarrow> int" where
  "ms ns = (if ns < 0 then - ((- ns) div 1000000) else ns div 1000000)"

definition elapsed_ms :: "int \<Rightarrow> int \<Rightarrow> int" where
  "elapsed_ms now since = ms (now - since)"

text \<open>\<open>ok\<close> is \<open>rclcpp::ok()\<close>: nothing is published once the node shuts down.\<close>

definition setState :: "bool \<Rightarrow> int \<Rightarrow> bool \<Rightarrow> led \<Rightarrow> bool list \<times> led" where
  "setState ok now light l =
     (if ld_mode l = GPIO \<or> (ld_mode l = ROS \<and> ok) then [light] else [],
      if light then l\<lparr>ld_light := True, ld_last_on := now\<rparr> else l\<lparr>ld_light := False, ld_last_off := now\<rparr>)"

text \<open>The constructors: \<open>on_ms\<close> and \<open>interval_ms\<close> hold what was in memory (\<open>a\<close>, \<open>b\<close>).\<close>

definition new_led :: "led_mode \<Rightarrow> 32 word \<Rightarrow> 32 word \<Rightarrow> bool \<Rightarrow> int \<Rightarrow> bool list \<times> led" where
  "new_led mode a b ok now =
     setState ok now False \<lparr>ld_mode = mode, ld_state = OFF, ld_on_ms = a, ld_interval_ms = b,
       ld_light = False, ld_last_on = 0, ld_last_off = 0\<rparr>"

definition led_on :: "led \<Rightarrow> led" where
  "led_on l = l\<lparr>ld_state := ON\<rparr>"

definition led_off :: "led \<Rightarrow> led" where
  "led_off l = l\<lparr>ld_state := OFF\<rparr>"

definition led_once :: "32 word \<Rightarrow> led \<Rightarrow> led" where
  "led_once on_ms l = l\<lparr>ld_state := BLINK_ONCE, ld_on_ms := on_ms\<rparr>"

definition led_interval :: "32 word \<Rightarrow> 32 word \<Rightarrow> led \<Rightarrow> led" where
  "led_interval on_ms interval_ms l = l\<lparr>ld_state := BLINKING, ld_on_ms := on_ms, ld_interval_ms := interval_ms\<rparr>"

definition led_fastPulse :: "led \<Rightarrow> led" where
  "led_fastPulse = led_interval 10 500"

definition led_update :: "bool \<Rightarrow> int \<Rightarrow> int \<Rightarrow> led \<Rightarrow> bool list \<times> led" where
  "led_update ok now now' l =
     (case ld_state l of
        ON \<Rightarrow> if \<not> ld_light l \<or> elapsed_ms now (ld_last_on l) > 1000 then setState ok now' True l else ([], l)
      | OFF \<Rightarrow> if ld_light l \<or> elapsed_ms now (ld_last_off l) > 1000 then setState ok now' False l else ([], l)
      | BLINK_ONCE \<Rightarrow>
          if \<not> ld_light l \<and> elapsed_ms now (ld_last_off l) > min_off_ms then setState ok now' True l
          else if ld_light l \<and> elapsed_ms now (ld_last_on l) > uint (ld_on_ms l) then setState ok now' False (led_off l)
          else ([], l)
      | BLINKING \<Rightarrow>
          if \<not> ld_light l then
            if elapsed_ms now (ld_last_off l) > uint (ld_interval_ms l - ld_on_ms l) then setState ok now' True l else ([], l)
          else if elapsed_ms now (ld_last_on l) > uint (ld_on_ms l) then setState ok now' False l
          else ([], l))"

definition led_clear :: "bool \<Rightarrow> int \<Rightarrow> led \<Rightarrow> bool list \<times> led" where
  "led_clear ok now l = setState ok now False l"

section \<open>The LEDs of the bridge\<close>

text \<open>
  The vector \<open>leds\<close> owns the LEDs; \<open>conn\<close> and \<open>data\<close> point into it. The state is the static \<open>instance\<close>.
\<close>

record leds =
  ls_leds :: "led list"
  ls_conn :: "nat option"
  ls_data :: "nat option"
  ls_running :: bool

definition no_leds :: leds where
  "no_leds = \<lparr>ls_leds = [], ls_conn = None, ls_data = None, ls_running = False\<rparr>"

definition add_led :: "(nat option \<Rightarrow> leds \<Rightarrow> leds) \<Rightarrow> led \<Rightarrow> leds \<Rightarrow> leds" where
  "add_led f l s = f (Some (length (ls_leds s))) (s\<lparr>ls_leds := ls_leds s @ [l]\<rparr>)"

abbreviation put_conn :: "nat option \<Rightarrow> leds \<Rightarrow> leds" where "put_conn i s \<equiv> s\<lparr>ls_conn := i\<rparr>"
abbreviation put_data :: "nat option \<Rightarrow> leds \<Rightarrow> leds" where "put_data i s \<equiv> s\<lparr>ls_data := i\<rparr>"

text \<open>\<open>mk\<close> makes a LED; \<open>chip_ok\<close> and \<open>line_ok\<close> are whether the GPIO chip and a line of it open.\<close>

definition add_gpio :: "(nat option \<Rightarrow> leds \<Rightarrow> leds) \<Rightarrow> (led_mode \<Rightarrow> led) \<Rightarrow> (int \<Rightarrow> bool) \<Rightarrow> 32 word \<Rightarrow> leds \<Rightarrow> leds res" where
  "add_gpio f mk line_ok pin s =
     (if sint pin > -1 then
        if line_ok (sint pin) then Inr (add_led f (mk GPIO) s)
        else Inl (Runtime_error (''Failed to open GPIO line '' @ show_int (sint pin)))
      else Inr s)"

definition add_ros :: "(nat option \<Rightarrow> leds \<Rightarrow> leds) \<Rightarrow> (led_mode \<Rightarrow> led) \<Rightarrow> string \<Rightarrow> leds \<Rightarrow> leds" where
  "add_ros f mk topic s = (if topic \<noteq> [] then add_led f (mk ROS) s else s)"

definition leds_init ::
  "(led_mode \<Rightarrow> led) \<Rightarrow> bool \<Rightarrow> (int \<Rightarrow> bool) \<Rightarrow> 'j bridge_config \<Rightarrow> leds option \<Rightarrow> leds res" where
  "leds_init mk chip_ok line_ok cfg inst =
     (let s = (case inst of None \<Rightarrow> no_leds | Some s \<Rightarrow> s);
          start = (\<lambda>s. if ls_data s \<noteq> None \<or> ls_conn s \<noteq> None then s\<lparr>ls_running := True\<rparr> else s)
      in if sint (cf_conn_led_pin cfg) > -1 \<or> sint (cf_data_led_pin cfg) > -1 then
           if cf_conn_led_gpio_chip cfg = [] then Inr s
           else if \<not> chip_ok then Inl (Runtime_error (''Failed to open GPIO chip '' @ cf_conn_led_gpio_chip cfg))
           else bindR (add_gpio put_conn mk line_ok (cf_conn_led_pin cfg) s) (\<lambda>s.
                bindR (add_gpio put_data mk line_ok (cf_data_led_pin cfg) s) (\<lambda>s. Inr (start s)))
         else Inr (start (add_ros put_data mk (cf_data_led_topic cfg) (add_ros put_conn mk (cf_conn_led_topic cfg) s))))"

text \<open>A command to one of the LEDs: nothing without an instance or without that LED.\<close>

definition led_command :: "(leds \<Rightarrow> nat option) \<Rightarrow> (led \<Rightarrow> led) \<Rightarrow> leds option \<Rightarrow> leds option" where
  "led_command which f inst =
     (case inst of None \<Rightarrow> None
      | Some s \<Rightarrow> (case which s of None \<Rightarrow> Some s
                  | Some i \<Rightarrow> Some (s\<lparr>ls_leds := (ls_leds s)[i := f (ls_leds s ! i)]\<rparr>)))"

definition ConnLED_on :: "leds option \<Rightarrow> leds option" where "ConnLED_on = led_command ls_conn led_on"
definition ConnLED_fastPulse :: "leds option \<Rightarrow> leds option" where "ConnLED_fastPulse = led_command ls_conn led_fastPulse"
definition ConnLED_off :: "leds option \<Rightarrow> leds option" where "ConnLED_off = led_command ls_conn led_off"
definition DataLED_once :: "leds option \<Rightarrow> leds option" where "DataLED_once = led_command ls_data (led_once 10)"
definition DataLED_off :: "leds option \<Rightarrow> leds option" where "DataLED_off = led_command ls_data led_off"

text \<open>\<open>clear\<close> dereferences both pointers.\<close>

definition leds_clear :: "bool \<Rightarrow> int \<Rightarrow> leds option \<Rightarrow> (bool list \<times> leds option) res" where
  "leds_clear ok now inst =
     (case inst of None \<Rightarrow> Inl Null_deref
      | Some s \<Rightarrow>
          (case ls_conn s of None \<Rightarrow> Inl Null_deref
           | Some i \<Rightarrow>
               let (out, l) = led_clear ok now (ls_leds s ! i); ls = (ls_leds s)[i := l]
               in (case ls_data s of None \<Rightarrow> Inl Null_deref
                   | Some j \<Rightarrow> Inr (out @ fst (led_clear ok now (ls ! j)), None))))"

text \<open>One pass of the loop over all LEDs.\<close>

definition leds_tick :: "bool \<Rightarrow> int \<Rightarrow> int \<Rightarrow> leds \<Rightarrow> bool list list \<times> leds" where
  "leds_tick ok now now' s =
     (if ls_running s then (map (fst \<circ> led_update ok now now') (ls_leds s),
                            s\<lparr>ls_leds := map (snd \<circ> led_update ok now now') (ls_leds s)\<rparr>)
      else ([], s))"

section \<open>What a LED shows\<close>

lemmas led_defs = led_update_def setState_def led_off_def led_on_def led_once_def led_interval_def

text \<open>One update brings the light in line with \<open>on\<close> and \<open>off\<close>, and a steady light is sent again only
  after more than a second.\<close>

theorem led_steady:
  "ld_light (snd (led_update ok now now' (led_on l))) \<and> \<not> ld_light (snd (led_update ok now now' (led_off l))) \<and>
   (let (out, l') = led_update ok t (t + d) (snd (led_update ok now now' (led_on l)))
    in out = (if ld_mode l = GPIO \<or> (ld_mode l = ROS \<and> ok)
              then if elapsed_ms t (ld_last_on (snd (led_update ok now now' (led_on l)))) > 1000 then [True] else []
              else []))"
  by (simp add: led_defs Let_def split: prod.splits)

text \<open>A single blink runs its course: the light goes on at the first update after more than 80 ms of dark,
  stays on until more than \<open>on_ms\<close> have passed, and then the LED is off, whatever happened before.\<close>

theorem led_once_completes:
  assumes "\<not> ld_light l" "elapsed_ms t0 (ld_last_off l) > min_off_ms"
    and "elapsed_ms t1 t0' \<le> uint n" "elapsed_ms t2 t0' > uint n"
  shows "\<exists>l1 l2 l3. snd (led_update ok t0 t0' (led_once n l)) = l1 \<and> ld_light l1 \<and>
    snd (led_update ok t1 t1' l1) = l2 \<and> ld_light l2 \<and>
    snd (led_update ok t2 t2' l2) = l3 \<and> \<not> ld_light l3 \<and> ld_state l3 = OFF \<and> ld_last_off l3 = t2'"
  using assms by (simp add: led_defs)

theorem led_once_completes_witness:
  "\<exists>l1 l2 l3. snd (led_update True 100000000 100000000 (led_once 10 (snd (new_led ROS 0 0 True 0)))) = l1 \<and> ld_light l1 \<and>
    snd (led_update True 105000000 105000000 l1) = l2 \<and> ld_light l2 \<and>
    snd (led_update True 111000000 111000000 l2) = l3 \<and> \<not> ld_light l3 \<and> ld_state l3 = OFF \<and> ld_last_off l3 = 111000000"
  by (rule led_once_completes) (simp_all add: new_led_def setState_def elapsed_ms_def ms_def min_off_ms_def)

text \<open>The dark before a blink: an update of a LED in \<open>BLINK_ONCE\<close> turns it on only after more than 80 ms.\<close>

lemma blink_spacing:
  assumes "ld_state l = BLINK_ONCE" "\<not> ld_light l" "ld_light (snd (led_update ok now now' l))"
  shows "elapsed_ms now (ld_last_off l) > min_off_ms"
  using assms by (auto simp: led_defs split: if_splits)

section \<open>The pair of LEDs\<close>

definition leds_ok :: "leds \<Rightarrow> bool" where
  "leds_ok s = ((\<forall>i. ls_conn s = Some i \<longrightarrow> i < length (ls_leds s)) \<and> (\<forall>i. ls_data s = Some i \<longrightarrow> i < length (ls_leds s)))"

lemma leds_init_ok:
  assumes "leds_init mk c lo cfg inst = Inr s" "\<forall>s0. inst = Some s0 \<longrightarrow> leds_ok s0"
  shows "leds_ok s"
  using assms
  by (cases inst)
    (force simp: leds_init_def leds_ok_def add_gpio_def add_ros_def add_led_def no_leds_def res_simps Let_def split: if_splits)+

lemma led_command_ok: "leds_ok s \<Longrightarrow> led_command which f (Some s) = Some s' \<Longrightarrow> leds_ok s'"
  by (auto simp: led_command_def leds_ok_def split: option.splits)

text \<open>Shutting down dereferences null exactly if one of the two LEDs is not configured.\<close>

theorem leds_clear_fails_iff:
  "leds_clear ok now (Some s) = Inl Null_deref \<longleftrightarrow> ls_conn s = None \<or> ls_data s = None"
  by (auto simp: leds_clear_def Let_def split: option.splits prod.splits)

end
