(* ===== verification/PacketText.thy ===== *)
theory PacketText
  imports Packet
begin

unbundle bit_operations_syntax

text \<open>
  The \<open>packet\<close> class of \<open>sio_packet.cpp\<close>: its constructors, \<open>accept\<close> (the text sent), \<open>parse\<close> and
  \<open>parse_buffer\<close> (what is received), and the \<open>packet_manager\<close>. \<open>_frame\<close> and \<open>_type\<close> are integers,
  because the code casts characters to them before it tests their range.
\<close>

record packet =
  pk_frame :: int
  pk_type :: int
  pk_nsp :: string
  pk_pack_id :: int
  pk_message :: msg_ptr
  pk_pending :: nat
  pk_buffers :: "string list"

abbreviation frame_open :: int where "frame_open \<equiv> 0"
abbreviation frame_close :: int where "frame_close \<equiv> 1"
abbreviation frame_ping :: int where "frame_ping \<equiv> 2"
abbreviation frame_pong :: int where "frame_pong \<equiv> 3"
abbreviation frame_message :: int where "frame_message \<equiv> 4"

abbreviation type_connect :: int where "type_connect \<equiv> 0"
abbreviation type_disconnect :: int where "type_disconnect \<equiv> 1"
abbreviation type_event :: int where "type_event \<equiv> 2"
abbreviation type_ack :: int where "type_ack \<equiv> 3"
abbreviation type_error :: int where "type_error \<equiv> 4"
abbreviation type_binary_event :: int where "type_binary_event \<equiv> 5"
abbreviation type_binary_ack :: int where "type_binary_ack \<equiv> 6"
abbreviation type_undetermined :: int where "type_undetermined \<equiv> 16"

section \<open>Constructors and getters\<close>

definition empty_packet :: packet where
  "empty_packet =
     \<lparr>pk_frame = 0, pk_type = type_undetermined, pk_nsp = [], pk_pack_id = -1, pk_message = None,
      pk_pending = 0, pk_buffers = []\<rparr>"

definition message_packet :: "string \<Rightarrow> msg_ptr \<Rightarrow> int \<Rightarrow> bool \<Rightarrow> packet res" where
  "message_packet nsp msg pack_id isAck =
     (if isAck \<and> pack_id < 0 then Inl Assert_fail
      else Inr (empty_packet\<lparr>pk_frame := frame_message,
                  pk_type := (if isAck then type_ack else type_event) OR type_undetermined,
                  pk_nsp := nsp, pk_pack_id := pack_id, pk_message := msg\<rparr>))"

definition typed_packet :: "int \<Rightarrow> string \<Rightarrow> msg_ptr \<Rightarrow> packet" where
  "typed_packet ty nsp msg =
     empty_packet\<lparr>pk_frame := frame_message, pk_type := ty, pk_nsp := nsp, pk_message := msg\<rparr>"

definition frame_packet :: "int \<Rightarrow> packet" where
  "frame_packet frame = empty_packet\<lparr>pk_frame := frame\<rparr>"

definition is_binary_message :: "string \<Rightarrow> bool" where
  "is_binary_message payload = (payload \<noteq> [] \<and> payload ! 0 = CHR 0x04)"

definition is_text_message :: "string \<Rightarrow> bool" where
  "is_text_message payload = (payload \<noteq> [] \<and> payload ! 0 = CHR ''4'')"

definition is_message :: "string \<Rightarrow> bool" where
  "is_message payload = (is_binary_message payload \<or> is_text_message payload)"

definition get_type :: "packet \<Rightarrow> int res" where
  "get_type p = (if pk_type p AND type_undetermined = 0 then Inr (pk_type p) else Inl Assert_fail)"

section \<open>accept\<close>

definition final_type :: "int \<Rightarrow> bool \<Rightarrow> int" where
  "final_type ty hasBinary =
     (let t = ty AND NOT type_undetermined
      in if t = type_event then (if hasBinary then type_binary_event else type_event)
         else if t = type_ack then (if hasBinary then type_binary_ack else type_ack)
         else t)"

definition accept_doc :: "packet \<Rightarrow> (json option \<times> string list) res" where
  "accept_doc p =
     (case pk_message p of
        None \<Rightarrow> Inr (None, [])
      | Some m \<Rightarrow> bindR (accept_message m []) (\<lambda>(j, buffers). Inr (Some j, buffers)))"

definition accept_text :: "(json \<Rightarrow> string) \<Rightarrow> packet \<Rightarrow> json option \<Rightarrow> nat \<Rightarrow> string" where
  "accept_text jwrite p doc nbuf =
     show_int (final_type (pk_type p) (nbuf > 0)) @
     (if nbuf > 0 then show_nat nbuf @ ''-'' else []) @
     (if pk_nsp p \<noteq> [] \<and> pk_nsp p \<noteq> ''/''
      then pk_nsp p @ (if doc \<noteq> None \<or> pk_pack_id p \<ge> 0 then '','' else []) else []) @
     (if pk_pack_id p \<ge> 0 then show_int (pk_pack_id p) else []) @
     (case doc of None \<Rightarrow> [] | Some j \<Rightarrow> jwrite j)"

text \<open>The packet with its final type, the text, the buffers, and whether there are any.\<close>

definition accept_packet ::
  "(json \<Rightarrow> string) \<Rightarrow> packet \<Rightarrow> (packet \<times> string \<times> string list \<times> bool) res" where
  "accept_packet jwrite p =
     (let frame_char = char_of (nat (pk_frame p + 48))
      in if pk_frame p \<noteq> frame_message then Inr (p, [frame_char], [], False)
         else bindR (accept_doc p) (\<lambda>(doc, buffers).
           Inr (p\<lparr>pk_type := final_type (pk_type p) (buffers \<noteq> [])\<rparr>,
                frame_char # accept_text jwrite p doc (length buffers), buffers, buffers \<noteq> [])))"

section \<open>parse\<close>

definition schar :: "char \<Rightarrow> int" where
  "schar c = (let n = int (of_char c) in if n \<ge> 128 then n - 256 else n)"

text \<open>\<open>str[i]\<close> at the end of the string is the terminating zero.\<close>

definition char_at :: "string \<Rightarrow> nat \<Rightarrow> char" where
  "char_at s i = (if i < length s then s ! i else CHR 0x00)"

definition cstr :: "string \<Rightarrow> string" where
  "cstr s = takeWhile (\<lambda>c. c \<noteq> CHR 0x00) s"

definition parse_id :: "string \<Rightarrow> nat \<Rightarrow> nat \<Rightarrow> int res" where
  "parse_id payload pos json_pos =
     (if pos < json_pos then stoi (take (json_pos - pos) (drop pos payload)) else Inr (-1))"

text \<open>From the id on: \<open>p\<close> already holds frame, type, namespace and number of buffers.\<close>

definition parse_tail ::
  "(string \<Rightarrow> json) \<Rightarrow> string \<Rightarrow> packet \<Rightarrow> nat \<Rightarrow> nat \<Rightarrow> (packet \<times> bool) res" where
  "parse_tail jparse payload p pos json_pos =
     bindR (parse_id payload pos json_pos) (\<lambda>i.
       if pk_frame p = frame_message \<and> (pk_type p = type_binary_event \<or> pk_type p = type_binary_ack)
       then Inr (p\<lparr>pk_pack_id := i, pk_buffers := [drop json_pos payload]\<rparr>, True)
       else bindR (from_json (jparse (cstr (drop json_pos payload))) [])
              (\<lambda>m. Inr (p\<lparr>pk_pack_id := i, pk_message := m\<rparr>, False)))"

definition parse_nsp ::
  "(string \<Rightarrow> json) \<Rightarrow> string \<Rightarrow> packet \<Rightarrow> nat \<Rightarrow> (packet \<times> bool) res" where
  "parse_nsp jparse payload p pos =
     (case find_from (\<lambda>c. c \<in> set ''{[\"/'') payload pos of
        None \<Rightarrow> Inr (p\<lparr>pk_nsp := ''/''\<rparr>, False)
      | Some nsp_json_pos \<Rightarrow>
          if payload ! nsp_json_pos = CHR ''/'' then
            (case find_from (\<lambda>c. c = CHR '','') payload 0 of
               None \<Rightarrow> Inr (p\<lparr>pk_nsp := drop nsp_json_pos payload\<rparr>, False)
             | Some comma_pos \<Rightarrow>
                 let nsp = (if nsp_json_pos \<le> comma_pos
                            then take (comma_pos - nsp_json_pos) (drop nsp_json_pos payload)
                            else drop nsp_json_pos payload)
                 in case find_from (\<lambda>c. c \<in> set ''\"[{'') payload (comma_pos + 1) of
                      None \<Rightarrow> Inr (p\<lparr>pk_nsp := nsp\<rparr>, False)
                    | Some json_pos \<Rightarrow> parse_tail jparse payload (p\<lparr>pk_nsp := nsp\<rparr>) (comma_pos + 1) json_pos)
          else parse_tail jparse payload (p\<lparr>pk_nsp := ''/''\<rparr>) pos nsp_json_pos)"

text \<open>The number of attachments; without a dash the whole rest is read and \<open>pos\<close> wraps to 0.\<close>

definition parse_count :: "string \<Rightarrow> (nat \<times> nat) res" where
  "parse_count payload =
     (case find_from (\<lambda>c. c = CHR ''-'') payload 0 of
        None \<Rightarrow> bindR (stoul (drop 2 payload)) (\<lambda>n. Inr (n mod 2 ^ 32, 0))
      | Some score_pos \<Rightarrow>
          bindR (stoul (take (score_pos - 2) (drop 2 payload)))
            (\<lambda>n. Inr (n mod 2 ^ 32, score_pos + 1)))"

definition parse_packet :: "(string \<Rightarrow> json) \<Rightarrow> string \<Rightarrow> (packet \<times> bool) res" where
  "parse_packet jparse payload =
     (if is_binary_message payload then Inl Assert_fail
      else let p = empty_packet\<lparr>pk_frame := schar (char_at payload 0) - 48\<rparr>
        in if pk_frame p = frame_message then
             (let p = p\<lparr>pk_type := schar (char_at payload 1) - 48\<rparr>
              in if pk_type p < 0 \<or> pk_type p > 6 then Inr (p, False)
                 else if pk_type p = type_binary_event \<or> pk_type p = type_binary_ack then
                   bindR (parse_count payload)
                     (\<lambda>(n, pos). parse_nsp jparse payload (p\<lparr>pk_pending := n\<rparr>) pos)
                 else parse_nsp jparse payload p 2)
           else parse_nsp jparse payload p 1)"

definition parse_buffer :: "(string \<Rightarrow> json) \<Rightarrow> packet \<Rightarrow> string \<Rightarrow> (packet \<times> bool) res" where
  "parse_buffer jparse p buf =
     (if pk_pending p > 0 then
        if \<not> is_binary_message buf then Inl Assert_fail
        else let bufs = pk_buffers p @ [buf]; n = pk_pending p - 1
          in if n = 0 then
               bindR (from_json (jparse (cstr (hd bufs))) (tl bufs))
                 (\<lambda>m. Inr (p\<lparr>pk_pending := 0, pk_message := m, pk_buffers := []\<rparr>, False))
             else Inr (p\<lparr>pk_pending := n, pk_buffers := bufs\<rparr>, True)
      else Inr (p, False))"

section \<open>packet_manager\<close>

text \<open>
  The state is \<open>m_partial_packet\<close>. \<open>encode\<close> lists the calls of the encode callback (whether binary,
  payload); \<open>put_payload\<close> returns the packet handed to the decode callback, if any.
\<close>

definition pm_encode :: "(json \<Rightarrow> string) \<Rightarrow> packet \<Rightarrow> (packet \<times> (bool \<times> string) list) res" where
  "pm_encode jwrite p =
     bindR (accept_packet jwrite p) (\<lambda>(p', payload, buffers, hasBinary).
       Inr (p', (False, payload) # (if hasBinary then map (Pair True) buffers else [])))"

definition put_payload ::
  "(string \<Rightarrow> json) \<Rightarrow> string \<Rightarrow> packet option \<Rightarrow> (packet option \<times> packet option) res" where
  "put_payload jparse payload partial =
     (if is_text_message payload then
        bindR (parse_packet jparse payload)
          (\<lambda>(p, need). Inr (if need then (Some p, None) else (partial, Some p)))
      else if is_binary_message payload then
        (case partial of
           None \<Rightarrow> Inr (None, None)
         | Some q \<Rightarrow> bindR (parse_buffer jparse q payload)
             (\<lambda>(q', more). Inr (if more then (Some q', None) else (None, Some q'))))
      else bindR (parse_packet jparse payload) (\<lambda>(p, _). Inr (partial, Some p)))"

definition pm_reset :: "packet option \<Rightarrow> packet option" where
  "pm_reset partial = None"

text \<open>The packets decoded from a sequence of payloads.\<close>

fun feed :: "(string \<Rightarrow> json) \<Rightarrow> string list \<Rightarrow> packet option \<Rightarrow> (packet option \<times> packet list) res" where
  "feed jparse [] partial = Inr (partial, [])"
| "feed jparse (x # xs) partial =
     bindR (put_payload jparse x partial) (\<lambda>(partial', out).
       bindR (feed jparse xs partial') (\<lambda>(partial'', outs).
         Inr (partial'', (case out of None \<Rightarrow> outs | Some p \<Rightarrow> p # outs))))"

section \<open>The round trip through text\<close>

text \<open>
  What is relied on of rapidjson for one document: its text starts with a bracket, brace or quote, has
  no zero byte, and is parsed back to the document.
\<close>

definition json_text_ok :: "(json \<Rightarrow> string) \<Rightarrow> (string \<Rightarrow> json) \<Rightarrow> json \<Rightarrow> bool" where
  "json_text_ok jwrite jparse j =
     (jwrite j \<noteq> [] \<and> hd (jwrite j) \<in> set ''{[\"'' \<and> CHR 0x00 \<notin> set (jwrite j) \<and> jparse (jwrite j) = j)"

text \<open>Namespaces as \<open>client_impl::socket\<close> makes them: none, or starting with a slash, without comma.\<close>

definition nsp_ok :: "string \<Rightarrow> bool" where
  "nsp_ok nsp = (nsp = [] \<or> (hd nsp = CHR ''/'' \<and> CHR '','' \<notin> set nsp))"

definition nsp_read :: "string \<Rightarrow> string" where
  "nsp_read nsp = (if nsp = [] then ''/'' else nsp)"

definition id_text :: "int \<Rightarrow> string" where
  "id_text i = (if i \<ge> 0 then show_int i else [])"

lemma is_digit_plain:
  "is_digit c \<Longrightarrow> c \<noteq> CHR ''{'' \<and> c \<noteq> CHR ''['' \<and> c \<noteq> CHR 0x22 \<and> c \<noteq> CHR ''/'' \<and> c \<noteq> CHR '','' \<and> c \<noteq> CHR ''-''"
  by (auto simp: is_digit_def)

lemma id_text_digits: "list_all is_digit (id_text i)"
  using show_nat_digits by (simp add: id_text_def show_int_def)

lemma parse_id_text:
  assumes "payload = hdr @ id_text i @ js" "-1 \<le> i" "i < 2 ^ 31"
  shows "parse_id payload (length hdr) (length hdr + length (id_text i)) = Inr i"
proof (cases "0 \<le> i")
  case True
  then have "id_text i = show_nat (nat i)" by (simp add: id_text_def show_int_def)
  moreover have "stoi (show_nat (nat i)) = Inr i"
    using stoi_show [of "nat i"] True assms(3) by simp
  ultimately show ?thesis
    using assms(1) show_nat_digits [of "nat i"] by (simp add: parse_id_def)
next
  case False
  with assms(2) have "i = -1" by simp
  then show ?thesis by (simp add: parse_id_def id_text_def)
qed

lemma find_from_at:
  assumes "payload = hdr @ xs @ y # ys" "\<forall>x\<in>set xs. \<not> P x" "P y"
  shows "find_from P payload (length hdr) = Some (length hdr + length xs)"
  using assms by (simp add: find_from_def find_idx_append)

lemma parse_nsp_plain:
  assumes pl: "payload = hdr @ id_text i @ c # r" and c: "c \<in> set ''{[\"''"
  shows "parse_nsp jparse payload p (length hdr) =
         parse_tail jparse payload (p\<lparr>pk_nsp := ''/''\<rparr>) (length hdr) (length hdr + length (id_text i))"
proof -
  have "\<forall>x\<in>set (id_text i). x \<notin> set ''{[\"/''"
    using id_text_digits [of i] by (auto simp: list_all_iff dest!: is_digit_plain)
  from find_from_at [where P = "\<lambda>c. c \<in> set ''{[\"/''", OF pl this] c
  have "find_from (\<lambda>c. c \<in> set ''{[\"/'') payload (length hdr) = Some (length hdr + length (id_text i))"
    by auto
  moreover have "payload ! (length hdr + length (id_text i)) = c"
    using pl by (simp add: nth_append)
  ultimately show ?thesis using c by (auto simp: parse_nsp_def)
qed

lemma parse_nsp_named:
  assumes pl: "payload = hdr @ nsp @ CHR '','' # id_text i @ c # r" and c: "c \<in> set ''{[\"''"
    and nsp: "nsp \<noteq> []" "hd nsp = CHR ''/''" "CHR '','' \<notin> set nsp" and hdr: "CHR '','' \<notin> set hdr"
  shows "parse_nsp jparse payload p (length hdr) =
         parse_tail jparse payload (p\<lparr>pk_nsp := nsp\<rparr>) (length (hdr @ nsp @ '',''))
           (length (hdr @ nsp @ '','') + length (id_text i))"
proof -
  obtain n where n: "nsp = CHR ''/'' # n" using nsp by (cases nsp) auto
  have a: "find_from (\<lambda>c. c \<in> set ''{[\"/'') payload (length hdr) = Some (length hdr)"
    using find_from_at [where P = "\<lambda>c. c \<in> set ''{[\"/''" and hdr = hdr and xs = "[]" and payload = payload] pl n
    by simp
  have b: "payload ! length hdr = CHR ''/''" using pl n by (simp add: nth_append)
  have "payload = [] @ (hdr @ nsp) @ CHR '','' # (id_text i @ c # r)" using pl by simp
  from find_from_at [where P = "\<lambda>c. c = CHR '',''", OF this] nsp(3) hdr
  have d: "find_from (\<lambda>c. c = CHR '','') payload 0 = Some (length hdr + length nsp)" by auto
  have pl2: "payload = (hdr @ nsp @ '','') @ id_text i @ c # r" using pl by simp
  have nod: "\<forall>x\<in>set (id_text i). x \<notin> set ''\"[{''"
    using id_text_digits [of i] by (auto simp: list_all_iff dest!: is_digit_plain)
  have "c \<in> set ''\"[{''" using c by auto
  from find_from_at [where P = "\<lambda>c. c \<in> set ''\"[{''", OF pl2 nod this]
  have e: "find_from (\<lambda>c. c \<in> set ''\"[{'') payload (length hdr + length nsp + 1) =
      Some (length (hdr @ nsp @ '','') + length (id_text i))" by simp
  have f: "take (length nsp) (drop (length hdr) payload) = nsp" using pl by simp
  show ?thesis unfolding parse_nsp_def a option.case b d Let_def e
    by (simp add: f)
qed

definition nsp_text :: "string \<Rightarrow> string" where
  "nsp_text nsp = (if nsp \<noteq> [] \<and> nsp \<noteq> ''/'' then nsp @ '','' else [])"

lemma takeWhile_all_not: "c \<notin> set s \<Longrightarrow> takeWhile (\<lambda>x. x \<noteq> c) s = s"
  by (induction s) auto

lemma parse_tail_read:
  assumes "payload = hdr @ id_text i @ jwrite j" "-1 \<le> i" "i < 2 ^ 31"
    and "json_text_ok jwrite jparse j" "pk_frame p = frame_message"
  shows "parse_tail jparse payload p (length hdr) (length hdr + length (id_text i)) =
    (if pk_type p = type_binary_event \<or> pk_type p = type_binary_ack
     then Inr (p\<lparr>pk_pack_id := i, pk_buffers := [jwrite j]\<rparr>, True)
     else bindR (from_json j []) (\<lambda>m. Inr (p\<lparr>pk_pack_id := i, pk_message := m\<rparr>, False)))"
proof -
  have "drop (length hdr + length (id_text i)) payload = jwrite j"
    using assms(1) by simp
  moreover have "jparse (cstr (jwrite j)) = j"
    using assms(4) by (simp add: json_text_ok_def cstr_def takeWhile_all_not)
  ultimately show ?thesis
    using parse_id_text [OF assms(1-3)] assms(5) by (simp add: parse_tail_def)
qed

lemma parse_nsp_read:
  assumes pl: "payload = hdr @ nsp_text nsp @ id_text i @ jwrite j" and i: "-1 \<le> i" "i < 2 ^ 31"
    and js: "json_text_ok jwrite jparse j" and fr: "pk_frame p = frame_message"
    and hdr: "CHR '','' \<notin> set hdr" and nsp: "nsp_ok nsp"
  shows "parse_nsp jparse payload p (length hdr) =
    (if pk_type p = type_binary_event \<or> pk_type p = type_binary_ack
     then Inr (p\<lparr>pk_nsp := nsp_read nsp, pk_pack_id := i, pk_buffers := [jwrite j]\<rparr>, True)
     else bindR (from_json j [])
       (\<lambda>m. Inr (p\<lparr>pk_nsp := nsp_read nsp, pk_pack_id := i, pk_message := m\<rparr>, False)))"
proof -
  from js obtain c r where c: "jwrite j = c # r" "c \<in> set ''{[\"''"
    by (cases "jwrite j") (auto simp: json_text_ok_def)
  show ?thesis
  proof (cases "nsp \<noteq> [] \<and> nsp \<noteq> ''/''")
    case False
    then have pl': "payload = hdr @ id_text i @ jwrite j" and rd: "nsp_read nsp = ''/''"
      using pl by (auto simp: nsp_text_def nsp_read_def)
    have pl'': "payload = hdr @ id_text i @ c # r" using pl' c(1) by simp
    have fr': "pk_frame (p\<lparr>pk_nsp := ''/''\<rparr>) = frame_message" using fr by simp
    show ?thesis
      unfolding parse_nsp_plain [OF pl'' c(2)] parse_tail_read [OF pl' i js fr'] rd by simp
  next
    case True
    then have pl': "payload = (hdr @ nsp @ '','') @ id_text i @ jwrite j" and rd: "nsp_read nsp = nsp"
      using pl by (auto simp: nsp_text_def nsp_read_def)
    have n: "nsp \<noteq> []" "hd nsp = CHR ''/''" "CHR '','' \<notin> set nsp"
      using True nsp by (auto simp: nsp_ok_def)
    have pl'': "payload = hdr @ nsp @ CHR '','' # id_text i @ c # r" using pl' c by simp
    have fr': "pk_frame (p\<lparr>pk_nsp := nsp\<rparr>) = frame_message" using fr by simp
    show ?thesis
      unfolding parse_nsp_named [OF pl'' c(2) n hdr] parse_tail_read [OF pl' i js fr'] rd by simp
  qed
qed

text \<open>Reading the buffers that follow a binary packet, each still with its leading byte 4.\<close>

lemma put_payload_buffer:
  assumes "is_binary_message b"
  shows "put_payload jparse b (Some q) =
    bindR (parse_buffer jparse q b) (\<lambda>(q', more). Inr (if more then (Some q', None) else (None, Some q')))"
  using assms by (auto simp: put_payload_def is_binary_message_def is_text_message_def)

lemma feed_buffers:
  assumes "list_all is_binary_message bufs" "bufs \<noteq> []"
    and "pk_pending q = length bufs" "pk_buffers q = txt # got"
    and "from_json (jparse (cstr txt)) (got @ bufs) = Inr m"
  shows "feed jparse bufs (Some q) = Inr (None, [q\<lparr>pk_pending := 0, pk_message := m, pk_buffers := []\<rparr>])"
  using assms
proof (induction bufs arbitrary: q got)
  case Nil
  then show ?case by simp
next
  case (Cons b bufs)
  show ?case
  proof (cases "bufs = []")
    case True
    with Cons.prems show ?thesis by (simp add: put_payload_buffer parse_buffer_def Let_def)
  next
    case False
    let ?q = "q\<lparr>pk_pending := length bufs, pk_buffers := txt # got @ [b]\<rparr>"
    have "feed jparse bufs (Some ?q) =
        Inr (None, [?q\<lparr>pk_pending := 0, pk_message := m, pk_buffers := []\<rparr>])"
      using Cons.prems False by (intro Cons.IH) auto
    with Cons.prems False show ?thesis by (simp add: put_payload_buffer parse_buffer_def Let_def)
  qed
qed

lemma final_type_message:
  "final_type ((if isAck then type_ack else type_event) OR type_undetermined) b =
   (if isAck then (if b then type_binary_ack else type_ack) else (if b then type_binary_event else type_event))"
  by (simp add: final_type_def Let_def)

lemma parse_count_read:
  assumes "payload = c1 # c2 # show_nat n @ CHR ''-'' # r" "c1 \<noteq> CHR ''-''" "c2 \<noteq> CHR ''-''" "n < 2 ^ 31"
  shows "parse_count payload = Inr (n, length (c1 # c2 # show_nat n @ ''-''))"
proof -
  have "payload = [] @ (c1 # c2 # show_nat n) @ CHR ''-'' # r" using assms(1) by simp
  moreover have "\<forall>x\<in>set (c1 # c2 # show_nat n). x \<noteq> CHR ''-''"
    using show_nat_digits [of n] assms(2,3) by (auto simp: list_all_iff dest: is_digit_plain)
  ultimately have "find_from (\<lambda>c. c = CHR ''-'') payload (length ([] :: string)) =
      Some (length ([] :: string) + length (c1 # c2 # show_nat n))"
    by (intro find_from_at) simp_all
  then have f: "find_from (\<lambda>c. c = CHR ''-'') payload 0 = Some (Suc (Suc (length (show_nat n))))" by simp
  have t: "take (length (show_nat n)) (drop 2 payload) = show_nat n" using assms(1) by simp
  have "stoul (show_nat n) = Inr n" using assms(4) by (intro stoul_show) simp
  then show ?thesis unfolding parse_count_def f using assms(4) t by simp
qed

definition event_text :: "(json \<Rightarrow> string) \<Rightarrow> string \<Rightarrow> int \<Rightarrow> bool \<Rightarrow> json \<Rightarrow> nat \<Rightarrow> string" where
  "event_text jwrite nsp i isAck j n =
     ''4'' @ show_int (if isAck then (if n > 0 then type_binary_ack else type_ack)
                     else (if n > 0 then type_binary_event else type_event)) @
     (if n > 0 then show_nat n @ ''-'' else []) @ nsp_text nsp @ id_text i @ jwrite j"

lemma show_int_types:
  "show_int 2 = ''2''" "show_int 3 = ''3''" "show_int 5 = ''5''" "show_int 6 = ''6''"
  by code_simp+

lemma pm_encode_event:
  assumes "message_packet nsp (Some m) i isAck = Inr p" "accept_message m [] = Inr (j, bufs)"
  shows "\<exists>p'. pm_encode jwrite p = Inr (p', (False, event_text jwrite nsp i isAck j (length bufs)) # map (Pair True) bufs)"
proof -
  from assms(1) have p: "p = empty_packet\<lparr>pk_frame := frame_message,
      pk_type := (if isAck then type_ack else type_event) OR type_undetermined,
      pk_nsp := nsp, pk_pack_id := i, pk_message := Some m\<rparr>"
    by (simp add: message_packet_def split: if_splits)
  have c: "char_of (52 :: nat) = CHR ''4''" by code_simp
  show ?thesis unfolding pm_encode_def accept_packet_def accept_doc_def
    by (simp add: c p assms(2) final_type_message accept_text_def event_text_def nsp_text_def id_text_def)
qed

lemma parse_event_text:
  assumes i: "-1 \<le> i" "i < 2 ^ 31" and js: "json_text_ok jwrite jparse j" and nsp: "nsp_ok nsp"
    and n: "n < 2 ^ 31"
  shows "put_payload jparse (event_text jwrite nsp i isAck j n) None =
    (if n > 0
     then Inr (Some (empty_packet\<lparr>pk_frame := frame_message,
            pk_type := (if isAck then type_binary_ack else type_binary_event), pk_pending := n,
            pk_nsp := nsp_read nsp, pk_pack_id := i, pk_buffers := [jwrite j]\<rparr>), None)
     else bindR (from_json j []) (\<lambda>m. Inr (None, Some (empty_packet\<lparr>pk_frame := frame_message,
            pk_type := (if isAck then type_ack else type_event),
            pk_nsp := nsp_read nsp, pk_pack_id := i, pk_message := m\<rparr>))))"
proof (cases "n > 0")
  case True
  define t where "t = (if isAck then CHR ''6'' else CHR ''5'')"
  let ?pl = "event_text jwrite nsp i isAck j n"
  have pl: "?pl = CHR ''4'' # t # show_nat n @ CHR ''-'' # nsp_text nsp @ id_text i @ jwrite j"
    using True by (simp add: event_text_def show_int_types t_def)
  then have plh: "?pl = (CHR ''4'' # t # show_nat n @ ''-'') @ nsp_text nsp @ id_text i @ jwrite j" by simp
  have hd: "CHR '','' \<notin> set (CHR ''4'' # t # show_nat n @ ''-'')"
    using show_nat_digits [of n] by (auto simp: list_all_iff t_def dest: is_digit_plain)
  have cnt: "parse_count ?pl = Inr (n, length (CHR ''4'' # t # show_nat n @ ''-''))"
    by (rule parse_count_read [OF pl]) (use n in \<open>auto simp: t_def\<close>)
  have c0: "char_at ?pl 0 = CHR ''4''" "char_at ?pl 1 = t" by (simp_all add: char_at_def pl)
  have tm: "is_text_message ?pl" "\<not> is_binary_message ?pl"
    by (simp_all add: is_text_message_def is_binary_message_def pl)
  have st: "schar (CHR ''4'') - 48 = frame_message" "schar t - 48 = (if isAck then 6 else 5)"
    by (simp_all add: schar_def t_def Let_def)
  define q where "q = empty_packet\<lparr>pk_frame := frame_message, pk_type := (if isAck then 6 else 5), pk_pending := n\<rparr>"
  have "pk_frame q = frame_message" by (simp add: q_def)
  note r = parse_nsp_read [OF plh i js this hd nsp]
  have "parse_packet jparse ?pl = parse_nsp jparse ?pl q (length (CHR ''4'' # t # show_nat n @ ''-''))"
    unfolding parse_packet_def c0 st Let_def cnt q_def using tm(2) by (cases isAck) simp_all
  then show ?thesis using tm True unfolding put_payload_def r by (simp add: q_def)
next
  case False
  define t where "t = (if isAck then CHR ''3'' else CHR ''2'')"
  let ?pl = "event_text jwrite nsp i isAck j n"
  have plh: "?pl = [CHR ''4'', t] @ nsp_text nsp @ id_text i @ jwrite j"
    using False by (simp add: event_text_def show_int_types t_def)
  have hd: "CHR '','' \<notin> set [CHR ''4'', t]" by (simp add: t_def)
  have c0: "char_at ?pl 0 = CHR ''4''" "char_at ?pl 1 = t" by (simp_all add: char_at_def plh)
  have tm: "is_text_message ?pl" "\<not> is_binary_message ?pl"
    by (simp_all add: is_text_message_def is_binary_message_def plh)
  have st: "schar (CHR ''4'') - 48 = frame_message" "schar t - 48 = (if isAck then 3 else 2)"
    by (simp_all add: schar_def t_def Let_def)
  define q where "q = empty_packet\<lparr>pk_frame := frame_message, pk_type := (if isAck then 3 else 2)\<rparr>"
  have "pk_frame q = frame_message" by (simp add: q_def)
  note r = parse_nsp_read [OF plh i js this hd nsp]
  have "parse_packet jparse ?pl = parse_nsp jparse ?pl q (length [CHR ''4'', t])"
    unfolding parse_packet_def c0 st using tm(2) by (simp add: q_def numeral_2_eq_2)
  then show ?thesis using tm False unfolding put_payload_def r by (simp add: q_def bindR_assoc)
qed

text \<open>C4. What \<open>packet_manager::encode\<close> sends for an event or an acknowledgement, \<open>put_payload\<close> reassembles:
  one packet, nothing left pending, with the namespace, id, type and message sent. The conditions: the id and the
  number of buffers are in range, the namespace has no separator, the JSON library reads back the text that it wrote,
  and each buffer, if there are any, begins with the byte 4 that \<open>is_binary_message\<close> asks for
  (others are not put back: \<open>raw_buffer_not_reassembled\<close>).\<close>

theorem packet_stream_roundtrip:
  assumes p: "message_packet nsp (Some m) i isAck = Inr p"
    and i: "-1 \<le> i" "i < 2 ^ 31" and nsp: "nsp_ok nsp" and m: "msg_ok m"
    and acc: "accept_message m [] = Inr (j, bufs)" and len: "length bufs < 2 ^ 31"
    and js: "json_text_ok jwrite jparse j" and bin: "list_all is_binary_message bufs"
  shows "\<exists>p' calls q. pm_encode jwrite p = Inr (p', calls) \<and>
    feed jparse (map snd calls) None = Inr (None, [q]) \<and>
    pk_frame q = frame_message \<and> pk_nsp q = nsp_read nsp \<and> pk_pack_id q = i \<and> pk_message q = Some m \<and>
    pk_type q = (if isAck then (if bufs \<noteq> [] then type_binary_ack else type_ack)
                 else (if bufs \<noteq> [] then type_binary_event else type_event))"
proof -
  from pm_encode_event [OF p acc] obtain p' where
    e: "pm_encode jwrite p = Inr (p', (False, event_text jwrite nsp i isAck j (length bufs)) # map (Pair True) bufs)" ..
  have bk: "from_json j bufs = Inr (Some m)" using accept_from_json_aux(1) [OF acc m len, of "[]"] by simp
  note put = parse_event_text [OF i js nsp len, of isAck]
  show ?thesis
  proof (cases "bufs = []")
    case True
    with put bk e show ?thesis by (auto simp: empty_packet_def)
  next
    case False
    have jp: "jparse (cstr (jwrite j)) = j"
      using js by (simp add: json_text_ok_def cstr_def takeWhile_all_not)
    let ?q = "empty_packet\<lparr>pk_frame := frame_message,
            pk_type := (if isAck then type_binary_ack else type_binary_event), pk_pending := length bufs,
            pk_nsp := nsp_read nsp, pk_pack_id := i, pk_buffers := [jwrite j]\<rparr>"
    have "feed jparse bufs (Some ?q) =
        Inr (None, [?q\<lparr>pk_pending := 0, pk_message := Some m, pk_buffers := []\<rparr>])"
      by (rule feed_buffers [OF bin False, of _ "jwrite j" "[]"]) (simp_all add: jp bk)
    with put False e show ?thesis by (auto simp: comp_def)
  qed
qed

theorem packet_stream_roundtrip_witness:
  "\<exists>p p' calls q. message_packet ''/a'' (Some (Array_msg [Some (String_msg ''e'')])) 7 False = Inr p \<and>
     pm_encode (\<lambda>_. ''[0]'') p = Inr (p', calls) \<and>
     feed (\<lambda>_. JArray [JString ''e'']) (map snd calls) None = Inr (None, [q]) \<and>
     pk_nsp q = ''/a'' \<and> pk_pack_id q = 7 \<and> pk_message q = Some (Array_msg [Some (String_msg ''e'')])"
proof -
  let ?m = "Array_msg [Some (String_msg ''e'')]"
  obtain p where p: "message_packet ''/a'' (Some ?m) 7 False = Inr p" by (simp add: message_packet_def)
  have "nsp_ok ''/a''" by (simp add: nsp_ok_def)
  moreover have "msg_ok ?m" by simp
  moreover have "accept_message ?m [] = Inr (JArray [JString ''e''], [])" by simp
  moreover have "json_text_ok (\<lambda>_. ''[0]'') (\<lambda>_. JArray [JString ''e'']) (JArray [JString ''e''])"
    by (simp add: json_text_ok_def)
  ultimately have "\<exists>p' calls q. pm_encode (\<lambda>_. ''[0]'') p = Inr (p', calls) \<and>
    feed (\<lambda>_. JArray [JString ''e'']) (map snd calls) None = Inr (None, [q]) \<and>
    pk_frame q = frame_message \<and> pk_nsp q = nsp_read ''/a'' \<and> pk_pack_id q = 7 \<and> pk_message q = Some ?m \<and>
    pk_type q = (if False then (if ([]::string list) \<noteq> [] then type_binary_ack else type_ack)
                 else (if ([]::string list) \<noteq> [] then type_binary_event else type_event))"
    by (intro packet_stream_roundtrip [OF p]) simp_all
  with p show ?thesis by (auto simp: nsp_read_def)
qed

text \<open>A buffer that does not start with the byte 4 (nor with the digit) is never added to the packet
  in assembly: it is parsed as a text frame of its own, and the binary packet stays incomplete.\<close>

theorem raw_buffer_not_reassembled:
  assumes "b \<noteq> []" "b ! 0 \<noteq> CHR 0x04" "b ! 0 \<noteq> CHR ''4''" "put_payload jparse b (Some q) = Inr (partial, out)"
  shows "partial = Some q"
  using assms
  by (auto simp: put_payload_def is_text_message_def is_binary_message_def res_simps)

end
