(* ===== verification/Socket.thy ===== *)
theory Socket
  imports PacketText Machine
begin

text \<open>
  \<open>sioclient/sio_socket.cpp\<close>: one namespace of the socket.io connection (\<open>socket::impl\<close>), with its
  packet queue, its pending acknowledgements, its listeners and its timer. A listener is a number that
  stands for a callable; \<open>None\<close> is the empty \<open>std::function\<close>. What an operation does outside of the
  socket is a list of effects in program order. The client is the object \<open>m_client\<close> points to; only
  whether the pointer is null is state here.
  The timer is asio's: a wait is called back once, with an error code if it was cancelled (by
  \<open>cancel\<close>, by a new expiry, or with the timer itself), and never from inside the call that cancels it.
\<close>

section \<open>State and effects\<close>

type_synonym listener = nat

datatype wait = Wait_timeout | Wait_close

record sio_event =
  ev_nsp :: string
  ev_name :: string
  ev_msgId :: int
  ev_messages :: "msg_ptr list"
  ev_need_ack :: bool

datatype sk_effect =
    Send packet
  | Socket_opened string
  | Socket_closed string
  | Remove_socket string
  | Call_event listener sio_event
  | Call_ack listener "msg_ptr list"
  | Call_error listener msg_ptr

text \<open>\<open>sk_posted\<close>: the wait handlers due to run, each with whether it gets an error code.\<close>

record socket =
  sk_client :: bool
  sk_connected :: bool
  sk_nsp :: string
  sk_auth :: msg_ptr
  sk_acks :: "(nat, listener) omap"
  sk_bindings :: "(string, listener option) omap"
  sk_any :: "listener option"
  sk_error :: "listener option"
  sk_timer :: "wait list option"
  sk_queue :: "packet list"
  sk_posted :: "(wait \<times> bool) list"

text \<open>Conversions between \<open>int\<close> and \<open>unsigned\<close>, both of 32 bits.\<close>

definition to_u32 :: "int \<Rightarrow> nat" where
  "to_u32 i = nat (i mod 2 ^ 32)"

definition to_i32 :: "nat \<Rightarrow> int" where
  "to_i32 n = (let m = int n mod 2 ^ 32 in if m \<ge> 2 ^ 31 then m - 2 ^ 32 else m)"

lemma to_i32_to_u32:
  assumes "-(2 ^ 31) \<le> i" "i < 2 ^ 31"
  shows "to_i32 (to_u32 i) = i"
proof -
  have m: "i mod 2 ^ 32 = (if 0 \<le> i then i else i + 2 ^ 32)"
  proof (cases "0 \<le> i")
    case True
    with assms show ?thesis by (simp add: mod_pos_pos_trivial)
  next
    case False
    with assms have "(i + 2 ^ 32) mod 2 ^ 32 = i + 2 ^ 32" by (intro mod_pos_pos_trivial) auto
    with False show ?thesis by simp
  qed
  have "int (to_u32 i) mod 2 ^ 32 = i mod 2 ^ 32" by (simp add: to_u32_def)
  with m assms show ?thesis unfolding to_i32_def Let_def by auto
qed

section \<open>Listeners\<close>

definition sk_on :: "string \<Rightarrow> listener option \<Rightarrow> socket \<Rightarrow> socket" where
  "sk_on event_name func s = s\<lparr>sk_bindings := mput event_name func (sk_bindings s)\<rparr>"

definition sk_on_any :: "listener option \<Rightarrow> socket \<Rightarrow> socket" where
  "sk_on_any func s = s\<lparr>sk_any := func\<rparr>"

definition sk_off :: "string \<Rightarrow> socket \<Rightarrow> socket" where
  "sk_off event_name s = s\<lparr>sk_bindings := mdel event_name (sk_bindings s)\<rparr>"

definition sk_off_all :: "socket \<Rightarrow> socket" where
  "sk_off_all s = s\<lparr>sk_bindings := []\<rparr>"

definition sk_on_error :: "listener option \<Rightarrow> socket \<Rightarrow> socket" where
  "sk_on_error l s = s\<lparr>sk_error := l\<rparr>"

definition sk_off_error :: "socket \<Rightarrow> socket" where
  "sk_off_error s = s\<lparr>sk_error := None\<rparr>"

definition get_bind_listener :: "string \<Rightarrow> socket \<Rightarrow> listener option" where
  "get_bind_listener event s = (case map_of (sk_bindings s) event of None \<Rightarrow> None | Some f \<Rightarrow> f)"

section \<open>The timer\<close>

definition cancel_waits :: "socket \<Rightarrow> socket" where
  "cancel_waits s =
     (case sk_timer s of None \<Rightarrow> s
      | Some ws \<Rightarrow> s\<lparr>sk_timer := Some [], sk_posted := sk_posted s @ map (\<lambda>w. (w, True)) ws\<rparr>)"

definition reset_timer :: "socket \<Rightarrow> socket" where
  "reset_timer s = (cancel_waits s)\<lparr>sk_timer := None\<rparr>"

definition start_wait :: "wait \<Rightarrow> socket \<Rightarrow> socket" where
  "start_wait w s = (cancel_waits s)\<lparr>sk_timer := Some [w]\<rparr>"

section \<open>Sending\<close>

definition send_connect :: "socket \<Rightarrow> sk_effect list \<times> socket" where
  "send_connect s =
     (if \<not> sk_client s then ([], s)
      else ([Send (typed_packet type_connect (sk_nsp s) (sk_auth s))], start_wait Wait_timeout (reset_timer s)))"

definition send_packet :: "packet \<Rightarrow> socket \<Rightarrow> sk_effect list \<times> socket" where
  "send_packet p s =
     (if \<not> sk_client s then ([], s)
      else if sk_connected s then (map Send (sk_queue s) @ [Send p], s\<lparr>sk_queue := []\<rparr>)
      else ([], s\<lparr>sk_queue := sk_queue s @ [p]\<rparr>))"

text \<open>The constructor. The client pointer is null only where the caller passes null.\<close>

definition new_socket :: "bool \<Rightarrow> bool \<Rightarrow> string \<Rightarrow> msg_ptr \<Rightarrow> sk_effect list \<times> socket" where
  "new_socket client opened nsp auth =
     (let s = \<lparr>sk_client = client, sk_connected = False, sk_nsp = nsp, sk_auth = auth, sk_acks = [],
               sk_bindings = [], sk_any = None, sk_error = None, sk_timer = None, sk_queue = [], sk_posted = []\<rparr>
      in if client \<and> opened then send_connect s else ([], s))"

text \<open>\<open>gid\<close> is the static counter \<open>s_global_event_id\<close> shared by all sockets.\<close>

definition sk_emit ::
  "string \<Rightarrow> msg_ptr list \<Rightarrow> listener option \<Rightarrow> 32 word \<Rightarrow> socket \<Rightarrow> (32 word \<times> sk_effect list \<times> socket) res" where
  "sk_emit name msglist ack gid s =
     (if \<not> sk_client s then Inr (gid, [], s)
      else let msg = Some (to_array_message_named name msglist);
               (pack_id, gid', s') =
                 (case ack of
                    None \<Rightarrow> (-1, gid, s)
                  | Some l \<Rightarrow> (sint gid, gid + 1, s\<lparr>sk_acks := mput (to_u32 (sint gid)) l (sk_acks s)\<rparr>))
           in bindR (message_packet (sk_nsp s) msg pack_id False) (\<lambda>p. Inr (gid', send_packet p s')))"

definition sk_ack :: "int \<Rightarrow> msg_ptr list \<Rightarrow> socket \<Rightarrow> (sk_effect list \<times> socket) res" where
  "sk_ack msgId ack_message s =
     bindR (message_packet (sk_nsp s) (Some (to_array_message ack_message)) msgId True)
       (\<lambda>p. Inr (send_packet p s))"

definition sk_close :: "socket \<Rightarrow> sk_effect list \<times> socket" where
  "sk_close s =
     (if \<not> sk_client s \<or> \<not> sk_connected s then ([], s)
      else let (out, s') = send_packet (typed_packet type_disconnect (sk_nsp s) None) s
           in (out, start_wait Wait_close s'))"

section \<open>What the client and the server report\<close>

definition sk_on_connected :: "socket \<Rightarrow> sk_effect list \<times> socket" where
  "sk_on_connected s =
     (let s' = reset_timer s
      in if sk_connected s' then ([], s')
         else (Socket_opened (sk_nsp s') # map Send (sk_queue s'), s'\<lparr>sk_connected := True, sk_queue := []\<rparr>))"

definition sk_on_close :: "socket \<Rightarrow> sk_effect list \<times> socket" where
  "sk_on_close s =
     (if \<not> sk_client s then ([], s)
      else ([Socket_closed (sk_nsp s), Remove_socket (sk_nsp s)],
            (reset_timer (s\<lparr>sk_client := False\<rparr>))\<lparr>sk_connected := False, sk_queue := []\<rparr>))"

definition sk_on_open :: "socket \<Rightarrow> sk_effect list \<times> socket" where
  "sk_on_open s = send_connect s"

definition sk_on_disconnect :: "socket \<Rightarrow> sk_effect list \<times> socket" where
  "sk_on_disconnect s =
     (if \<not> sk_client s then ([], s)
      else ([], if sk_connected s then s\<lparr>sk_connected := False, sk_queue := []\<rparr> else s))"

definition timeout_connection :: "bool \<Rightarrow> socket \<Rightarrow> sk_effect list \<times> socket" where
  "timeout_connection ec s =
     (if \<not> sk_client s \<or> ec then ([], s) else sk_on_close (reset_timer s))"

definition on_socketio_event :: "string \<Rightarrow> int \<Rightarrow> string \<Rightarrow> msg_ptr list \<Rightarrow> socket \<Rightarrow> sk_effect list" where
  "on_socketio_event nsp msgId name msgs s =
     (let ev = \<lparr>ev_nsp = nsp, ev_name = name, ev_msgId = msgId, ev_messages = msgs, ev_need_ack = (msgId \<ge> 0)\<rparr>
      in (case get_bind_listener name s of None \<Rightarrow> [] | Some f \<Rightarrow> [Call_event f ev]) @
         (case sk_any s of None \<Rightarrow> [] | Some f \<Rightarrow> [Call_event f ev]))"

definition on_socketio_ack :: "int \<Rightarrow> msg_ptr list \<Rightarrow> socket \<Rightarrow> sk_effect list \<times> socket" where
  "on_socketio_ack msgId msgs s =
     (case map_of (sk_acks s) (to_u32 msgId) of
        None \<Rightarrow> ([], s)
      | Some l \<Rightarrow> ([Call_ack l msgs], s\<lparr>sk_acks := mdel (to_u32 msgId) (sk_acks s)\<rparr>))"

definition on_socketio_error :: "msg_ptr \<Rightarrow> socket \<Rightarrow> sk_effect list" where
  "on_socketio_error err s = (case sk_error s of None \<Rightarrow> [] | Some l \<Rightarrow> [Call_error l err])"

definition on_event_packet :: "packet \<Rightarrow> socket \<Rightarrow> (sk_effect list \<times> socket) res" where
  "on_event_packet p s =
     bindR (deref (pk_message p)) (\<lambda>m.
       case m of
         Array_msg (x # xs) \<Rightarrow>
           bindR (deref x) (\<lambda>n.
             case n of
               String_msg name \<Rightarrow>
                 Inr (on_socketio_event (pk_nsp p) (to_i32 (to_u32 (pk_pack_id p))) name
                        (fold (\<lambda>x. mlist_push (Ptr x)) xs []) s, s)
             | _ \<Rightarrow> Inr ([], s))
       | _ \<Rightarrow> Inr ([], s))"

definition on_ack_packet :: "packet \<Rightarrow> socket \<Rightarrow> (sk_effect list \<times> socket) res" where
  "on_ack_packet p s =
     bindR (deref (pk_message p)) (\<lambda>m.
       Inr (on_socketio_ack (to_i32 (to_u32 (pk_pack_id p)))
              (case m of Array_msg v \<Rightarrow> v | _ \<Rightarrow> mlist_of (Ptr (Some m))) s))"

definition on_message_packet :: "packet \<Rightarrow> socket \<Rightarrow> (sk_effect list \<times> socket) res" where
  "on_message_packet p s =
     (if \<not> sk_client s \<or> pk_nsp p \<noteq> sk_nsp s then Inr ([], s)
      else bindR (get_type p) (\<lambda>t.
        if t = type_connect then Inr (sk_on_connected s)
        else if t = type_disconnect then Inr (sk_on_close s)
        else if t = type_event \<or> t = type_binary_event then on_event_packet p s
        else if t = type_ack \<or> t = type_binary_ack then on_ack_packet p s
        else if t = type_error then Inr (on_socketio_error (pk_message p) s, s)
        else Inr ([], s)))"

section \<open>The socket as a machine\<close>

text \<open>
  The calls a socket gets: from the program, from the client, and from the timer (\<open>Timer_fires\<close> makes
  its waits due, \<open>Run_handler\<close> runs the next one).
\<close>

datatype sk_call =
    C_on string "listener option" | C_on_any "listener option" | C_off string | C_off_all
  | C_on_error "listener option" | C_off_error
  | C_emit string "msg_ptr list" "listener option"
  | C_ack int "msg_ptr list"
  | C_close | C_on_open | C_on_close | C_on_disconnect
  | C_packet packet
  | Timer_fires
  | Run_handler

definition timer_fires :: "socket \<Rightarrow> socket" where
  "timer_fires s =
     (case sk_timer s of None \<Rightarrow> s
      | Some ws \<Rightarrow> s\<lparr>sk_timer := Some [], sk_posted := sk_posted s @ map (\<lambda>w. (w, False)) ws\<rparr>)"

definition run_handler :: "socket \<Rightarrow> sk_effect list \<times> socket" where
  "run_handler s =
     (case sk_posted s of [] \<Rightarrow> ([], s)
      | (w, ec) # rest \<Rightarrow>
          let s' = s\<lparr>sk_posted := rest\<rparr>
          in (case w of Wait_timeout \<Rightarrow> timeout_connection ec s' | Wait_close \<Rightarrow> sk_on_close s'))"

fun sk_step :: "sk_call \<Rightarrow> 32 word \<times> socket \<Rightarrow> (sk_effect list \<times> 32 word \<times> socket) res" where
  "sk_step (C_on n f) (g, s) = Inr ([], g, sk_on n f s)"
| "sk_step (C_on_any f) (g, s) = Inr ([], g, sk_on_any f s)"
| "sk_step (C_off n) (g, s) = Inr ([], g, sk_off n s)"
| "sk_step C_off_all (g, s) = Inr ([], g, sk_off_all s)"
| "sk_step (C_on_error l) (g, s) = Inr ([], g, sk_on_error l s)"
| "sk_step C_off_error (g, s) = Inr ([], g, sk_off_error s)"
| "sk_step (C_emit n ms a) (g, s) = bindR (sk_emit n ms a g s) (\<lambda>(g', out, s'). Inr (out, g', s'))"
| "sk_step (C_ack i ms) (g, s) = bindR (sk_ack i ms s) (\<lambda>(out, s'). Inr (out, g, s'))"
| "sk_step C_close (g, s) = (let (out, s') = sk_close s in Inr (out, g, s'))"
| "sk_step C_on_open (g, s) = (let (out, s') = sk_on_open s in Inr (out, g, s'))"
| "sk_step C_on_close (g, s) = (let (out, s') = sk_on_close s in Inr (out, g, s'))"
| "sk_step C_on_disconnect (g, s) = (let (out, s') = sk_on_disconnect s in Inr (out, g, s'))"
| "sk_step (C_packet p) (g, s) = bindR (on_message_packet p s) (\<lambda>(out, s'). Inr (out, g, s'))"
| "sk_step Timer_fires (g, s) = Inr ([], g, timer_fires s)"
| "sk_step Run_handler (g, s) = (let (out, s') = run_handler s in Inr (out, g, s'))"

section \<open>Invariant\<close>

text \<open>
  A connected socket has a client and nothing queued; only events and acknowledgements are ever queued.
\<close>

definition event_or_ack :: "packet \<Rightarrow> bool" where
  "event_or_ack p = (pk_type p = 18 \<or> pk_type p = 19)"

definition sk_inv :: "32 word \<times> socket \<Rightarrow> bool" where
  "sk_inv w = (let s = snd w in (sk_connected s \<longrightarrow> sk_client s \<and> sk_queue s = []) \<and>
     list_all event_or_ack (sk_queue s) \<and> omap_ok (sk_acks s) \<and> omap_ok (sk_bindings s))"

lemma cancel_waits_fields [simp]:
  "sk_client (cancel_waits s) = sk_client s" "sk_connected (cancel_waits s) = sk_connected s"
  "sk_nsp (cancel_waits s) = sk_nsp s" "sk_acks (cancel_waits s) = sk_acks s"
  "sk_bindings (cancel_waits s) = sk_bindings s" "sk_queue (cancel_waits s) = sk_queue s"
  "sk_any (cancel_waits s) = sk_any s" "sk_error (cancel_waits s) = sk_error s"
  by (simp_all add: cancel_waits_def split: option.splits)

lemma reset_timer_fields [simp]:
  "sk_client (reset_timer s) = sk_client s" "sk_connected (reset_timer s) = sk_connected s"
  "sk_nsp (reset_timer s) = sk_nsp s" "sk_acks (reset_timer s) = sk_acks s"
  "sk_bindings (reset_timer s) = sk_bindings s" "sk_queue (reset_timer s) = sk_queue s"
  "sk_any (reset_timer s) = sk_any s" "sk_error (reset_timer s) = sk_error s"
  by (simp_all add: reset_timer_def)

lemma start_wait_fields [simp]:
  "sk_client (start_wait w s) = sk_client s" "sk_connected (start_wait w s) = sk_connected s"
  "sk_nsp (start_wait w s) = sk_nsp s" "sk_acks (start_wait w s) = sk_acks s"
  "sk_bindings (start_wait w s) = sk_bindings s" "sk_queue (start_wait w s) = sk_queue s"
  by (simp_all add: start_wait_def)

lemma timer_fires_fields [simp]:
  "sk_client (timer_fires s) = sk_client s" "sk_connected (timer_fires s) = sk_connected s"
  "sk_acks (timer_fires s) = sk_acks s" "sk_bindings (timer_fires s) = sk_bindings s"
  "sk_queue (timer_fires s) = sk_queue s"
  by (simp_all add: timer_fires_def split: option.splits)

lemma message_packet_type:
  "message_packet nsp m i a = Inr p \<Longrightarrow> event_or_ack p \<and> pk_message p = m"
  by (auto simp: message_packet_def event_or_ack_def split: if_splits)

lemmas socket_ops = sk_on_def sk_on_any_def sk_off_def sk_off_all_def sk_on_error_def sk_off_error_def
  send_connect_def send_packet_def sk_close_def sk_on_connected_def sk_on_close_def sk_on_open_def
  sk_on_disconnect_def timeout_connection_def on_socketio_ack_def Let_def

lemma run_handler_cases:
  "run_handler s = ([], s) \<or>
   (\<exists>s'. sk_client s' = sk_client s \<and> sk_connected s' = sk_connected s \<and> sk_queue s' = sk_queue s \<and>
      sk_acks s' = sk_acks s \<and> sk_bindings s' = sk_bindings s \<and>
      (run_handler s = ([], s') \<or> run_handler s = sk_on_close s'))"
proof (cases "sk_posted s")
  case Nil
  then show ?thesis by (simp add: run_handler_def)
next
  case (Cons x rest)
  obtain w ec where x: "x = (w, ec)" by (cases x)
  let ?s = "s\<lparr>sk_posted := rest\<rparr>"
  have f: "sk_client ?s = sk_client s \<and> sk_connected ?s = sk_connected s \<and> sk_queue ?s = sk_queue s \<and>
      sk_acks ?s = sk_acks s \<and> sk_bindings ?s = sk_bindings s" by simp
  have g: "sk_client (reset_timer ?s) = sk_client s \<and> sk_connected (reset_timer ?s) = sk_connected s \<and>
      sk_queue (reset_timer ?s) = sk_queue s \<and> sk_acks (reset_timer ?s) = sk_acks s \<and>
      sk_bindings (reset_timer ?s) = sk_bindings s" by simp
  have "run_handler s = ([], ?s) \<or> run_handler s = sk_on_close ?s \<or> run_handler s = sk_on_close (reset_timer ?s)"
    by (cases w) (auto simp: run_handler_def Cons x timeout_connection_def Let_def)
  with f g show ?thesis by blast
qed

lemma packet_step_cases:
  assumes "on_message_packet p s = Inr (out, s')"
  shows "s' = s \<and> (\<forall>e\<in>set out. \<exists>l ev m. e = Call_event l ev \<or> e = Call_error l m) \<or>
    (sk_client s \<and> (out, s') = sk_on_connected s) \<or> (sk_client s \<and> (out, s') = sk_on_close s) \<or>
    (\<exists>i ms. sk_client s \<and> (out, s') = on_socketio_ack i ms s)"
proof -
  have ev: "\<forall>e\<in>set (on_socketio_event a b c d s). \<exists>l ev m. e = Call_event l ev \<or> e = Call_error l m" for a b c d
    by (auto simp: on_socketio_event_def Let_def split: option.splits)
  have er: "\<forall>e\<in>set (on_socketio_error m s). \<exists>l ev m. e = Call_event l ev \<or> e = Call_error l m" for m
    by (auto simp: on_socketio_error_def split: option.splits)
  have evp: "s' = s \<and> (\<forall>e\<in>set out. \<exists>l ev m. e = Call_event l ev \<or> e = Call_error l m)"
    if that: "on_event_packet p s = Inr (out, s')"
  proof -
    from that obtain m where m: "pk_message p = Some m"
      by (cases "pk_message p") (simp_all add: on_event_packet_def)
    have "s' = s \<and> (out = [] \<or> (\<exists>a b c d. out = on_socketio_event a b c d s))"
    proof (cases "\<exists>x xs. m = Array_msg (x # xs)")
      case False
      with that m show ?thesis
        by (cases m) (simp_all add: on_event_packet_def split: list.split_asm)
    next
      case True
      then obtain x xs where x: "m = Array_msg (x # xs)" by blast
      from that m x obtain n where n: "x = Some n" by (cases x) (simp_all add: on_event_packet_def)
      show ?thesis using that m x n by (cases n) (auto simp: on_event_packet_def)
    qed
    with ev show ?thesis by auto
  qed
  have ackp: "\<exists>i ms. (out, s') = on_socketio_ack i ms s" if "on_ack_packet p s = Inr (out, s')"
  proof -
    from that obtain m where "on_socketio_ack (to_i32 (to_u32 (pk_pack_id p)))
        (case m of Array_msg v \<Rightarrow> v | _ \<Rightarrow> mlist_of (Ptr (Some m))) s = (out, s')"
      by (cases "pk_message p") (auto simp: on_ack_packet_def)
    then show ?thesis by metis
  qed
  show ?thesis
    using assms evp ackp er by (auto simp: on_message_packet_def res_simps split: if_splits)
qed

lemma sk_emit_cases:
  assumes "sk_emit n ms a g s = Inr (g', out, s')"
  shows "(\<not> sk_client s \<and> g' = g \<and> out = [] \<and> s' = s) \<or>
    (\<exists>p s1. sk_client s \<and> event_or_ack p \<and> pk_message p = Some (to_array_message_named n ms) \<and>
       (case a of None \<Rightarrow> s1 = s
        | Some l \<Rightarrow> s1 = s\<lparr>sk_acks := mput (to_u32 (sint g)) l (sk_acks s)\<rparr>) \<and> (out, s') = send_packet p s1)"
proof (cases "sk_client s")
  case False
  with assms show ?thesis by (simp add: sk_emit_def)
next
  case True
  show ?thesis
  proof (cases a)
    case None
    with True assms obtain p where
      p: "message_packet (sk_nsp s) (Some (to_array_message_named n ms)) (-1) False = Inr p"
      "send_packet p s = (out, s')"
      by (auto simp: sk_emit_def res_simps)
    from message_packet_type [OF p(1)] p(2) True None show ?thesis by auto
  next
    case (Some l)
    let ?s = "s\<lparr>sk_acks := mput (to_u32 (sint g)) l (sk_acks s)\<rparr>"
    from Some True assms obtain p where
      p: "message_packet (sk_nsp s) (Some (to_array_message_named n ms)) (sint g) False = Inr p"
      "send_packet p ?s = (out, s')"
      by (auto simp: sk_emit_def res_simps)
    from message_packet_type [OF p(1)] p(2) True Some show ?thesis by auto
  qed
qed

lemma sk_ack_cases:
  assumes "sk_ack i ms s = Inr (out, s')"
  shows "\<exists>p. event_or_ack p \<and> pk_message p = Some (to_array_message ms) \<and> (out, s') = send_packet p s"
  using assms message_packet_type by (fastforce simp: sk_ack_def res_simps)

lemma sk_step_inv:
  assumes "sk_inv w" "sk_step c w = Inr (out, w')"
  shows "sk_inv w'"
proof -
  obtain g s where w: "w = (g, s)" by (cases w)
  obtain g' s' where w': "w' = (g', s')" by (cases w')
  have ops: "sk_inv (g, t) \<Longrightarrow> sk_inv (h, snd (sk_on_close t))" for h t
    by (auto simp: sk_inv_def socket_ops)
  have sp: "sk_inv (g, t) \<Longrightarrow> event_or_ack p \<Longrightarrow> sk_inv (h, snd (send_packet p t))" for h t p
    by (auto simp: sk_inv_def socket_ops)
  have oc: "sk_inv (g, t) \<Longrightarrow> sk_client t \<Longrightarrow> sk_inv (h, snd (sk_on_connected t))" for h t
    by (auto simp: sk_inv_def socket_ops)
  show ?thesis
  proof (cases c)
    case (C_emit n ms a)
    then have e: "sk_emit n ms a g s = Inr (g', out, s')"
      using assms(2) by (auto simp: w w' res_simps)
    have "sk_inv (g, s\<lparr>sk_acks := mput k l (sk_acks s)\<rparr>)" for k l
      using assms(1) by (simp add: w sk_inv_def Let_def)
    moreover have "sk_inv (g', s)" using assms(1) by (simp add: w sk_inv_def)
    ultimately have i: "sk_inv (g, s1)" if "case a of None \<Rightarrow> s1 = s
        | Some l \<Rightarrow> s1 = s\<lparr>sk_acks := mput (to_u32 (sint g)) l (sk_acks s)\<rparr>" for s1
      using that assms(1) by (auto simp: w split: option.splits)
    from sk_emit_cases [OF e] show ?thesis
    proof (elim disjE exE conjE)
      fix p s1 assume "event_or_ack p" "(out, s') = send_packet p s1"
        "case a of None \<Rightarrow> s1 = s | Some l \<Rightarrow> s1 = s\<lparr>sk_acks := mput (to_u32 (sint g)) l (sk_acks s)\<rparr>"
      with i sp [of s1 p g'] show ?thesis by (simp add: w') (metis snd_conv)
    qed (use assms(1) in \<open>simp add: w w' sk_inv_def\<close>)
  next
    case (C_ack i ms)
    then have "sk_ack i ms s = Inr (out, s')" using assms(2) by (auto simp: w w' res_simps)
    from sk_ack_cases [OF this] sp assms(1) show ?thesis by (auto simp: w w') (metis snd_conv)
  next
    case (C_packet p)
    then have "on_message_packet p s = Inr (out, s')" using assms(2) by (auto simp: w w' res_simps)
    from packet_step_cases [OF this] show ?thesis
    proof (elim disjE exE conjE)
      assume "sk_client s" "(out, s') = sk_on_connected s"
      moreover have "sk_inv (g, s)" using assms(1) by (simp add: w)
      ultimately show ?thesis using oc [of s g'] by (simp add: w') (metis snd_conv)
    next
      assume "(out, s') = sk_on_close s"
      moreover have "sk_inv (g, s)" using assms(1) by (simp add: w)
      ultimately show ?thesis using ops [of s g'] by (simp add: w') (metis snd_conv)
    next
      fix i m assume "(out, s') = on_socketio_ack i m s"
      then show ?thesis using assms(1)
        by (auto simp: w w' sk_inv_def Let_def on_socketio_ack_def split: option.splits)
    qed (use assms(1) in \<open>simp add: w w' sk_inv_def\<close>)
  next
    case Run_handler
    then have r: "run_handler s = (out, s')" using assms(2) by (auto simp: w w' split: prod.splits)
    from run_handler_cases [of s] show ?thesis
    proof (elim disjE exE conjE)
      fix t assume t: "sk_client t = sk_client s" "sk_connected t = sk_connected s" "sk_queue t = sk_queue s"
        "sk_acks t = sk_acks s" "sk_bindings t = sk_bindings s" "run_handler s = sk_on_close t"
      have "sk_inv (g, t)" using assms(1) t by (simp add: w sk_inv_def)
      from ops [OF this, of g'] have "sk_inv (g', snd (run_handler s))" by (simp only: t(6))
      then show ?thesis by (simp add: w' r)
    qed (use assms(1) r in \<open>auto simp: w w' sk_inv_def\<close>)
  qed (use assms in \<open>auto simp: w w' sk_inv_def socket_ops split: if_splits prod.splits\<close>)
qed

section \<open>Order, acknowledgements, and the closed socket\<close>

text \<open>The messages of the program among the effects, and what a call hands over.\<close>

definition user_messages :: "sk_effect list \<Rightarrow> msg_ptr list" where
  "user_messages out = map pk_message (filter event_or_ack (concat (map (\<lambda>e. case e of Send p \<Rightarrow> [p] | _ \<Rightarrow> []) out)))"

fun submitted :: "sk_call \<Rightarrow> msg_ptr list" where
  "submitted (C_emit n ms a) = [Some (to_array_message_named n ms)]"
| "submitted (C_ack i ms) = [Some (to_array_message ms)]"
| "submitted _ = []"

lemma user_messages_append: "user_messages (xs @ ys) = user_messages xs @ user_messages ys"
  by (simp add: user_messages_def)

lemma user_messages_simps [simp]:
  "user_messages [] = []" "user_messages (Socket_opened n # xs) = user_messages xs"
  "user_messages (Send p # xs) = (if event_or_ack p then [pk_message p] else []) @ user_messages xs"
  by (simp_all add: user_messages_def)

lemma user_messages_queue: "list_all event_or_ack q \<Longrightarrow> user_messages (map Send q) = map pk_message q"
  by (induction q) simp_all

lemma user_messages_calls:
  "\<forall>e\<in>set out. \<exists>l ev m. e = Call_event l ev \<or> e = Call_error l m \<Longrightarrow> user_messages out = []"
  by (induction out) (auto simp: user_messages_def)

lemma send_packet_order:
  assumes "sk_client s" "list_all event_or_ack (sk_queue s)" "event_or_ack p" "send_packet p s = (out, s')"
  shows "user_messages out @ map pk_message (sk_queue s') = map pk_message (sk_queue s) @ [pk_message p]"
  using assms by (auto simp: send_packet_def user_messages_append user_messages_queue split: if_splits)

lemma on_close_dead: "\<not> sk_client (snd (sk_on_close s))"
  by (simp add: sk_on_close_def)

lemma typed_not_event: "\<not> event_or_ack (typed_packet type_connect n m)" "\<not> event_or_ack (typed_packet type_disconnect n m)"
  by (simp_all add: event_or_ack_def typed_packet_def)

lemma send_packet_client [simp]: "sk_client (snd (send_packet p s)) = sk_client s"
  by (simp add: send_packet_def)

lemma sk_step_alive:
  assumes "sk_step c w = Inr (out, w')" "sk_client (snd w')"
  shows "sk_client (snd w)"
proof (rule ccontr)
  assume d: "\<not> sk_client (snd w)"
  obtain g s where w: "w = (g, s)" by (cases w)
  obtain g' s' where w': "w' = (g', s')" by (cases w')
  show False
  proof (cases c)
    case (C_emit n ms a)
    with assms d show False by (auto simp: w w' res_simps sk_emit_def)
  next
    case (C_ack i ms)
    with assms(1) have "sk_ack i ms s = Inr (out, s')" by (auto simp: w w' res_simps)
    from sk_ack_cases [OF this] d assms(2) show False by (auto simp: w w') (metis send_packet_client snd_conv)
  next
    case (C_packet p)
    with assms d show False by (auto simp: w w' res_simps on_message_packet_def)
  next
    case Run_handler
    with assms(1) have r: "run_handler s = (out, s')" by (auto simp: w w' split: prod.splits)
    from run_handler_cases [of s] d assms(2) r on_close_dead show False
      by (auto simp: w w' sk_on_close_def)
  qed (use assms d in \<open>auto simp: w w' socket_ops split: if_splits prod.splits\<close>)
qed

lemma sk_step_order:
  assumes inv: "sk_inv w" and st: "sk_step c w = Inr (out, w')" and al: "sk_client (snd w')"
  shows "user_messages out @ map pk_message (sk_queue (snd w')) = map pk_message (sk_queue (snd w)) @ submitted c"
proof -
  have al0: "sk_client (snd w)" using st al by (rule sk_step_alive)
  obtain g s where w: "w = (g, s)" by (cases w)
  obtain g' s' where w': "w' = (g', s')" by (cases w')
  have q: "list_all event_or_ack (sk_queue s)" and empty: "sk_connected s \<Longrightarrow> sk_queue s = []"
    using inv by (simp_all add: w sk_inv_def Let_def)
  have oc: "user_messages (fst (sk_on_connected s)) @ map pk_message (sk_queue (snd (sk_on_connected s))) =
      map pk_message (sk_queue s)"
    using q by (auto simp: socket_ops user_messages_queue)
  show ?thesis
  proof (cases c)
    case (C_emit n ms a)
    then have e: "sk_emit n ms a g s = Inr (g', out, s')"
      using st by (auto simp: w w' res_simps)
    from sk_emit_cases [OF e] obtain p s1 where
      p: "event_or_ack p" "pk_message p = Some (to_array_message_named n ms)" "(out, s') = send_packet p s1"
      "case a of None \<Rightarrow> s1 = s | Some l \<Rightarrow> s1 = s\<lparr>sk_acks := mput (to_u32 (sint g)) l (sk_acks s)\<rparr>"
      using al0 by (auto simp: w)
    have "sk_queue s1 = sk_queue s \<and> sk_client s1 = sk_client s" using p(4) by (cases a) auto
    with send_packet_order [of s1 p out s'] p(1-3) al0 q show ?thesis by (simp add: w w' C_emit)
  next
    case (C_ack i ms)
    with st have "sk_ack i ms s = Inr (out, s')" by (auto simp: w w' res_simps)
    from sk_ack_cases [OF this] obtain p where
      "event_or_ack p" "pk_message p = Some (to_array_message ms)" "(out, s') = send_packet p s" by blast
    with send_packet_order [of s p out s'] al0 q show ?thesis by (simp add: w w' C_ack)
  next
    case (C_packet p)
    with st have "on_message_packet p s = Inr (out, s')" by (auto simp: w w' res_simps)
    from packet_step_cases [OF this] show ?thesis
    proof (elim disjE exE conjE)
      assume "s' = s" "\<forall>e\<in>set out. \<exists>l ev m. e = Call_event l ev \<or> e = Call_error l m"
      then show ?thesis by (simp add: w w' C_packet user_messages_calls)
    next
      assume "(out, s') = sk_on_connected s"
      with oc show ?thesis by (simp add: w w' C_packet) (metis fst_conv snd_conv)
    next
      assume "(out, s') = sk_on_close s"
      with on_close_dead [of s] al show ?thesis by (simp add: w') (metis snd_conv)
    next
      fix i m assume "(out, s') = on_socketio_ack i m s"
      then show ?thesis
        by (auto simp: w w' C_packet on_socketio_ack_def user_messages_def split: option.splits)
    qed
  next
    case Run_handler
    then have r: "run_handler s = (out, s')" using st by (auto simp: w w' split: prod.splits)
    from run_handler_cases [of s] r al on_close_dead show ?thesis
      by (auto simp: w w' Run_handler) (metis snd_conv)+
  next
    case C_close
    with st al0 q show ?thesis
      by (auto simp: w w' socket_ops user_messages_append user_messages_queue typed_not_event split: if_splits)
  next
    case C_on_close
    with st al al0 show ?thesis by (auto simp: w w' sk_on_close_def)
  qed (use st al0 empty q in \<open>auto simp: w w' socket_ops typed_not_event split: if_splits\<close>)
qed

interpretation sk_fifo: fifo_machine sk_step sk_inv user_messages
  "\<lambda>w. map pk_message (sk_queue (snd w))" submitted "\<lambda>c. True" "\<lambda>w. sk_client (snd w)"
  by unfold_locales (auto simp: user_messages_append intro: sk_step_inv sk_step_order sk_step_alive)

text \<open>C6. Along any sequence of calls, each of which returns before the next begins, at whose end the socket still has its
  client, what was sent to the server followed by what is queued is what was queued followed by what the program
  emitted and acknowledged: no message is lost, duplicated or reordered.\<close>

theorem socket_fifo:
  assumes "sk_inv (g, s)" "run_calls sk_step cs (g, s) = Inr (out, g', s')" "sk_client s'"
  shows "user_messages out @ map pk_message (sk_queue s') =
    map pk_message (sk_queue s) @ concat (map submitted cs)"
proof -
  have "list_all (\<lambda>c. True) cs" by (simp add: list_all_iff)
  from sk_fifo.run_fifo [OF assms(1,2) this] assms(3) show ?thesis by simp
qed

lemma sk_inv_new: "sk_inv (g, snd (new_socket c op n a))"
  by (auto simp: sk_inv_def new_socket_def send_connect_def Let_def)

theorem socket_fifo_witness:
  "\<exists>out g' s'. run_calls sk_step
       [C_emit ''a'' [] None, C_on_disconnect, C_emit ''b'' [] None, C_packet (typed_packet type_connect ''/'' None), C_emit ''c'' [] None]
       (1, snd (new_socket True True ''/'' None)) = Inr (out, g', s') \<and>
     user_messages out = [Some (to_array_message_named ''a'' []), Some (to_array_message_named ''b'' []),
        Some (to_array_message_named ''c'' [])]"
proof -
  let ?cs = "[C_emit ''a'' [] None, C_on_disconnect, C_emit ''b'' [] None, C_packet (typed_packet type_connect ''/'' None), C_emit ''c'' [] None]"
  let ?s = "snd (new_socket True True ''/'' None)"
  let ?r = "run_calls sk_step ?cs (1, ?s)"
  have "\<exists>out g' s'. ?r = Inr (out, g', s') \<and> sk_client s' \<and> sk_queue s' = []"
    by (simp add: new_socket_def send_connect_def sk_emit_def message_packet_def send_packet_def
        on_message_packet_def typed_packet_def get_type_def sk_on_connected_def start_wait_def reset_timer_def
        cancel_waits_def empty_packet_def sk_on_disconnect_def)
  then obtain out g' s' where r: "?r = Inr (out, g', s')" "sk_client s'" "sk_queue s' = []" by blast
  from socket_fifo [OF sk_inv_new r(1,2)] r(3) have "user_messages out = map pk_message (sk_queue ?s) @ concat (map submitted ?cs)"
    by simp
  moreover have "sk_queue ?s = []" by (simp add: new_socket_def send_connect_def)
  ultimately show ?thesis using r(1) by auto
qed

definition ack_calls :: "listener \<Rightarrow> sk_effect list \<Rightarrow> nat" where
  "ack_calls l out = length (filter (\<lambda>e. case e of Call_ack l' _ \<Rightarrow> l' = l | _ \<Rightarrow> False) out)"

definition ack_waiting :: "listener \<Rightarrow> socket \<Rightarrow> nat" where
  "ack_waiting l s = length (filter (\<lambda>p. snd p = l) (sk_acks s))"

definition ack_registers :: "listener \<Rightarrow> sk_call \<Rightarrow> nat" where
  "ack_registers l c = (case c of C_emit _ _ (Some l') \<Rightarrow> if l' = l then 1 else 0 | _ \<Rightarrow> 0)"

lemma count_mput:
  "length (filter (\<lambda>p. snd p = l) (mput k l' m)) \<le> length (filter (\<lambda>p. snd p = l) m) + (if l' = l then 1 else 0)"
  by (induction k l' m rule: mput.induct) auto

lemma count_mdel:
  "map_of m k = Some l' \<Longrightarrow>
     length (filter (\<lambda>p. snd p = l) (mdel k m)) + (if l' = l then 1 else 0) \<le> length (filter (\<lambda>p. snd p = l) m)"
proof (induction m)
  case Nil
  then show ?case by simp
next
  case (Cons x m)
  have le: "length (filter (\<lambda>p. snd p = l) (mdel k m)) \<le> length (filter (\<lambda>p. snd p = l) m)"
    unfolding mdel_def by (induction m) auto
  show ?case
  proof (cases "fst x = k")
    case True
    with Cons.prems have "snd x = l'" by (cases x) auto
    with True le show ?thesis by (auto simp: mdel_def)
  next
    case False
    with Cons.prems have "map_of m k = Some l'" by (cases x) auto
    with Cons.IH False show ?thesis by (auto simp: mdel_def)
  qed
qed

lemma ack_calls_simps [simp]:
  "ack_calls l [] = 0" "ack_calls l (xs @ ys) = ack_calls l xs + ack_calls l ys"
  "ack_calls l (map Send q) = 0" "ack_calls l (Send p # xs) = ack_calls l xs"
  "ack_calls l (Socket_opened n # xs) = ack_calls l xs" "ack_calls l (Socket_closed n # xs) = ack_calls l xs"
  "ack_calls l (Remove_socket n # xs) = ack_calls l xs"
  "ack_calls l (Call_ack l' v # xs) = (if l' = l then 1 else 0) + ack_calls l xs"
  by (simp_all add: ack_calls_def filter_empty_conv)

lemma ack_calls_events: "\<forall>e\<in>set out. \<exists>f ev m. e = Call_event f ev \<or> e = Call_error f m \<Longrightarrow> ack_calls l out = 0"
  by (auto simp: ack_calls_def filter_empty_conv)

lemma ack_calls_ops [simp]:
  "ack_calls l (fst (send_packet p s)) = 0" "ack_calls l (fst (sk_on_connected s)) = 0"
  "ack_calls l (fst (sk_on_close s)) = 0" "ack_calls l (fst (send_connect s)) = 0"
  "ack_calls l (fst (sk_close s)) = 0" "ack_calls l (fst (sk_on_disconnect s)) = 0"
  by (simp_all add: socket_ops split: prod.splits)

lemma ack_waiting_ops [simp]:
  "ack_waiting l (snd (send_packet p s)) = ack_waiting l s" "ack_waiting l (snd (sk_on_connected s)) = ack_waiting l s"
  "ack_waiting l (snd (sk_on_close s)) = ack_waiting l s" "ack_waiting l (snd (send_connect s)) = ack_waiting l s"
  "ack_waiting l (snd (sk_close s)) = ack_waiting l s" "ack_waiting l (snd (sk_on_disconnect s)) = ack_waiting l s"
  "ack_waiting l (timer_fires s) = ack_waiting l s"
  by (simp_all add: socket_ops ack_waiting_def split: prod.splits)

lemma pair_eq_fst_snd: "(a, b) = x \<longleftrightarrow> a = fst x \<and> b = snd x"
  by (cases x) auto

lemma sk_step_acks:
  assumes st: "sk_step c w = Inr (out, w')"
  shows "ack_calls l out + ack_waiting l (snd w') \<le> ack_waiting l (snd w) + ack_registers l c"
proof -
  obtain g s where w: "w = (g, s)" by (cases w)
  obtain g' s' where w': "w' = (g', s')" by (cases w')
  show ?thesis
  proof (cases c)
    case (C_emit n ms a)
    then have e: "sk_emit n ms a g s = Inr (g', out, s')"
      using st by (auto simp: w w' res_simps)
    have le: "ack_waiting l (s\<lparr>sk_acks := mput k l' (sk_acks s)\<rparr>) \<le> ack_waiting l s + (if l' = l then 1 else 0)" for k l'
      unfolding ack_waiting_def using count_mput [of l k l' "sk_acks s"] by simp
    show ?thesis
    proof (cases a)
      case None
      with sk_emit_cases [OF e] show ?thesis by (auto simp: w w' C_emit ack_registers_def pair_eq_fst_snd)
    next
      case (Some l')
      with sk_emit_cases [OF e] le [of "to_u32 (sint g)" l'] show ?thesis
        by (auto simp: w w' C_emit ack_registers_def pair_eq_fst_snd split: if_splits)
    qed
  next
    case (C_ack i ms)
    with st have "sk_ack i ms s = Inr (out, s')" by (auto simp: w w' res_simps)
    from sk_ack_cases [OF this] show ?thesis by (auto simp: w w' C_ack pair_eq_fst_snd)
  next
    case (C_packet p)
    with st have "on_message_packet p s = Inr (out, s')" by (auto simp: w w' res_simps)
    from packet_step_cases [OF this] show ?thesis
    proof (elim disjE exE conjE)
      fix i m assume "(out, s') = on_socketio_ack i m s"
      then show ?thesis
      proof (cases "map_of (sk_acks s) (to_u32 i)")
        case None
        with \<open>(out, s') = _\<close> show ?thesis by (simp add: w w' on_socketio_ack_def)
      next
        case (Some l')
        with \<open>(out, s') = _\<close> count_mdel [OF Some, of l] show ?thesis
          by (auto simp: w w' on_socketio_ack_def ack_waiting_def)
      qed
    qed (auto simp: w w' C_packet ack_calls_events pair_eq_fst_snd)
  next
    case Run_handler
    then have r: "(out, s') = run_handler s" using st by (auto simp: w w' split: prod.splits)
    from run_handler_cases [of s] r show ?thesis
      by (auto simp: w w' Run_handler pair_eq_fst_snd) (auto simp: ack_waiting_def)
  next
    case C_close
    with st have "(out, s') = sk_close s" by (auto simp: w w' split: prod.splits)
    then show ?thesis by (simp add: w w' pair_eq_fst_snd)
  next
    case C_on_open
    with st have "(out, s') = send_connect s" by (auto simp: w w' sk_on_open_def split: prod.splits)
    then show ?thesis by (simp add: w w' pair_eq_fst_snd)
  next
    case C_on_close
    with st have "(out, s') = sk_on_close s" by (auto simp: w w' split: prod.splits)
    then show ?thesis by (simp add: w w' pair_eq_fst_snd)
  next
    case C_on_disconnect
    with st have "(out, s') = sk_on_disconnect s" by (auto simp: w w' split: prod.splits)
    then show ?thesis by (simp add: w w' pair_eq_fst_snd)
  qed (use st in \<open>auto simp: w w' ack_registers_def ack_waiting_def socket_ops timer_fires_def split: option.splits\<close>)
qed

interpretation sk_acked: budget_machine sk_step "\<lambda>w. True" "ack_calls l" "\<lambda>w. ack_waiting l (snd w)" "ack_registers l"
  for l
  by unfold_locales (simp_all add: sk_step_acks)

text \<open>C23. A listener passed to \<open>emit\<close> is called for an acknowledgement at most as often as it was passed,
  however often the server acknowledges.\<close>

theorem ack_at_most_once:
  assumes "run_calls sk_step cs (g, snd (new_socket client opened nsp auth)) = Inr (out, g', s')"
  shows "ack_calls l out \<le> sum_list (map (ack_registers l) cs)"
proof -
  have "ack_waiting l (snd (new_socket client opened nsp auth)) = 0"
    by (auto simp: new_socket_def send_connect_def Let_def ack_waiting_def)
  with sk_acked.run_budget [OF TrueI assms, of l] show ?thesis by simp
qed

theorem ack_at_most_once_witness:
  "\<exists>out w. run_calls sk_step [C_emit ''a'' [] (Some 7), C_packet (typed_packet type_ack ''/'' (Some (Array_msg [])))]
     (1, snd (new_socket True False ''/'' None)) = Inr (out, w) \<and> ack_calls 7 out \<le> 1"
proof -
  let ?cs = "[C_emit ''a'' [] (Some 7), C_packet (typed_packet type_ack ''/'' (Some (Array_msg [])))]"
  obtain out g s where r: "run_calls sk_step ?cs (1, snd (new_socket True False ''/'' None)) = Inr (out, g, s)"
    by (auto simp: new_socket_def sk_emit_def message_packet_def send_packet_def on_message_packet_def
        typed_packet_def get_type_def on_ack_packet_def on_socketio_ack_def empty_packet_def to_u32_def to_i32_def)
  from ack_at_most_once [OF r, of 7] r show ?thesis by (auto simp: ack_registers_def)
qed

text \<open>A socket whose client is gone stays so and says nothing any more.\<close>

interpretation sk_dead: silent_machine sk_step "\<lambda>w. \<not> sk_client (snd w)"
proof (unfold_locales, goal_cases)
  case (1 w c out w')
  show ?case
  proof
    assume a: "sk_client (snd w')"
    obtain g s where w: "w = (g, s)" by (cases w)
    from sk_step_alive [OF 1(2) a] 1(1) show False by simp
  qed
next
  case (2 w c out w')
  obtain g s where w: "w = (g, s)" by (cases w)
  have n: "\<not> sk_client s" using 2(1) by (simp add: w)
  show ?case
  proof (cases c)
    case (C_ack i ms)
    with 2(2) obtain s' where "sk_ack i ms s = Inr (out, s')" by (auto simp: w res_simps)
    from sk_ack_cases [OF this] n show ?thesis by (auto simp: send_packet_def)
  next
    case Run_handler
    with 2(2) obtain s' where "(out, s') = run_handler s" by (auto simp: w split: prod.splits)
    with run_handler_cases [of s] n show ?thesis by (auto simp: sk_on_close_def)
  qed (use 2(2) n in \<open>auto simp: w socket_ops sk_emit_def on_message_packet_def res_simps split: if_splits\<close>)
qed

text \<open>After \<open>on_close\<close> (a disconnect packet, the connection timeout or the close timer) the socket sends
  nothing, calls no listener and does not come back, whatever is called on it.\<close>

theorem closed_socket_silent:
  assumes "run_calls sk_step cs (g, snd (sk_on_close s)) = Inr (out, g', s')"
  shows "out = [] \<and> \<not> sk_client s'"
  using sk_dead.run_silent [OF _ assms] sk_dead.run_inv [OF _ assms] on_close_dead [of s] by simp

theorem closed_socket_silent_witness:
  "\<exists>out w. run_calls sk_step [C_emit ''a'' [] (Some 7), C_on_open, C_close, Timer_fires, Run_handler]
     (1, snd (sk_on_close (snd (new_socket True True ''/'' None)))) = Inr (out, w) \<and> out = []"
proof -
  let ?cs = "[C_emit ''a'' [] (Some 7), C_on_open, C_close, Timer_fires, Run_handler]"
  let ?s = "snd (new_socket True True ''/'' None)"
  obtain out g s where r: "run_calls sk_step ?cs (1, snd (sk_on_close ?s)) = Inr (out, g, s)"
    by (auto simp: new_socket_def sk_emit_def socket_ops start_wait_def reset_timer_def cancel_waits_def
        timer_fires_def run_handler_def)
  from closed_socket_silent [OF r] r show ?thesis by blast
qed



text \<open>A binary event whose message is missing (a frame that announces no attachments) is dereferenced.\<close>

theorem event_without_message:
  assumes "sk_client s" "pk_nsp p = sk_nsp s" "pk_type p \<in> {type_event, type_binary_event}" "pk_message p = None"
  shows "on_message_packet p s = Inl Null_deref"
  using assms by (auto simp: on_message_packet_def get_type_def on_event_packet_def)

end
