(* ===== verification/Bridge.thy ===== *)
theory Bridge
  imports PeerEnd Introspect Leds Socket
begin

text \<open>
  \<open>src/sio.cpp\<close> and the table of peers of \<open>src/wrtc_peer.cpp\<close>: the bridge as a whole, driven by the events of the
  socket. Peers are objects: the table maps ids to them, and a detached thread that processes the subscriptions
  of a peer holds its object. Such a thread is an effect (\<open>Process\<close>) of the handler that starts it.
\<close>

section \<open>State\<close>

datatype handler =
    H_ice_servers | H_peer | H_wrtc_info | H_peer_gone | H_introspection | H_subscribe | H_unsubscribe
  | H_subscribe_write | H_unsubscribe_write | H_service | H_file | H_sdp_answer

record bridge =
  br_cfg :: "jvalue bridge_config"
  br_connected :: bool
  br_shutting_down :: bool
  br_url :: string
  br_auth :: "(string, msg_ptr) omap"
  br_events :: "(string, handler) omap"
  br_objs :: "(nat, peer) omap"
  br_next :: nat
  br_peers :: "(string, nat) omap"
  br_hub :: hub
  br_intro :: intro

datatype led_call = Led_on | Led_off | Led_fast_pulse | Led_once

datatype bridge_effect =
    Peer_eff nat peer_effect
  | Intro_eff intro_effect
  | Ack int message
  | Process nat int "(string, msg_ptr) omap option"
  | Call_service string string sio_event
  | Upload string int
  | Conn_led led_call
  | Data_led led_call
  | Listen string handler
  | Listen_any
  | Listen_error
  | Off_all
  | Off_error
  | Set_delay "32 word"
  | Set_delay_max "32 word"
  | Set_attempts "32 word"
  | Client_connect string "(string, msg_ptr) omap"
  | Connect_later string "(string, msg_ptr) omap"
  | Clear_listeners
  | Sync_close
  | Dc_send nat string

type_synonym 'a bact = "(bridge, bridge_effect, 'a) act"

text \<open>The environment: that of the peers and of introspection, the session ids and the conversion of the retry time.\<close>

record world =
  wd_env :: env
  wd_graph :: graph
  wd_session :: string
  wd_retry_ms :: "64 word \<Rightarrow> 32 word"

text \<open>Peers see the types that Introspection knows and the connection of the socket.\<close>

definition peer_env :: "world \<Rightarrow> bridge \<Rightarrow> env" where
  "peer_env w b = (wd_env w)\<lparr>e_topic := (\<lambda>t. getTopic t (br_intro b)), e_sio := br_connected b\<rparr>"

definition intro_graph :: "world \<Rightarrow> bridge \<Rightarrow> graph" where
  "intro_graph w b = (wd_graph w)\<lparr>g_sio := br_connected b\<rparr>"

text \<open>An action of a peer object, on that object and the hub; and one of Introspection, which may start the processing
  of all connected peers.\<close>

definition on_object :: "nat \<Rightarrow> (bridge \<Rightarrow> 'a pact) \<Rightarrow> 'a bact" where
  "on_object n m b =
     (case map_of (br_objs b) n of None \<Rightarrow> (Inl Null_deref, [], b)
      | Some p \<Rightarrow> (case m b (p, br_hub b) of (r, out, (p', h')) \<Rightarrow>
          (r, map (Peer_eff n) out, b\<lparr>br_objs := mput n p' (br_objs b), br_hub := h'\<rparr>)))"

definition processAllPeerSubscriptions :: "bridge \<Rightarrow> bridge_effect list" where
  "processAllPeerSubscriptions b = map (\<lambda>(i, n). Process n (- 1) None) (br_peers b)"

definition intro_effects :: "bridge \<Rightarrow> intro_effect list \<Rightarrow> bridge_effect list" where
  "intro_effects b out = concat (map (\<lambda>e. if e = Process_all then processAllPeerSubscriptions b else [Intro_eff e]) out)"

definition on_intro :: "(bridge \<Rightarrow> 'a iact) \<Rightarrow> 'a bact" where
  "on_intro m b = (case m b (br_intro b) of (r, out, i) \<Rightarrow> (r, intro_effects b out, b\<lparr>br_intro := i\<rparr>))"

section \<open>Set-up\<close>

definition construct_bridge :: "world \<Rightarrow> jvalue bridge_config \<Rightarrow> hub \<Rightarrow> intro \<Rightarrow> bridge \<times> bridge_effect list" where
  "construct_bridge w cfg h i =
     (let ms = wd_retry_ms w (cf_sio_connection_retry_sec cfg)
      in (\<lparr>br_cfg = cfg, br_connected = False, br_shutting_down = False, br_url = [], br_auth = [], br_events = [],
           br_objs = [], br_next = 0, br_peers = [], br_hub = h, br_intro = i\<rparr>,
          [Conn_led Led_fast_pulse, Set_delay ms, Set_delay_max ms, Set_attempts 10000000]))"

definition show_int32 :: "32 word \<Rightarrow> string" where
  "show_int32 x = (if sint x < 0 then ''-'' @ show_nat (nat (- sint x)) else show_nat (nat (sint x)))"

definition auth_data :: "jvalue bridge_config \<Rightarrow> (string, msg_ptr) omap" where
  "auth_data c = fold (\<lambda>(k, v). mput k (text_message v))
     [(''id_robot'', cf_id_robot c), (''key'', cf_auth_key c), (''name'', cf_robot_name c),
      (''maintainer_email'', cf_maintainer_email c), (''ros_distro'', cf_ros_distro c),
      (''git_sha'', cf_git_head_sha c), (''git_tag'', cf_latest_git_tag c)] []"

definition handler_table :: "(string \<times> handler) list" where
  "handler_table =
     [(''ice-servers'', H_ice_servers), (''peer'', H_peer), (''peer:wrtc-info'', H_wrtc_info), (''peer:disconnected'', H_peer_gone),
      (''introspection'', H_introspection), (''subscribe'', H_subscribe), (''unsubscribe'', H_unsubscribe),
      (''subscribe:write'', H_subscribe_write), (''unsubscribe:write'', H_unsubscribe_write), (''service'', H_service),
      (''file'', H_file), (''sdp:answer'', H_sdp_answer)]"

definition br_connect :: "unit bact" where
  "br_connect =
     thenA (modA (\<lambda>b. b\<lparr>br_url := cf_cloud_bridge_address (br_cfg b) @ '':'' @ show_int32 (cf_sio_port (br_cfg b)) @ cf_sio_path (br_cfg b),
                        br_auth := auth_data (br_cfg b),
                        br_events := fold (\<lambda>(k, h). memplace k h) handler_table (br_events b)\<rparr>))
     (bindA (getA (\<lambda>b. [Client_connect (br_url b) (br_auth b)])) emitA)"

section \<open>The life of the connection\<close>

definition br_onConnected :: "unit bact" where
  "br_onConnected = bindA (getA (\<lambda>b. map (\<lambda>(k, h). Listen k h) (br_events b) @ [Listen_any, Listen_error])) emitA"

definition br_onSocketOpen :: "world \<Rightarrow> unit bact" where
  "br_onSocketOpen w =
     thenA (modA (\<lambda>b. b\<lparr>br_connected := True\<rparr>))
     (thenA (emitA [Conn_led Led_on]) (on_intro (\<lambda>b. intro_report (intro_graph w b))))"

text \<open>A peer leaves: its object is processed a last time, then its id is erased from the table.\<close>

definition peer_leaves :: "world \<Rightarrow> nat \<Rightarrow> unit bact" where
  "peer_leaves w n =
     thenA (on_object n (\<lambda>b. onDisconnected (peer_env w b) (br_cfg b)))
           (modA (\<lambda>b. case map_of (br_objs b) n of None \<Rightarrow> b | Some p \<Rightarrow> b\<lparr>br_peers := mdel (pe_id p) (br_peers b)\<rparr>))"

definition onAllPeersDisconnected :: "world \<Rightarrow> unit bact" where
  "onAllPeersDisconnected w =
     bindA (getA (\<lambda>b. map fst (br_peers b))) (\<lambda>ids.
       forA (\<lambda>i _. bindA (getA (\<lambda>b. mat (br_peers b) i)) (\<lambda>r. bindA (liftA r) (peer_leaves w))) ids ())"

definition br_onDisconnected :: "world \<Rightarrow> unit bact" where
  "br_onDisconnected w =
     thenA (modA (\<lambda>b. b\<lparr>br_connected := False\<rparr>))
     (thenA (emitA [Conn_led Led_fast_pulse]) (onAllPeersDisconnected w))"

definition br_onClosed :: "unit bact" where
  "br_onClosed =
     thenA (emitA [Off_all, Off_error])
     (bindA (getA (\<lambda>b. if br_shutting_down b then [] else [Connect_later (br_url b) (br_auth b)])) emitA)"

section \<open>Acknowledgements\<close>

text \<open>The message of an event is its first one, or null.\<close>

definition get_message :: "sio_event \<Rightarrow> msg_ptr" where
  "get_message ev = (case ev_messages ev of [] \<Rightarrow> None | m # _ \<Rightarrow> m)"

definition br_ack :: "int \<Rightarrow> message \<Rightarrow> unit bact" where
  "br_ack i m = bindA (getA (\<lambda>b. if br_connected b then [Ack i m] else [])) emitA"

definition err_message :: "string \<Rightarrow> message" where
  "err_message e = Object_msg (memplace ''msg'' (text_message e) (memplace ''err'' (Some (Int_msg 2)) []))"

definition success_message :: "64 word \<Rightarrow> message" where
  "success_message n = Object_msg (memplace ''success'' (Some (Int_msg n)) [])"

definition returnError :: "string \<Rightarrow> sio_event \<Rightarrow> unit bact" where
  "returnError e ev = br_ack (ev_msgId ev) (err_message e)"

definition returnSuccess :: "sio_event \<Rightarrow> unit bact" where
  "returnSuccess ev = br_ack (ev_msgId ev) (success_message 1)"

definition ack_if_needed :: "sio_event \<Rightarrow> unit bact" where
  "ack_if_needed ev = ifA (ev_need_ack ev) (returnSuccess ev)"

section \<open>The table of peers\<close>

text \<open>The object of the peer that sent the event, or an error to it.\<close>

definition event_peer :: "sio_event \<Rightarrow> string res" where
  "event_peer ev = bindR (deref (get_message ev)) getId"

definition getConnectedPeer :: "sio_event \<Rightarrow> nat option bact" where
  "getConnectedPeer ev =
     bindA (liftA (event_peer ev)) (\<lambda>i.
     if i = [] then thenA (ifA (ev_need_ack ev) (br_ack (ev_msgId ev) (err_message ''No valid peer id provided''))) (retA None)
     else bindA (getA (\<lambda>b. map_of (br_peers b) i)) (\<lambda>r.
       case r of None \<Rightarrow> thenA (ifA (ev_need_ack ev) (br_ack (ev_msgId ev) (err_message ''Peer not connected''))) (retA None)
       | Some n \<Rightarrow> retA (Some n)))"

text \<open>\<open>operator[]\<close> puts a null pointer for a missing member, which is then dereferenced.\<close>

definition member_text :: "string \<Rightarrow> message \<Rightarrow> string res" where
  "member_text key m =
     bindR (get_map m) (\<lambda>kvs. case map_of kvs key of None \<Rightarrow> Inl Null_deref | Some p \<Rightarrow> bindR (deref p) get_string)"

definition new_object :: "world \<Rightarrow> string \<Rightarrow> string \<Rightarrow> string \<Rightarrow> nat bact" where
  "new_object w i app inst =
     bindA (getA br_next) (\<lambda>n.
     thenA (modA (\<lambda>b. b\<lparr>br_next := Suc n, br_objs := mput n (blank_peer i app inst (wd_session w)) (br_objs b)\<rparr>))
     (thenA (on_object n (\<lambda>b. construct (peer_env w b) (br_cfg b))) (retA n)))"

definition connect_peer :: "world \<Rightarrow> string \<Rightarrow> sio_event \<Rightarrow> unit bact" where
  "connect_peer w i ev =
     bindA (liftA (deref (get_message ev))) (\<lambda>m.
     bindA (liftA (member_text ''id_app'' m)) (\<lambda>app.
     bindA (liftA (member_text ''id_instance'' m)) (\<lambda>inst.
     bindA (new_object w i app inst) (\<lambda>n.
     thenA (modA (\<lambda>b. b\<lparr>br_peers := memplace i n (br_peers b)\<rparr>))
     (thenA (on_object n (\<lambda>b. initial_requests m))
     (bindA (getA (\<lambda>b. [Process n (ev_msgId ev) (Some (addUIConfigToMessage (e_dbl_pos (wd_env w)) (e_json (wd_env w)) (br_cfg b) []))])) emitA))))))"

section \<open>The handlers\<close>

definition onIceServers :: "sio_event \<Rightarrow> unit bact" where
  "onIceServers ev =
     bindA (getA (\<lambda>b. cf_use_cloud_ice_config (br_cfg b))) (\<lambda>use_cloud. ifA use_cloud
       (thenA (modA (\<lambda>b. b\<lparr>br_cfg := (br_cfg b)\<lparr>cf_ice_servers := cf_ice_servers_custom (br_cfg b)\<rparr>\<rparr>))
       (bindA (liftA (deref (get_message ev))) (\<lambda>m.
        bindA (liftA (bindR (conf_at m ''servers'') get_vector)) (\<lambda>servers.
        thenA (forA (\<lambda>one _. bindA (liftA (bindR (deref one) get_string)) (\<lambda>url.
                 modA (\<lambda>b. b\<lparr>br_cfg := (br_cfg b)\<lparr>cf_ice_servers := cf_ice_servers (br_cfg b) @ [url]\<rparr>\<rparr>))) servers ())
        (bindA (liftA (bindR (conf_at m ''secret'') get_string)) (\<lambda>secret.
          modA (\<lambda>b. b\<lparr>br_cfg := (br_cfg b)\<lparr>cf_ice_secret := secret\<rparr>\<rparr>))))))))"

definition br_onPeerConnected :: "world \<Rightarrow> sio_event \<Rightarrow> unit bact" where
  "br_onPeerConnected w ev =
     bindA (liftA (event_peer ev)) (\<lambda>i.
       if i = [] then emitA [Ack (ev_msgId ev) (err_message ''No valid peer id provided'')]
       else connect_peer w i ev)"

definition onPeerWRTCInfo :: "sio_event \<Rightarrow> unit bact" where
  "onPeerWRTCInfo ev =
     bindA (getConnectedPeer ev) (\<lambda>r.
     thenA (ack_if_needed ev)
       (case r of None \<Rightarrow> retA ()
        | Some n \<Rightarrow>
            bindA (liftA (deref (get_message ev))) (\<lambda>m.
            bindA (on_object n (\<lambda>b. onWRTCInfo m)) (\<lambda>again. emitA (if again then [Process n (- 1) None] else [])))))"

definition onPeerDisconnected :: "world \<Rightarrow> sio_event \<Rightarrow> unit bact" where
  "onPeerDisconnected w ev =
     bindA (getConnectedPeer ev) (\<lambda>r.
     thenA (ack_if_needed ev) (case r of None \<Rightarrow> retA () | Some n \<Rightarrow> peer_leaves w n))"

definition onIntrospection :: "world \<Rightarrow> sio_event \<Rightarrow> unit bact" where
  "onIntrospection w ev =
     bindA (getConnectedPeer ev) (\<lambda>r.
       case r of None \<Rightarrow> retA ()
       | Some n \<Rightarrow>
           bindA (liftA (bindR (deref (get_message ev)) (\<lambda>m. bindR (get_map m) (\<lambda>kvs.
              case map_of kvs ''state'' of None \<Rightarrow> Inl Null_deref | Some p \<Rightarrow> bindR (deref p) get_bool)))) (\<lambda>on.
           thenA (on_intro (\<lambda>b. if on then intro_start (intro_graph w b) (br_cfg b) else intro_stop (intro_graph w b)))
           (bindA (getA (\<lambda>b. it_running (br_intro b))) (\<lambda>running.
             emitA [Ack (ev_msgId ev) (Object_msg (memplace ''introspection'' (Some (Bool_msg running))
               (memplace ''success'' (Some (Int_msg 1)) [])))]))))"

text \<open>The four handlers of subscriptions differ in what they do with the array of sources.\<close>

definition subscription_handler :: "(msg_ptr list \<Rightarrow> unit pact) \<Rightarrow> sio_event \<Rightarrow> unit bact" where
  "subscription_handler f ev =
     bindA (getConnectedPeer ev) (\<lambda>r.
       case r of None \<Rightarrow> retA ()
       | Some n \<Rightarrow>
           bindA (liftA (bindR (deref (get_message ev)) (elements_of ''sources''))) (\<lambda>v.
           thenA (on_object n (\<lambda>b. f v)) (thenA (emitA [Process n (- 1) None]) (ack_if_needed ev))))"

definition onSubscribeRead :: "sio_event \<Rightarrow> unit bact" where
  "onSubscribeRead = subscription_handler (read_request addReqRead)"

definition onUnsubscribeRead :: "sio_event \<Rightarrow> unit bact" where
  "onUnsubscribeRead = subscription_handler (read_request removeReqRead)"

definition onSubscribeWrite :: "sio_event \<Rightarrow> unit bact" where
  "onSubscribeWrite = subscription_handler (write_request False)"

definition onUnsubscribeWrite :: "sio_event \<Rightarrow> unit bact" where
  "onUnsubscribeWrite = subscription_handler (read_request removeReqWrite)"

definition br_onSDPAnswer :: "world \<Rightarrow> sio_event \<Rightarrow> unit bact" where
  "br_onSDPAnswer w ev =
     bindA (getConnectedPeer ev) (\<lambda>r.
       case r of None \<Rightarrow> ifA (ev_need_ack ev) (br_ack (ev_msgId ev) (success_message 0))
       | Some n \<Rightarrow>
           bindA (liftA (deref (get_message ev))) (\<lambda>m.
           thenA (on_object n (\<lambda>b. onSDPAnswer (peer_env w b) m)) (ack_if_needed ev)))"

definition onServiceCall :: "sio_event \<Rightarrow> unit bact" where
  "onServiceCall ev =
     bindA (getConnectedPeer ev) (\<lambda>r.
       case r of None \<Rightarrow> retA ()
       | Some n \<Rightarrow>
           bindA (liftA (bindR (deref (get_message ev)) (\<lambda>m. bindR (conf_at m ''service'') get_string))) (\<lambda>name.
             if name = [] then returnError ''Service id not provided'' ev
             else bindA (getA (\<lambda>b. getService name (br_intro b))) (\<lambda>ty.
               if ty = [] then returnError (''Service '' @ [CHR 0x27] @ name @ [CHR 0x27] @ '' not discovered'') ev
               else emitA [Data_led Led_once, Call_service name ty ev])))"

definition onFileRequest :: "sio_event \<Rightarrow> unit bact" where
  "onFileRequest ev =
     bindA (liftA (deref (get_message ev))) (\<lambda>m.
     let path = (case m of String_msg s \<Rightarrow> s | _ \<Rightarrow> [])
     in if path = [] then returnError ''File path not provided'' ev else emitA [Upload path (ev_msgId ev)])"

fun handle :: "world \<Rightarrow> handler \<Rightarrow> sio_event \<Rightarrow> unit bact" where
  "handle w H_ice_servers ev = onIceServers ev"
| "handle w H_peer ev = br_onPeerConnected w ev"
| "handle w H_wrtc_info ev = onPeerWRTCInfo ev"
| "handle w H_peer_gone ev = onPeerDisconnected w ev"
| "handle w H_introspection ev = onIntrospection w ev"
| "handle w H_subscribe ev = onSubscribeRead ev"
| "handle w H_unsubscribe ev = onUnsubscribeRead ev"
| "handle w H_subscribe_write ev = onSubscribeWrite ev"
| "handle w H_unsubscribe_write ev = onUnsubscribeWrite ev"
| "handle w H_service ev = onServiceCall ev"
| "handle w H_file ev = onFileRequest ev"
| "handle w H_sdp_answer ev = br_onSDPAnswer w ev"

section \<open>Threads and callbacks\<close>

definition std_exception :: "cpp_error \<Rightarrow> bool" where
  "std_exception e = (case e of Out_of_range \<Rightarrow> True | Invalid_argument \<Rightarrow> True | Runtime_error _ \<Rightarrow> True | _ \<Rightarrow> False)"

definition catchA :: "('s, 'o, unit) act \<Rightarrow> ('s, 'o, unit) act" where
  "catchA m s = (case m s of (r, out, s') \<Rightarrow>
     (case r of Inl e \<Rightarrow> ((if std_exception e then Inr () else Inl e), out, s') | Inr x \<Rightarrow> (Inr x, out, s')))"

text \<open>The body of the detached thread of a peer.\<close>

definition run_process :: "world \<Rightarrow> nat \<Rightarrow> int \<Rightarrow> (string, msg_ptr) omap option \<Rightarrow> unit bact" where
  "run_process w n i ack = catchA (on_object n (\<lambda>b. processSubscriptionsSync (peer_env w b) (br_cfg b) i ack))"

definition br_runIntrospection :: "world \<Rightarrow> unit bact" where
  "br_runIntrospection w = on_intro (\<lambda>b. runIntrospection (intro_graph w b) (br_cfg b))"

definition br_onDocker :: "world \<Rightarrow> docker_status \<Rightarrow> unit bact" where
  "br_onDocker w d = on_intro (\<lambda>b. onDockerMonitorMessage (intro_graph w b) (br_cfg b) d)"

text \<open>The client's reply to an update, the change of the ICE state, and a message on an inbound data channel.\<close>

definition br_onOfferReply :: "world \<Rightarrow> nat \<Rightarrow> msg_ptr list \<Rightarrow> unit bact" where
  "br_onOfferReply w n reply = on_object n (\<lambda>b. onSIOOfferReply (peer_env w b) reply)"

definition onSignalingStateChange :: "bool \<Rightarrow> nat \<Rightarrow> unit bact" where
  "onSignalingStateChange is_stable n = on_object n (\<lambda>b. onSignalingState is_stable)"

definition onIceStateChange :: "ice_state \<Rightarrow> nat \<Rightarrow> unit bact" where
  "onIceStateChange st n =
     bindA (getA (\<lambda>b. case map_of (br_objs b) n of None \<Rightarrow> False | Some p \<Rightarrow> pe_connected p)) (\<lambda>connected.
       emitA (if st = Ic_failed \<and> connected then [Process n (- 1) None] else []))"

definition onInboundMessage :: "nat \<Rightarrow> string \<Rightarrow> nat \<Rightarrow> dc_message \<Rightarrow> unit bact" where
  "onInboundMessage n topic d m =
     (if topic = HEARTBEAT_CHANNEL_ID then emitA (case m of Binary_data bin \<Rightarrow> [Dc_send d bin] | Text_data _ \<Rightarrow> [])
      else bindA (on_object n (\<lambda>b. on_writers (writer_onData d m))) (\<lambda>_. retA ()))"

section \<open>The end\<close>

text \<open>What the other threads may do to the bridge while \<open>main\<close> shuts the socket down: the client's network thread still handles
  its events, and the threads of the peers run.\<close>

datatype activity =
    A_event handler sio_event
  | A_process nat int "(string, msg_ptr) omap option"
  | A_offer_reply nat "msg_ptr list"
  | A_ice ice_state nat
  | A_signaling bool nat
  | A_inbound nat string nat dc_message
  | A_opened
  | A_dropped

fun act_on :: "world \<Rightarrow> activity \<Rightarrow> unit bact" where
  "act_on w (A_event k ev) = handle w k ev"
| "act_on w (A_process n i ack) = run_process w n i ack"
| "act_on w (A_offer_reply n reply) = br_onOfferReply w n reply"
| "act_on w (A_ice st n) = onIceStateChange st n"
| "act_on w (A_signaling is_stable n) = onSignalingStateChange is_stable n"
| "act_on w (A_inbound n topic d m) = onInboundMessage n topic d m"
| "act_on w A_opened = br_onSocketOpen w"
| "act_on w A_dropped = br_onDisconnected w"

definition meanwhile :: "world \<Rightarrow> activity list \<Rightarrow> unit bact" where
  "meanwhile w acts = forA (\<lambda>a _. act_on w a) acts ()"

text \<open>\<open>shutdown\<close> ends with \<open>sync_close\<close>, which waits for the end of the network thread (\<open>Sync_close\<close> is its return): \<open>before\<close> is
  what happens between the disconnection of the peers and the call, \<open>during\<close> what happens until it returns.\<close>

definition br_shut_peers :: "world \<Rightarrow> unit bact" where
  "br_shut_peers w = thenA (modA (\<lambda>b. b\<lparr>br_shutting_down := True\<rparr>)) (onAllPeersDisconnected w)"

definition br_shutdown :: "world \<Rightarrow> activity list \<Rightarrow> activity list \<Rightarrow> unit bact" where
  "br_shutdown w before during =
     thenA (br_shut_peers w)
     (thenA (meanwhile w before)
     (thenA (emitA [Set_attempts 0, Clear_listeners])
     (thenA (meanwhile w during) (emitA [Sync_close]))))"

section \<open>The system\<close>

text \<open>The bridge with the threads that wait to process a peer; one of a peer that waits for an answer cannot begin.\<close>

type_synonym system = "bridge \<times> (nat \<times> int \<times> (string, msg_ptr) omap option) list"

definition spawned :: "bridge_effect list \<Rightarrow> (nat \<times> int \<times> (string, msg_ptr) omap option) list" where
  "spawned out = concat (map (\<lambda>e. case e of Process n i ack \<Rightarrow> [(n, i, ack)] | _ \<Rightarrow> []) out)"

inductive sys_step :: "system \<Rightarrow> bridge_effect list \<Rightarrow> system \<Rightarrow> bool" where
  event: "handle w k ev b = (Inr (), out, b') \<Longrightarrow> sys_step (b, ts) out (b', ts @ spawned out)"
| thread: "map_of (br_objs b) n = Some p \<Longrightarrow> mutex_free p \<Longrightarrow> run_process w n i ack b = (Inr (), out, b') \<Longrightarrow>
    sys_step (b, ts @ (n, i, ack) # us) out (b', ts @ us @ spawned out)"
| introspect: "br_runIntrospection w b = (Inr (), out, b') \<Longrightarrow> sys_step (b, ts) out (b', ts @ spawned out)"
| docker: "br_onDocker w d b = (Inr (), out, b') \<Longrightarrow> sys_step (b, ts) out (b', ts @ spawned out)"
| offer_reply: "br_onOfferReply w n reply b = (Inr (), out, b') \<Longrightarrow> sys_step (b, ts) out (b', ts @ spawned out)"
| ice: "onIceStateChange st n b = (Inr (), out, b') \<Longrightarrow> sys_step (b, ts) out (b', ts @ spawned out)"
| signaling: "onSignalingStateChange is_stable n b = (Inr (), out, b') \<Longrightarrow> sys_step (b, ts) out (b', ts @ spawned out)"
| inbound: "onInboundMessage n topic d m b = (Inr (), out, b') \<Longrightarrow> sys_step (b, ts) out (b', ts @ spawned out)"
| opened: "br_onSocketOpen w b = (Inr (), out, b') \<Longrightarrow> sys_step (b, ts) out (b', ts @ spawned out)"
| dropped: "br_onDisconnected w b = (Inr (), out, b') \<Longrightarrow> sys_step (b, ts) out (b', ts @ spawned out)"
| stopped: "br_shut_peers w b = (Inr (), out, b') \<Longrightarrow> sys_step (b, ts) out (b', ts @ spawned out)"

inductive reachable :: "system \<Rightarrow> bool" where
  start: "reachable (fst (construct_bridge w cfg h i), [])"
| step: "reachable s \<Longrightarrow> sys_step s out s' \<Longrightarrow> reachable s'"

end
