(* ===== verification/IntroLaws.thy ===== *)
theory IntroLaws
  imports Introspect
begin

text \<open>
  What introspection guarantees: the definitions reported are complete, the topics follow the graph, the verdict on
  the QoS of a subscriber, and which of its results get lost.
\<close>

section \<open>Definitions of message types\<close>

lemma replace_str_total: "search \<noteq> [] \<Longrightarrow> \<exists>r. replace_str str search repl = Some r"
  unfolding replace_str_def by (rule replace_loop_total)

lemma include_type_total: "\<exists>t. include_type line = Some t"
proof -
  obtain p where p: "replace_str line ''#include'' [] = Some p" using replace_str_total by blast
  obtain t where "replace_str (trim p [CHR '' '', CHR 0x09, CHR 0x0A, CHR 0x0D, CHR 0x0C, CHR 0x0B, CHR 0x22, CHR 0x27]) ''.idl'' [] = Some t"
    using replace_str_total by blast
  with p show ?thesis by (simp add: include_type_def)
qed

lemma idl_lines_total: "\<exists>r. idl_lines ls first = Some r"
proof (induction ls first rule: idl_lines.induct)
  case (1 first)
  then show ?case by simp
next
  case (2 line ls first)
  from include_type_total [of line] obtain t where t: "include_type line = Some t" by blast
  have "\<exists>r. idl_lines ls (first \<or> line \<noteq> []) = Some r"
    if "find_sub ''//'' line \<noteq> Some 0" "\<not> (line = [] \<and> \<not> first)"
    using 2(3) [OF that, of "if find_sub ''#include'' line = Some 0 \<and> find_sub ''.idl'' line \<noteq> None then [t] else []"] t by simp
  with 2(1,2) t show ?case by auto
qed

lemma parse_idl_total: "\<exists>r. parse_idl raw = Some r"
  unfolding parse_idl_def by (rule idl_lines_total)

definition includes_of :: "graph \<Rightarrow> string \<Rightarrow> string list" where
  "includes_of g t = (case parse_idl (g_read g (getInterfaceIDLPath g t)) of None \<Rightarrow> [] | Some (body, incs) \<Rightarrow> incs)"

text \<open>A type is settled if it is known or never will be.\<close>

definition settled :: "graph \<Rightarrow> string list \<Rightarrow> (string, string) omap \<Rightarrow> string \<Rightarrow> bool" where
  "settled g bl idls t = (mhas idls t \<or> t \<in> set bl \<or> getInterfaceIDLPath g t = [])"

definition idls_closed :: "graph \<Rightarrow> string list \<Rightarrow> (string, string) omap \<Rightarrow> bool" where
  "idls_closed g bl idls = (\<forall>t. mhas idls t \<longrightarrow> list_all (settled g bl idls) (includes_of g t))"

definition keeps_idls :: "(string, string) omap \<Rightarrow> (string, string) omap \<Rightarrow> bool" where
  "keeps_idls m m' = (\<forall>t. mhas m t \<longrightarrow> map_of m' t = map_of m t)"

lemma keeps_idls_mhas: "keeps_idls m m' \<Longrightarrow> mhas m t \<Longrightarrow> mhas m' t"
  by (auto simp: keeps_idls_def mhas_def)

lemma keeps_idls_trans: "keeps_idls m1 m2 \<Longrightarrow> keeps_idls m2 m3 \<Longrightarrow> keeps_idls m1 m3"
  by (simp add: keeps_idls_def mhas_def)

lemma settled_mono: "keeps_idls m m' \<Longrightarrow> settled g bl m t \<Longrightarrow> settled g bl m' t"
  by (auto simp: settled_def keeps_idls_mhas)

lemma collect_loop_complete:
  assumes fin: "finite {t. getInterfaceIDLPath g t \<noteq> []}"
    and "\<forall>t. mhas idls t \<longrightarrow> list_all (\<lambda>u. settled g bl idls u \<or> u \<in> set todo) (includes_of g t)"
  shows "\<exists>idls'. collect_loop g bl todo idls = Some idls' \<and> keeps_idls idls idls' \<and> idls_closed g bl idls' \<and>
    list_all (settled g bl idls') todo"
  using assms(2)
proof (induction "card {t. getInterfaceIDLPath g t \<noteq> [] \<and> \<not> mhas idls t}" arbitrary: todo idls rule: less_induct)
  case less
  note outer = less.hyps
  from less.prems show ?case
  proof (induction todo)
    case Nil
    then show ?case by (auto simp: collect_loop.simps keeps_idls_def idls_closed_def)
  next
    case (Cons t ts)
    show ?case
    proof (cases "is_new_idl g bl idls t")
      case False
      then have st: "settled g bl idls t" by (auto simp: is_new_idl_def settled_def)
      have "\<forall>x. mhas idls x \<longrightarrow> list_all (\<lambda>u. settled g bl idls u \<or> u \<in> set ts) (includes_of g x)"
      proof (intro allI impI)
        fix x assume "mhas idls x"
        with Cons.prems have "list_all (\<lambda>u. settled g bl idls u \<or> u \<in> set (t # ts)) (includes_of g x)" by blast
        then show "list_all (\<lambda>u. settled g bl idls u \<or> u \<in> set ts) (includes_of g x)" by (rule list.pred_mono_strong) (use st in auto)
      qed
      from Cons.IH [OF this] obtain idls' where i: "collect_loop g bl ts idls = Some idls'" "keeps_idls idls idls'"
        "idls_closed g bl idls'" "list_all (settled g bl idls') ts" by blast
      moreover have "collect_loop g bl (t # ts) idls = Some idls'" using False i(1) by (subst collect_loop.simps) simp
      ultimately show ?thesis using settled_mono [OF i(2) st] by auto
    next
      case True
      obtain body incs where pr: "parse_idl (g_read g (getInterfaceIDLPath g t)) = Some (body, incs)"
        using parse_idl_total by (metis surj_pair)
      let ?m = "memplace t body idls"
      have unseen: "\<not> mhas idls t" "getInterfaceIDLPath g t \<noteq> []" using True by (simp_all add: is_new_idl_def)
      have keep: "keeps_idls idls ?m" using unseen by (simp add: keeps_idls_def map_of_memplace mhas_def)
      have less: "card {x. getInterfaceIDLPath g x \<noteq> [] \<and> \<not> mhas ?m x} < card {x. getInterfaceIDLPath g x \<noteq> [] \<and> \<not> mhas idls x}"
        by (rule psubset_card_mono) (use fin unseen in \<open>auto intro: finite_subset\<close>)
      have inv: "\<forall>x. mhas ?m x \<longrightarrow> list_all (\<lambda>u. settled g bl ?m u \<or> u \<in> set (incs @ ts)) (includes_of g x)"
      proof (intro allI impI)
        fix x assume x: "mhas ?m x"
        show "list_all (\<lambda>u. settled g bl ?m u \<or> u \<in> set (incs @ ts)) (includes_of g x)"
        proof (cases "x = t")
          case True
          then show ?thesis by (simp add: includes_of_def pr list_all_iff)
        next
          case False
          with x have "mhas idls x" by simp
          with Cons.prems have "list_all (\<lambda>u. settled g bl idls u \<or> u \<in> set (t # ts)) (includes_of g x)" by blast
          then show ?thesis
            by (rule list.pred_mono_strong) (use settled_mono [OF keep] in \<open>auto simp: settled_def\<close>)
        qed
      qed
      from outer [OF less inv] obtain idls' where i: "collect_loop g bl (incs @ ts) ?m = Some idls'" "keeps_idls ?m idls'"
        "idls_closed g bl idls'" "list_all (settled g bl idls') (incs @ ts)" by blast
      have "collect_loop g bl (t # ts) idls = Some idls'" using True i(1) pr by (subst collect_loop.simps) simp
      moreover have "settled g bl idls' t" using keeps_idls_mhas [OF i(2), of t] by (simp add: settled_def)
      ultimately show ?thesis using i keeps_idls_trans [OF keep i(2)] by auto
    qed
  qed
qed

text \<open>C19. Collecting the definition of a message type returns if finitely many types have a definition file, whatever the
  files include, cyclically or not. Afterwards the type and all types it includes, directly or not, are
  collected, but for those that are excluded or have no file; and none collected before is lost.\<close>

theorem collect_idls_complete:
  assumes "finite {t. getInterfaceIDLPath g t \<noteq> []}" "idls_closed g (cf_blacklist_msg_types cfg) idls"
  shows "\<exists>found idls'. collectIDLs g cfg ty idls = Inr (found, idls') \<and> settled g (cf_blacklist_msg_types cfg) idls' ty \<and>
    idls_closed g (cf_blacklist_msg_types cfg) idls' \<and> keeps_idls idls idls' \<and> (found \<longleftrightarrow> \<not> mhas idls ty \<and> mhas idls' ty)"
proof -
  let ?bl = "cf_blacklist_msg_types cfg"
  have "\<forall>t. mhas idls t \<longrightarrow> list_all (\<lambda>u. settled g ?bl idls u \<or> u \<in> set [ty]) (includes_of g t)"
    using assms(2) by (auto simp: idls_closed_def list_all_iff)
  from collect_loop_complete [OF assms(1) this] obtain idls' where i: "collect_loop g ?bl [ty] idls = Some idls'"
    "keeps_idls idls idls'" "idls_closed g ?bl idls'" "settled g ?bl idls' ty" by auto
  have "mhas idls' ty \<longrightarrow> mhas idls ty \<or> is_new_idl g ?bl idls ty"
    using i(1) by (subst (asm) collect_loop.simps) (auto simp: collect_loop.simps split: if_splits)
  moreover have "is_new_idl g ?bl idls ty \<longrightarrow> \<not> mhas idls ty \<and> mhas idls' ty"
    using i(4) by (auto simp: is_new_idl_def settled_def)
  ultimately show ?thesis using i by (auto simp: collectIDLs_def)
qed

section \<open>Compatibility of QoS\<close>

text \<open>The reference: the answers for all publishers of the topic in order, and what the last bad one says.\<close>

definition publishers_of :: "(string, node_info) omap \<Rightarrow> string \<Rightarrow> ros_qos list" where
  "publishers_of nodes topic = concat (map (\<lambda>(n, d). case map_of (nd_pubs d) topic of None \<Rightarrow> [] | Some p \<Rightarrow> pt_qos p) nodes)"

definition bad_answers :: "graph \<Rightarrow> ros_qos \<Rightarrow> ros_qos list \<Rightarrow> (compat \<times> string) list" where
  "bad_answers g q pubs = filter (\<lambda>r. fst r \<noteq> Qos_ok) (map (\<lambda>p. g_compatible g p q) pubs)"

definition shown :: "sub_qos \<Rightarrow> (compat \<times> string) list \<Rightarrow> sub_qos" where
  "shown q rs =
     q\<lparr>sq_error := (if rs \<noteq> [] \<and> fst (last rs) = Qos_error then snd (last rs) else []),
       sq_warning := (if rs \<noteq> [] \<and> fst (last rs) \<noteq> Qos_error then snd (last rs) else [])\<rparr>"

lemma verdicts: "fold (verdict g) pubs (shown q rs) = shown q (rs @ bad_answers g (sq_qos q) pubs)"
proof (induction pubs arbitrary: rs)
  case Nil
  then show ?case by (simp add: bad_answers_def)
next
  case (Cons p pubs)
  obtain c r where c: "g_compatible g p (sq_qos q) = (c, r)" by force
  have "verdict g p (shown q rs) = shown q (rs @ bad_answers g (sq_qos q) [p])"
    using c by (cases c) (auto simp: verdict_def shown_def bad_answers_def)
  with Cons.IH show ?case by (simp add: bad_answers_def)
qed

lemma check_sub_shown: "check_sub g nodes topic q = shown q (bad_answers g (sq_qos q) (publishers_of nodes topic))"
proof -
  have step: "fold (\<lambda>(n, d) q. case map_of (nd_pubs d) topic of None \<Rightarrow> q | Some p \<Rightarrow> fold (verdict g) (pt_qos p) q) nodes (shown q rs) =
      shown q (rs @ bad_answers g (sq_qos q) (publishers_of nodes topic))" for rs
  proof (induction nodes arbitrary: rs)
    case Nil
    then show ?case by (simp add: publishers_of_def bad_answers_def)
  next
    case (Cons nd nodes)
    then show ?case by (cases nd) (auto simp: publishers_of_def bad_answers_def verdicts split: option.splits)
  qed
  have "q\<lparr>sq_error := [], sq_warning := []\<rparr> = shown q []" by (simp add: shown_def)
  with step [of "[]"] show ?thesis by (simp add: check_sub_def)
qed

text \<open>What the check reports for a subscriber is what the answer for the last publisher of its topic that is not
  compatible says, as an error or as a warning, and nothing if all are compatible.\<close>

theorem check_sub_last_answer:
  "check_sub g nodes topic q = shown q (bad_answers g (sq_qos q) (publishers_of nodes topic))"
  by (rule check_sub_shown)

section \<open>Topics\<close>

lemma collectIDLs_Inr: "collectIDLs g cfg ty idls = Inr r \<Longrightarrow> \<exists>found idls'. r = (found, idls')"
  by (cases r) simp

text \<open>One topic: entered if it is not excluded, with its first type unless it is known already.\<close>

definition excluded :: "'j bridge_config \<Rightarrow> string \<Rightarrow> string list \<Rightarrow> bool" where
  "excluded cfg t types = (t \<in> set (cf_blacklist_topics cfg) \<or> hd types \<in> set (cf_blacklist_topics cfg))"

lemma topic_turn_topics:
  assumes "topic_turn g cfg (t, types) (tch, ich, st) = Inr (tch', ich', st')"
  shows "map_of (it_topics st') = (if excluded cfg t types \<or> mhas (it_topics st) t then map_of (it_topics st)
      else (map_of (it_topics st))(t \<mapsto> hd types)) \<and>
    (tch' \<longleftrightarrow> tch \<or> \<not> excluded cfg t types \<and> \<not> mhas (it_topics st) t)"
  using assms
  by (auto simp: topic_turn_def excluded_def map_of_memplace res_simps split: if_splits list.splits)

lemma topics_fold:
  assumes "foldR (topic_turn g cfg) topics (tch, ich, st) = Inr (tch', ich', st')" "distinct (map fst topics)"
  shows "map_of (it_topics st') t = (case map_of (it_topics st) t of Some ty \<Rightarrow> Some ty
      | None \<Rightarrow> (case map_of topics t of None \<Rightarrow> None | Some types \<Rightarrow> if excluded cfg t types then None else Some (hd types)))"
    and "tch' \<longleftrightarrow> tch \<or> (\<exists>(t, types)\<in>set topics. \<not> excluded cfg t types \<and> \<not> mhas (it_topics st) t)"
proof -
  have "map_of (it_topics st') t = (case map_of (it_topics st) t of Some ty \<Rightarrow> Some ty
      | None \<Rightarrow> (case map_of topics t of None \<Rightarrow> None | Some types \<Rightarrow> if excluded cfg t types then None else Some (hd types))) \<and>
    (tch' \<longleftrightarrow> tch \<or> (\<exists>(t, types)\<in>set topics. \<not> excluded cfg t types \<and> \<not> mhas (it_topics st) t))"
    using assms
  proof (induction topics arbitrary: tch ich st)
    case Nil
    then show ?case by (simp split: option.splits)
  next
    case (Cons x topics)
    obtain u types where x: "x = (u, types)" by force
    from Cons.prems(1) obtain tch1 ich1 st1 where st: "topic_turn g cfg (u, types) (tch, ich, st) = Inr (tch1, ich1, st1)"
      "foldR (topic_turn g cfg) topics (tch1, ich1, st1) = Inr (tch', ich', st')" by (auto simp: res_simps x)
    note one = topic_turn_topics [OF st(1)]
    from Cons.prems(2) have d: "distinct (map fst topics)" "u \<notin> fst ` set topics" by (simp_all add: x)
    then have u: "map_of topics u = None" by (simp add: map_of_eq_None_iff)
    note rest = Cons.IH [OF st(2) d(1)]
    have same: "mhas (it_topics st1) v = mhas (it_topics st) v" if "v \<in> fst ` set topics" for v
      using one d(2) that by (auto simp: mhas_def split: if_splits)
    have "(\<exists>(t, types)\<in>set topics. \<not> excluded cfg t types \<and> \<not> mhas (it_topics st1) t) \<longleftrightarrow>
        (\<exists>(t, types)\<in>set topics. \<not> excluded cfg t types \<and> \<not> mhas (it_topics st) t)"
      using same by force
    with rest one u show ?case by (auto simp: x mhas_def split: option.splits if_splits)
  qed
  then show "map_of (it_topics st') t = (case map_of (it_topics st) t of Some ty \<Rightarrow> Some ty
      | None \<Rightarrow> (case map_of topics t of None \<Rightarrow> None | Some types \<Rightarrow> if excluded cfg t types then None else Some (hd types)))"
    "tch' \<longleftrightarrow> tch \<or> (\<exists>(t, types)\<in>set topics. \<not> excluded cfg t types \<and> \<not> mhas (it_topics st) t)" by blast+
qed

lemma service_turn_topics:
  "service_turn g cfg n srv (sch, ich, st) = Inr (sch', ich', st') \<Longrightarrow> it_topics st' = it_topics st"
  by (auto simp: service_turn_def Let_def res_simps split: list.splits if_splits prod.splits)

lemma services_topics:
  "foldR (services_of_node g cfg) ns (sch, ich, st) = Inr (sch', ich', st') \<Longrightarrow> it_topics st' = it_topics st"
proof -
  assume run: "foldR (services_of_node g cfg) ns (sch, ich, st) = Inr (sch', ich', st')"
  have turn: "it_topics (snd (snd t)) = it_topics (snd (snd s))" if "services_of_node g cfg n s = Inr t" for n s t
  proof (cases "g_services g (fst n) (snd n)")
    case None
    with that show ?thesis by (simp add: services_of_node_def)
  next
    case (Some ss)
    with that have "foldR (service_turn g cfg (fst n)) ss s = Inr t" by (simp add: services_of_node_def)
    then show ?thesis
      by (rule foldR_invariant [where P = "\<lambda>t. it_topics (snd (snd t)) = it_topics (snd (snd s))"])
        (auto dest: service_turn_topics)
  qed
  from run show ?thesis
    using foldR_invariant [where P = "\<lambda>t. it_topics (snd (snd t)) = it_topics st", OF run] turn by fastforce
qed

section \<open>A round\<close>

lemma map_of_filter_key: "map_of (filter (\<lambda>(k, v). P k) m) u = (if P u then map_of m u else None)"
  by (induction m) auto

lemma observe_InrE:
  assumes "observe g cfg names st = Inr (flags, st')" "g_topics g = Some topics"
    and "st2 = snd (find_nodes (nodes_and_namespaces names) (snd (lose_nodes (nodes_and_namespaces names) st)))"
  obtains tch ich4 st4 found idls sch ich nch where
    "foldR (topic_turn g cfg) topics (fst (lose_topics topics st2), False, snd (lose_topics topics st2)) = Inr (tch, ich4, st4)"
    "foldR (services_of_node g cfg) (map (\<lambda>(n, d). (n, nd_ns d)) (it_nodes (check_nodes g (snd (update_nodes st4)))))
       (False, found \<or> ich4, (check_nodes g (snd (update_nodes st4)))\<lparr>it_idls := idls\<rparr>) = Inr (sch, ich, st')"
    "flags = Some (nch, tch, ich, sch)"
proof -
  let ?top = "\<lambda>tch ich4 st4. foldR (topic_turn g cfg) topics (fst (lose_topics topics st2), False, snd (lose_topics topics st2)) = Inr (tch, ich4, st4)"
  let ?srv = "\<lambda>ich4 st4 found idls sch ich. foldR (services_of_node g cfg) (map (\<lambda>(n, d). (n, nd_ns d)) (it_nodes (check_nodes g (snd (update_nodes st4)))))
       (False, found \<or> ich4, (check_nodes g (snd (update_nodes st4)))\<lparr>it_idls := idls\<rparr>) = Inr (sch, ich, st')"
  have "\<exists>tch ich4 st4. ?top tch ich4 st4 \<and> (\<exists>found idls sch ich. ?srv ich4 st4 found idls sch ich \<and> (\<exists>nch. flags = Some (nch, tch, ich, sch)))"
    using assms(1) unfolding observe_def Let_def assms(2) by (simp add: assms(3) split_beta res_simps) blast
  then show thesis by (elim exE conjE) (rule that)
qed

lemma observe_topics:
  assumes "observe g cfg names st = Inr (Some (nch, tch, ich, sch), st')" "g_topics g = Some topics" "distinct (map fst topics)"
  shows "map_of (it_topics st') t = (case map_of topics t of None \<Rightarrow> None
      | Some types \<Rightarrow> if mhas (it_topics st) t then map_of (it_topics st) t else if excluded cfg t types then None else Some (hd types))"
    and "tch \<longleftrightarrow> (\<exists>t\<in>fst ` set (it_topics st). \<not> mhas topics t) \<or> (\<exists>(t, types)\<in>set topics. \<not> excluded cfg t types \<and> \<not> mhas (it_topics st) t)"
proof -
  let ?seen = "nodes_and_namespaces names"
  define st2 where "st2 = snd (find_nodes ?seen (snd (lose_nodes ?seen st)))"
  then have t2: "it_topics st2 = it_topics st" by (simp add: lose_nodes_def find_nodes_def Let_def split_beta)
  obtain lt st3 where s3: "lose_topics topics st2 = (lt, st3)" by force
  obtain ich4 st4 found idls where s4: "foldR (topic_turn g cfg) topics (lt, False, st3) = Inr (tch, ich4, st4)"
    and s6: "foldR (services_of_node g cfg) (map (\<lambda>(n, d). (n, nd_ns d)) (it_nodes (check_nodes g (snd (update_nodes st4)))))
       (False, found \<or> ich4, (check_nodes g (snd (update_nodes st4)))\<lparr>it_idls := idls\<rparr>) = Inr (sch, ich, st')"
    using assms(1,2) st2_def by (rule observe_InrE) (simp add: s3)
  have t6: "it_topics st' = it_topics st4" using services_topics [OF s6] by (simp add: check_nodes_def update_nodes_def)
  have t3: "map_of (it_topics st3) u = (if mhas topics u then map_of (it_topics st) u else None)" for u
    using s3 t2 by (auto simp: lose_topics_def map_of_filter_key)
  have lt: "lt \<longleftrightarrow> (\<exists>t\<in>fst ` set (it_topics st). \<not> mhas topics t)"
    using s3 t2 by (force simp: lose_topics_def list_ex_iff)
  note f = topics_fold [OF s4 assms(3)]
  show "map_of (it_topics st') t = (case map_of topics t of None \<Rightarrow> None
      | Some types \<Rightarrow> if mhas (it_topics st) t then map_of (it_topics st) t else if excluded cfg t types then None else Some (hd types))"
    unfolding t6 f(1) t3 by (auto simp: mhas_def split: option.splits)
  have "mhas (it_topics st3) u = mhas (it_topics st) u" if "u \<in> fst ` set topics" for u
    using that t3 [of u] by (simp add: mhas_iff [of topics] mhas_def [of "it_topics st3"] mhas_def [of "it_topics st"])
  then have "(\<exists>(t, types)\<in>set topics. \<not> excluded cfg t types \<and> \<not> mhas (it_topics st3) t) \<longleftrightarrow>
      (\<exists>(t, types)\<in>set topics. \<not> excluded cfg t types \<and> \<not> mhas (it_topics st) t)" by force
  with f(2) lt show "tch \<longleftrightarrow> (\<exists>t\<in>fst ` set (it_topics st). \<not> mhas topics t) \<or> (\<exists>(t, types)\<in>set topics. \<not> excluded cfg t types \<and> \<not> mhas (it_topics st) t)"
    by simp
qed

text \<open>The reports and the automatic stop change nothing of what is known and start no processing.\<close>

definition known :: "intro \<Rightarrow> (string, node_info) omap \<times> (string, string) omap \<times> (string, string) omap \<times> (string, docker_status) omap" where
  "known st = (it_nodes st, it_topics st, it_idls st, it_docker st)"

lemma known_update [simp]:
  "known (st\<lparr>it_running := b\<rparr>) = known st" "known (st\<lparr>it_progress := b\<rparr>) = known st" "known (st\<lparr>it_start := x\<rparr>) = known st"
  by (simp_all add: known_def)

lemma frame_reports [simp, intro]:
  "frameA known (reportIDLs g)" "frameA known (reportNodes g)" "frameA known (reportDocker g)" "frameA known (reportRunningState g)"
  by (auto simp: reportIDLs_def reportNodes_def reportDocker_def reportRunningState_def intro_emit_def intro!: frame_rules)

lemma frame_finish [simp, intro]: "frameA known (finish_round g cfg f)" "frameA known (intro_stop g)" "frameA known (intro_start g cfg)"
  by (auto simp: finish_round_def auto_stop_def intro_stop_def intro_start_def intro!: frame_rules frameA_mod)

lemma finish_round_run:
  assumes "finish_round g cfg (nch, tch, ich, sch) st = (Inr (), out, st')"
  shows "Process_all \<in> set out \<longleftrightarrow> tch" "\<not> it_progress st'" "known st' = known st"
proof -
  show "Process_all \<in> set out \<longleftrightarrow> tch" "\<not> it_progress st'"
    using assms
    by (auto simp: finish_round_def auto_stop_def intro_stop_def reportIDLs_def reportNodes_def reportRunningState_def intro_emit_def
        ifA_def bindA_Inr_iff thenA_Inr_iff act_Inr_iffs split: if_splits)
  show "known st' = known st" using frame_finish(1) assms by (rule frameAD)
qed

lemma runIntrospection_run:
  assumes "runIntrospection g cfg st = (Inr (), out, st')" "it_running st" "\<not> it_progress st" "g_nodes g = Some names" "g_topics g = Some topics"
  obtains f st1 where "observe g cfg names (st\<lparr>it_progress := True\<rparr>) = Inr (Some f, st1)" "finish_round g cfg f st1 = (Inr (), out, st')"
proof -
  from assms obtain flags st1 out2 where o: "observe g cfg names (st\<lparr>it_progress := True\<rparr>) = Inr (flags, st1)"
    and r: "(case flags of None \<Rightarrow> modA (\<lambda>st. st\<lparr>it_progress := False\<rparr>) | Some f \<Rightarrow> finish_round g cfg f) st1 = (Inr (), out2, st')" "out = out2"
    by (auto simp: runIntrospection_def ifA_def bindA_Inr_iff thenA_Inr_iff act_Inr_iffs split: prod.splits)
  from o assms(5) obtain f where "flags = Some f" by (rule observe_InrE [OF _ _ refl])
  with o r that show thesis by simp
qed

text \<open>C7. After a completed round the bridge knows exactly the topics of the graph that are not excluded, each with the
  type it had when it was first seen; and the peers are processed again exactly if the set of known topics
  changed.\<close>

theorem round_follows_topics:
  assumes "runIntrospection g cfg st = (Inr (), out, st')" "it_running st" "\<not> it_progress st"
    and "g_nodes g = Some names" "g_topics g = Some topics" "distinct (map fst topics)"
  shows "(\<forall>t. getTopic t st' = (case map_of topics t of None \<Rightarrow> []
      | Some types \<Rightarrow> if mhas (it_topics st) t then getTopic t st else if excluded cfg t types then [] else hd types)) \<and>
    (Process_all \<in> set out \<longleftrightarrow> fst ` set (it_topics st') \<noteq> fst ` set (it_topics st)) \<and> \<not> it_progress st'"
proof -
  from runIntrospection_run [OF assms(1-5)] obtain nch tch ich sch st1 where
    r: "observe g cfg names (st\<lparr>it_progress := True\<rparr>) = Inr (Some (nch, tch, ich, sch), st1)"
    "finish_round g cfg (nch, tch, ich, sch) st1 = (Inr (), out, st')" by (metis prod_cases4)
  note fin = finish_round_run [OF r(2)]
  have same: "it_topics (st\<lparr>it_progress := True\<rparr>) = it_topics st" by simp
  note top = observe_topics [OF r(1) assms(5,6), unfolded same]
  have t1: "it_topics st' = it_topics st1" using fin(3) by (simp add: known_def)
  have m: "map_of (it_topics st') t = (case map_of topics t of None \<Rightarrow> None
      | Some types \<Rightarrow> if mhas (it_topics st) t then map_of (it_topics st) t else if excluded cfg t types then None else Some (hd types))" for t
    using top(1) t1 by simp
  have k: "u \<in> fst ` set (it_topics st') \<longleftrightarrow> mhas topics u \<and> (mhas (it_topics st) u \<or> (\<exists>types. map_of topics u = Some types \<and> \<not> excluded cfg u types))" for u
    unfolding mhas_iff [symmetric] mhas_def m by (auto simp: mhas_def split: option.splits if_splits)
  have ex: "(\<exists>(t, types)\<in>set topics. \<not> excluded cfg t types \<and> \<not> mhas (it_topics st) t) \<longleftrightarrow>
      (\<exists>t types. map_of topics t = Some types \<and> \<not> excluded cfg t types \<and> \<not> mhas (it_topics st) t)"
    using assms(6) by (auto simp: map_of_eq_Some_iff)
  have known: "u \<in> fst ` set (it_topics st) \<longleftrightarrow> mhas (it_topics st) u" for u by (simp add: mhas_iff)
  have "fst ` set (it_topics st') \<noteq> fst ` set (it_topics st) \<longleftrightarrow>
      (\<exists>u\<in>fst ` set (it_topics st). u \<notin> fst ` set (it_topics st')) \<or> (\<exists>u\<in>fst ` set (it_topics st'). u \<notin> fst ` set (it_topics st))" by auto
  also have "\<dots> \<longleftrightarrow> (\<exists>t\<in>fst ` set (it_topics st). \<not> mhas topics t) \<or>
      (\<exists>t types. map_of topics t = Some types \<and> \<not> excluded cfg t types \<and> \<not> mhas (it_topics st) t)"
    unfolding Bex_def k known by (auto simp: mhas_def)
  finally have "tch \<longleftrightarrow> fst ` set (it_topics st') \<noteq> fst ` set (it_topics st)" using top(2) unfolding ex by simp
  with fin(1,2) m show ?thesis by (auto simp: getTopic_def mhas_def split: option.splits)
qed

section \<open>Results of the QoS check that get lost\<close>

lemma map_of_mupd: "map_of (mupd k f m) x = (if x = k then map_option f (map_of m k) else map_of m x)"
  by (simp add: mupd_def split: option.splits)

lemma map_of_map_val: "map_of (map (\<lambda>(k, v). (k, f v)) m) x = map_option f (map_of m x)"
  by (induction m) auto

definition clean :: "(string, sub_topic) omap \<Rightarrow> bool" where
  "clean subs = list_all (\<lambda>(t, i). list_all (\<lambda>q. sq_error q = [] \<and> sq_warning q = []) (st_qos i)) subs"

text \<open>The node while the topics are gone through: old subscriptions \<open>old\<close>, nothing marked in the new ones.\<close>

definition pending :: "string \<Rightarrow> (string, sub_topic) omap \<Rightarrow> (string, node_info) omap \<Rightarrow> bool" where
  "pending n old nodes = (\<exists>d. map_of nodes n = Some d \<and> nd_subs d = old \<and> \<not> nd_check d \<and> clean (nd_tmp_subs d))"

lemma clean_mput: "clean m \<Longrightarrow> list_all (\<lambda>q. sq_error q = [] \<and> sq_warning q = []) (st_qos i) \<Longrightarrow> clean (mput t i m)"
  unfolding clean_def by (induction t i m rule: mput.induct) auto

lemma clean_lookup: "clean m \<Longrightarrow> map_of m t = Some i \<Longrightarrow> list_all (\<lambda>q. sq_error q = [] \<and> sq_warning q = []) (st_qos i)"
  unfolding clean_def by (induction m) (auto split: if_splits)

lemma find_nodes_pending:
  assumes "n \<in> fst ` set seen" "map_of nodes n = Some d"
  shows "pending n (nd_subs d) (snd (fold find_node seen (b, nodes)))"
proof -
  let ?r = "\<lambda>d. d\<lparr>nd_tmp_pubs := [], nd_tmp_subs := [], nd_check := False\<rparr>"
  have "map_of (snd (fold find_node xs (b, m))) n = (if n \<in> fst ` set xs then Some (?r e) else Some e)"
    if "map_of m n = Some e" for xs m e b
    using that
  proof (induction xs arbitrary: m e b)
    case Nil
    then show ?case by simp
  next
    case (Cons x xs)
    obtain k ns b' m' where x: "x = (k, ns)" "find_node x (b, m) = (b', m')" by (metis surj_pair)
    have "map_of m' n = (if n = k then Some (?r e) else Some e)"
      using x Cons.prems by (auto simp: find_node_def map_of_mupd memplace_def split: option.splits)
    with Cons.IH [of m' "if n = k then ?r e else e" b'] x show ?case by (auto split: if_splits)
  qed
  from this [OF assms(2), of seen b] assms(1) show ?thesis by (simp add: pending_def clean_def)
qed

lemma pending_mupd:
  assumes "pending n old nodes" "\<And>d. nd_subs (f d) = nd_subs d" "\<And>d. nd_check (f d) = nd_check d"
    and "\<And>d. clean (nd_tmp_subs d) \<Longrightarrow> clean (nd_tmp_subs (f d))"
  shows "pending n old (mupd k f nodes)"
  using assms by (auto simp: pending_def map_of_mupd)

lemma clean_mupd: "clean m \<Longrightarrow> (\<And>i. map_of m t = Some i \<Longrightarrow> list_all (\<lambda>q. sq_error q = [] \<and> sq_warning q = []) (st_qos (f i))) \<Longrightarrow> clean (mupd t f m)"
  by (auto simp: mupd_def clean_mput split: option.splits)

lemma endpoints_pending: "pending n old nodes \<Longrightarrow> pending n old (endpoints g t ty nodes)"
proof -
  have p: "pending n old (add_pub t ty x nodes)" if "pending n old nodes" for x nodes
    unfolding add_pub_def by (rule pending_mupd [OF that]) simp_all
  have s: "pending n old (add_sub t ty x nodes)" if "pending n old nodes" for x nodes
    unfolding add_sub_def Let_def
    by (rule pending_mupd [OF that])
      (auto simp: memplace_def intro!: clean_mput clean_mupd split: option.splits dest: clean_lookup)
  have fp: "pending n old (fold (add_pub t ty) xs nodes)" if "pending n old nodes" for xs nodes
    using that by (rule fold_invariant_set) (rule p)
  have fs: "pending n old (fold (add_sub t ty) xs nodes)" if "pending n old nodes" for xs nodes
    using that by (rule fold_invariant_set) (rule s)
  assume "pending n old nodes"
  then show ?thesis by (cases "g_pubs g t"; cases "g_subs g t") (simp_all add: endpoints_def fp fs)
qed

lemma topic_turn_nodes:
  assumes "topic_turn g cfg (t, types) (tch, ich, st) = Inr (tch', ich', st')"
  shows "it_nodes st' = it_nodes st \<or> it_nodes st' = endpoints g t (hd types) (it_nodes st)"
  using assms by (cases types) (auto simp: topic_turn_def res_simps split: if_splits)

lemma topics_pending:
  assumes "foldR (topic_turn g cfg) topics s = Inr s'" "pending n old (it_nodes (snd (snd s)))"
  shows "pending n old (it_nodes (snd (snd s')))"
  using assms
proof (rule foldR_invariant [where P = "\<lambda>s. pending n old (it_nodes (snd (snd s)))"])
  fix x and s t :: "bool \<times> bool \<times> intro"
  assume a: "pending n old (it_nodes (snd (snd s)))" "topic_turn g cfg x s = Inr t"
  obtain u types where x: "x = (u, types)" by force
  obtain b1 b2 st where s: "s = (b1, b2, st)" by (rule prod_cases3)
  obtain c1 c2 st' where t: "t = (c1, c2, st')" by (rule prod_cases3)
  from topic_turn_nodes [of g cfg u types b1 b2 st c1 c2 st'] a(2) x s t
  have "it_nodes st' = it_nodes st \<or> it_nodes st' = endpoints g u (hd types) (it_nodes st)" by simp
  with a(1) show "pending n old (it_nodes (snd (snd t)))" by (auto simp: s t intro: endpoints_pending)
qed

text \<open>The services change nothing else of a node.\<close>

lemma service_turn_nodes:
  assumes "service_turn g cfg k srv (sch, ich, st) = Inr (sch', ich', st')"
  shows "it_nodes st' = it_nodes st \<or> (\<exists>f. it_nodes st' = mupd k (\<lambda>d. d\<lparr>nd_services := f d\<rparr>) (it_nodes st))"
proof -
  obtain name types where srv: "srv = (name, types)" by force
  from assms show ?thesis unfolding srv service_turn_def Let_def
    by (cases types) (auto simp: res_simps split: if_splits)
qed

definition subs_of :: "string \<Rightarrow> (string, node_info) omap \<Rightarrow> (string, sub_topic) omap option" where
  "subs_of n nodes = map_option nd_subs (map_of nodes n)"

lemma services_subs:
  assumes "foldR (services_of_node g cfg) ns s = Inr s'"
  shows "subs_of n (it_nodes (snd (snd s'))) = subs_of n (it_nodes (snd (snd s)))"
proof -
  have one: "subs_of n (it_nodes (snd (snd t))) = subs_of n (it_nodes (snd (snd s)))" if "service_turn g cfg k srv s = Inr t" for k srv s t
  proof -
    obtain b1 b2 st where s: "s = (b1, b2, st)" by (rule prod_cases3)
    obtain c1 c2 st' where t: "t = (c1, c2, st')" by (rule prod_cases3)
    from service_turn_nodes [of g cfg k srv b1 b2 st c1 c2 st'] that s t
    have "it_nodes st' = it_nodes st \<or> (\<exists>f. it_nodes st' = mupd k (\<lambda>d. d\<lparr>nd_services := f d\<rparr>) (it_nodes st))" by simp
    then show ?thesis by (auto simp: subs_of_def s t map_of_mupd option.map_comp comp_def)
  qed
  have node: "subs_of n (it_nodes (snd (snd t))) = subs_of n (it_nodes (snd (snd s)))" if "services_of_node g cfg x s = Inr t" for x s t
  proof (cases "g_services g (fst x) (snd x)")
    case None
    with that show ?thesis by (simp add: services_of_node_def)
  next
    case (Some ss)
    with that have "foldR (service_turn g cfg (fst x)) ss s = Inr t" by (simp add: services_of_node_def)
    then show ?thesis
      by (rule foldR_invariant [where P = "\<lambda>t. subs_of n (it_nodes (snd (snd t))) = subs_of n (it_nodes (snd (snd s)))"])
        (auto dest: one)
  qed
  from assms show ?thesis
    by (rule foldR_invariant [where P = "\<lambda>t. subs_of n (it_nodes (snd (snd t))) = subs_of n (it_nodes (snd (snd s)))"])
      (auto dest: node)
qed

section \<open>Unchanged subscriptions\<close>

text \<open>What the code compares of the subscriptions of a node.\<close>

definition sub_view :: "(string, sub_topic) omap \<Rightarrow> (string \<times> string \<times> ros_qos list) list" where
  "sub_view subs = map (\<lambda>(t, i). (t, st_type i, map sq_qos (st_qos i))) subs"

lemma sub_view_lookup: "map_of (sub_view subs) t = map_option (\<lambda>i. (st_type i, map sq_qos (st_qos i))) (map_of subs t)"
  unfolding sub_view_def by (rule map_of_map_val)

lemma subs_changed_view:
  assumes "sub_view (nd_tmp_subs d) = sub_view (nd_subs d)" "distinct (map fst (nd_subs d))"
  shows "\<not> subs_changed d"
proof -
  have l: "map_option (\<lambda>i. (st_type i, map sq_qos (st_qos i))) (map_of (nd_tmp_subs d) t) =
      map_option (\<lambda>i. (st_type i, map sq_qos (st_qos i))) (map_of (nd_subs d) t)" for t
    using arg_cong [OF assms(1), of "\<lambda>m. map_of m t"] by (simp add: sub_view_lookup)
  have k: "mhas (nd_tmp_subs d) t = mhas (nd_subs d) t" for t
    using arg_cong [OF l, of "\<lambda>x. x = None" t] by (simp add: mhas_def)
  have "mhas (nd_subs d) t" if "(t, i) \<in> set (nd_tmp_subs d)" for t i
  proof -
    have "mhas (nd_tmp_subs d) t" using that by (force simp: mhas_iff)
    with k show ?thesis by simp
  qed
  moreover have "\<exists>tmp. map_of (nd_tmp_subs d) t = Some tmp \<and> st_type tmp = st_type old \<and> map sq_qos (st_qos tmp) = map sq_qos (st_qos old)"
    if "(t, old) \<in> set (nd_subs d)" for t old
    using l [of t] map_of_is_SomeI [OF assms(2) that] by (auto split: option.splits)
  ultimately have "\<not> list_ex (\<lambda>(t, i). \<not> mhas (nd_subs d) t) (nd_tmp_subs d)"
    "\<not> list_ex (\<lambda>(t, old). case map_of (nd_tmp_subs d) t of None \<Rightarrow> True
        | Some tmp \<Rightarrow> st_type tmp \<noteq> st_type old \<or> map sq_qos (st_qos tmp) \<noteq> map sq_qos (st_qos old)) (nd_subs d)"
    by (fastforce simp: list_ex_iff)+
  then show ?thesis unfolding subs_changed_def by blast
qed

lemma check_keeps_view: "sub_view (nd_subs (checkSubscriberQos g nodes d)) = sub_view (nd_subs d)"
proof -
  have "sq_qos (shown q rs) = sq_qos q" for q rs by (simp add: shown_def)
  then have "sq_qos (check_sub g nodes t q) = sq_qos q" for t q by (simp add: check_sub_shown)
  then show ?thesis by (simp add: sub_view_def checkSubscriberQos_def split_beta comp_def)
qed

lemma update_nodes_lookup: "map_of (it_nodes (snd (update_nodes st))) n = map_option update_node (map_of (it_nodes st) n)"
  by (simp add: update_nodes_def map_of_map_val)

lemma check_nodes_lookup:
  "map_of (it_nodes (check_nodes g st)) n =
     map_option (\<lambda>d. if nd_check d then (checkSubscriberQos g (it_nodes st) d)\<lparr>nd_check := False\<rparr> else d) (map_of (it_nodes st) n)"
  unfolding check_nodes_def
  by (simp add: map_of_map_val [where f = "\<lambda>d. if nd_check d then (checkSubscriberQos g (it_nodes st) d)\<lparr>nd_check := False\<rparr> else d"])

lemma observe_unchanged:
  assumes "observe g cfg names st = Inr (Some f, st')" "g_topics g = Some topics"
    and "map_of (it_nodes st) n = Some d" "mhas (nodes_and_namespaces names) n"
    and "subs_of n (it_nodes st') = Some subs" "distinct (map fst (nd_subs d))" "sub_view subs = sub_view (nd_subs d)"
  shows "clean subs"
proof -
  let ?seen = "nodes_and_namespaces names"
  define st1 where "st1 = snd (lose_nodes ?seen st)"
  define st2 where "st2 = snd (find_nodes ?seen st1)"
  have "map_of (it_nodes st1) n = Some d"
    using assms(3,4) by (simp add: st1_def lose_nodes_def Let_def map_of_filter_key)
  then have p2: "pending n (nd_subs d) (it_nodes st2)"
    using assms(4) find_nodes_pending [of n ?seen "it_nodes st1" d False]
    by (simp add: st2_def find_nodes_def mhas_iff split_beta)
  obtain tch ich4 st4 found idls sch ich nch where
    s4: "foldR (topic_turn g cfg) topics (fst (lose_topics topics st2), False, snd (lose_topics topics st2)) = Inr (tch, ich4, st4)"
    and s6: "foldR (services_of_node g cfg) (map (\<lambda>(n, d). (n, nd_ns d)) (it_nodes (check_nodes g (snd (update_nodes st4)))))
       (False, found \<or> ich4, (check_nodes g (snd (update_nodes st4)))\<lparr>it_idls := idls\<rparr>) = Inr (sch, ich, st')"
    using assms(1,2) st2_def [unfolded st1_def] by (rule observe_InrE)
  have "pending n (nd_subs d) (it_nodes st4)" using topics_pending [OF s4, of n "nd_subs d"] p2 by (simp add: lose_topics_def)
  then obtain d4 where d4: "map_of (it_nodes st4) n = Some d4" "nd_subs d4 = nd_subs d" "\<not> nd_check d4" "clean (nd_tmp_subs d4)"
    by (auto simp: pending_def)
  let ?u = "update_node d4" and ?nodes = "it_nodes (snd (update_nodes st4))"
  have "subs_of n (it_nodes st') = subs_of n (it_nodes (check_nodes g (snd (update_nodes st4))))" using services_subs [OF s6] by simp
  also have "\<dots> = Some (nd_subs (if nd_check ?u then checkSubscriberQos g ?nodes ?u else ?u))"
    using d4(1) by (simp add: subs_of_def check_nodes_lookup update_nodes_lookup)
  finally have subs: "subs = nd_subs (if nd_check ?u then checkSubscriberQos g ?nodes ?u else ?u)" using assms(5) by simp
  have "sub_view subs = sub_view (nd_tmp_subs d4)" unfolding subs by (simp add: check_keeps_view) (simp add: update_node_def)
  with assms(6,7) d4(2) have "\<not> subs_changed d4" by (intro subs_changed_view) simp_all
  then have "subs = nd_tmp_subs d4" using d4(3) by (simp add: subs update_node_def)
  with d4(4) show ?thesis by simp
qed

text \<open>C34. A node whose subscriptions are as in the round before is reported without any error or warning on their QoS,
  whether they are compatible or not: what the check found is shown only after the round in which the
  subscriptions appeared or changed.\<close>

theorem unchanged_node_shows_no_error:
  assumes "runIntrospection g cfg st = (Inr (), out, st')" "it_running st" "\<not> it_progress st"
    and "g_nodes g = Some names" "g_topics g = Some topics"
    and "map_of (it_nodes st) n = Some d" "mhas (nodes_and_namespaces names) n" "map_of (it_nodes st') n = Some d'"
    and "distinct (map fst (nd_subs d))" "sub_view (nd_subs d') = sub_view (nd_subs d)"
  shows "clean (nd_subs d')"
proof -
  from runIntrospection_run [OF assms(1-5)] obtain f st1 where
    r: "observe g cfg names (st\<lparr>it_progress := True\<rparr>) = Inr (Some f, st1)" "finish_round g cfg f st1 = (Inr (), out, st')" .
  have "known st' = known st1" using frame_finish(1) r(2) by (rule frameAD)
  with assms(8) have "subs_of n (it_nodes st1) = Some (nd_subs d')" by (simp add: known_def subs_of_def)
  with observe_unchanged [OF r(1) assms(5), of n d] assms show ?thesis by simp
qed

section \<open>Changes that are never reported\<close>

text \<open>When the topics cannot be had the round ends, and the nodes it has already removed and added are not reported.\<close>

lemma failed_round_silent:
  assumes "it_running st" "\<not> it_progress st" "g_nodes g = Some names" "g_topics g = None"
  shows "effects (runIntrospection g cfg st) = []"
    "it_nodes (final (runIntrospection g cfg st)) =
       it_nodes (snd (find_nodes (nodes_and_namespaces names) (snd (lose_nodes (nodes_and_namespaces names) st))))"
  using assms
  by (simp_all add: runIntrospection_def observe_def Let_def ifA_def bindA_def thenA_def getA_def modA_def liftA_def retA_def split_beta
      lose_nodes_def find_nodes_def)

text \<open>A new Docker host that reports a container known from another one: the loop over the hosts goes on with the one
  it has erased.\<close>

lemma docker_undefined_iff:
  "result (onDockerMonitorMessage g cfg d st) = Inl Ub \<longleftrightarrow>
     map_of (it_docker st) (docker_host d) = None \<and> host_renamed d (it_docker st)"
  by (auto simp: onDockerMonitorMessage_def reportDocker_def intro_start_def reportRunningState_def intro_emit_def
      ifA_def bindA_def thenA_def getA_def modA_def liftA_def retA_def emitA_def split: option.splits if_splits)

section \<open>Examples\<close>

text \<open>Two nodes; the subscriber asks for more than the publisher offers.\<close>

definition offered :: ros_qos where
  "offered = \<lparr>rq_depth = 1, rq_history = 1, rq_reliability = 2, rq_durability = 2, rq_lifespan = None, rq_deadline = None, rq_rest = 0\<rparr>"

definition wanted :: ros_qos where
  "wanted = offered\<lparr>rq_reliability := 1\<rparr>"

definition sample_graph :: graph where
  "sample_graph = \<lparr>g_nodes = Some [''/a/talker'', ''listener''], g_topics = Some [(''/chat'', [''p/msg/A'']), (''/odom'', [''p/msg/B''])],
     g_pubs = (\<lambda>t. Some (if t = ''/chat'' then [(''talker'', offered)] else [])),
     g_subs = (\<lambda>t. Some (if t = ''/chat'' then [(''listener'', wanted)] else [])),
     g_services = (\<lambda>_ _. Some []),
     g_compatible = (\<lambda>p s. if rq_reliability p = 2 \<and> rq_reliability s = 1 then (Qos_error, ''reliability'') else (Qos_ok, [])),
     g_package = (\<lambda>p. if p = ''p'' then Some ''/opt'' else None),
     g_exists = (\<lambda>f. f = ''/opt/share/p/msg/A.idl'' \<or> f = ''/opt/share/p/msg/B.idl''),
     g_read = (\<lambda>f. if f = ''/opt/share/p/msg/A.idl'' then ''#include p/msg/B.idl'' else ''#include p/msg/A.idl''),
     g_now = 0, g_expired = (\<lambda>_ _. False), g_positive = (\<lambda>_. False), g_uint = (\<lambda>_. 3), g_sio = True\<rparr>"

definition sample_start :: intro where
  "sample_start = (fst (construct_intro (empty_config :: jvalue bridge_config)))\<lparr>it_running := True\<rparr>"

definition sample_round :: "intro \<Rightarrow> unit res \<times> intro_effect list \<times> intro" where
  "sample_round st = runIntrospection sample_graph (empty_config :: jvalue bridge_config) st"

lemma path_length: "length t \<le> length (path_append a t)"
  by (simp add: path_append_def)

lemma sample_finite: "finite {t. getInterfaceIDLPath sample_graph t \<noteq> []}"
proof (rule finite_subset)
  show "finite {t::string. set t \<subseteq> UNIV \<and> length t \<le> 22}" by (rule finite_lists_length_le) simp
  have "length t \<le> 22" if t: "getInterfaceIDLPath sample_graph t \<noteq> []" for t
  proof -
    obtain pre where "g_package sample_graph (split t CHR ''/'' ! 0) = Some pre"
      using t by (auto simp: getInterfaceIDLPath_def Let_def split: if_splits option.splits)
    then have "getInterfaceIDLPath sample_graph t = [] \<or> g_exists sample_graph (path_append (path_append pre ''share'') t) \<or>
        g_exists sample_graph (path_append (path_append pre ''share'') t @ ''.idl'')"
      by (simp add: getInterfaceIDLPath_def Let_def)
    with t obtain path where "g_exists sample_graph path" "length (path_append (path_append pre ''share'') t) \<le> length path" by force
    moreover from this(1) have "length path = 22" by (auto simp: sample_graph_def)
    ultimately show ?thesis using path_length [of t "path_append pre ''share''"] by simp
  qed
  then show "{t. getInterfaceIDLPath sample_graph t \<noteq> []} \<subseteq> {t. set t \<subseteq> UNIV \<and> length t \<le> 22}" by auto
qed

theorem collect_idls_complete_witness:
  "\<exists>found idls'. collectIDLs sample_graph (empty_config :: jvalue bridge_config) ''p/msg/A'' [] = Inr (found, idls') \<and>
     settled sample_graph [] idls' ''p/msg/A'' \<and> idls_closed sample_graph [] idls'"
proof -
  have bl: "cf_blacklist_msg_types (empty_config :: jvalue bridge_config) = []" by (simp add: empty_config_def)
  have "idls_closed sample_graph (cf_blacklist_msg_types (empty_config :: jvalue bridge_config)) []"
    by (simp add: idls_closed_def mhas_def)
  from collect_idls_complete [OF sample_finite this, of "''p/msg/A''"] show ?thesis unfolding bl by blast
qed

lemma sample_round_runs:
  "result (sample_round sample_start) = Inr ()" "result (sample_round (final (sample_round sample_start))) = Inr ()"
  by code_simp+

theorem round_follows_topics_witness:
  "\<exists>out st'. sample_round sample_start = (Inr (), out, st') \<and> getTopic ''/chat'' st' = ''p/msg/A'' \<and> Process_all \<in> set out"
proof -
  obtain out st' where r: "sample_round sample_start = (Inr (), out, st')"
    using sample_round_runs(1) by (cases "sample_round sample_start") auto
  have g: "it_running sample_start" "\<not> it_progress sample_start" "g_nodes sample_graph = Some [''/a/talker'', ''listener'']"
    "g_topics sample_graph = Some [(''/chat'', [''p/msg/A'']), (''/odom'', [''p/msg/B''])]"
    "distinct (map fst [(''/chat'', [''p/msg/A'']), (''/odom'', [''p/msg/B''])])"
    by (simp_all add: sample_start_def construct_intro_def sample_graph_def)
  note f = round_follows_topics [OF r [unfolded sample_round_def] g]
  have "getTopic ''/chat'' st' = ''p/msg/A''"
    using f by (simp add: sample_start_def construct_intro_def mhas_def excluded_def empty_config_def)
  moreover from this have "fst ` set (it_topics st') \<noteq> fst ` set (it_topics sample_start)"
    by (auto simp: sample_start_def construct_intro_def getTopic_def)
  ultimately show ?thesis using f r by blast
qed

theorem unchanged_node_shows_no_error_witness:
  "\<exists>out st' d'. sample_round (final (sample_round sample_start)) = (Inr (), out, st') \<and>
     map_of (it_nodes st') ''listener'' = Some d' \<and> clean (nd_subs d') \<and> bad_answers sample_graph wanted [offered] \<noteq> []"
proof -
  let ?st = "final (sample_round sample_start)"
  obtain out st' where r: "sample_round ?st = (Inr (), out, st')"
    using sample_round_runs(2) by (cases "sample_round ?st") auto
  have g: "it_running ?st" "\<not> it_progress ?st" by code_simp+
  have n: "g_nodes sample_graph = Some [''/a/talker'', ''listener'']" "g_topics sample_graph = Some [(''/chat'', [''p/msg/A'']), (''/odom'', [''p/msg/B''])]"
    by (simp_all add: sample_graph_def)
  have same: "map_option (\<lambda>d. (map fst (nd_subs d), sub_view (nd_subs d))) (map_of (it_nodes ?st) ''listener'') =
      Some ([''/chat''], [(''/chat'', ''p/msg/A'', [wanted])])" by code_simp
  have "map_option (\<lambda>d. sub_view (nd_subs d)) (map_of (it_nodes (final (sample_round ?st))) ''listener'') =
      Some [(''/chat'', ''p/msg/A'', [wanted])]" by code_simp
  with r have after: "map_option (\<lambda>d. sub_view (nd_subs d)) (map_of (it_nodes st') ''listener'') = Some [(''/chat'', ''p/msg/A'', [wanted])]" by simp
  from same obtain d where d: "map_of (it_nodes ?st) ''listener'' = Some d" "map fst (nd_subs d) = [''/chat'']"
    "sub_view (nd_subs d) = [(''/chat'', ''p/msg/A'', [wanted])]" by auto
  from after obtain d' where d': "map_of (it_nodes st') ''listener'' = Some d'" "sub_view (nd_subs d') = sub_view (nd_subs d)"
    using d(3) by auto
  have seen: "mhas (nodes_and_namespaces [''/a/talker'', ''listener'']) ''listener''" by code_simp
  have dist: "distinct (map fst (nd_subs d))" by (simp add: d(2))
  have "clean (nd_subs d')"
    by (rule unchanged_node_shows_no_error [OF r [unfolded sample_round_def [of ?st]] g n d(1) seen d'(1) dist d'(2)])
  moreover have "bad_answers sample_graph wanted [offered] \<noteq> []" by code_simp
  ultimately show ?thesis using r d'(1) by blast
qed

end
