(* ===== verification/BridgeLaws.thy ===== *)
theory BridgeLaws
  imports Bridge IntroLaws
begin

text \<open>
  What holds of the bridge along every sequence of events, threads, rounds of introspection and losses of the
  connection; how events of unknown peers are answered; what a second connection of a peer leaves behind.
\<close>

section \<open>Actions of one peer\<close>

text \<open>What no action of a peer object changes, but for its disconnection.\<close>

definition good_requests :: "peer \<Rightarrow> bool" where
  "good_requests p = (distinct (pe_read p) \<and> distinct (map fst (pe_write p)))"

definition peer_is :: "string \<Rightarrow> bool \<Rightarrow> peer \<times> hub \<Rightarrow> bool" where
  "peer_is i c s = (pe_id (peer_of s) = i \<and> pe_connected (peer_of s) = c \<and> good_requests (peer_of s))"

definition steady :: "'a pact \<Rightarrow> bool" where
  "steady m = (\<forall>i c. keepsA (peer_is i c) m)"

lemma steadyD: "steady m \<Longrightarrow> keepsA (peer_is i c) m"
  by (simp add: steady_def)

lemma steady_frame: "frame_wishes m \<Longrightarrow> steady m"
proof -
  assume "frame_wishes m"
  then have "keepsA (\<lambda>s. case wishes (peer_of s) of (r, w, c', i') \<Rightarrow> i' = i \<and> c' = c \<and> distinct r \<and> distinct (map fst w)) m" for i c
    by (rule frameA_keepsA)
  then show ?thesis by (simp add: steady_def peer_is_def wishes_def good_requests_def [abs_def] peer_is_def [abs_def])
qed

lemma steady_bind: "steady m \<Longrightarrow> (\<And>x. steady (f x)) \<Longrightarrow> steady (bindA m f)"
  by (simp add: steady_def keepsA_bind)

lemma steady_then: "steady m \<Longrightarrow> steady n \<Longrightarrow> steady (thenA m n)"
  by (simp add: steady_def keepsA_then)

lemma steady_for: "(\<And>x a. steady (f x a)) \<Longrightarrow> steady (forA f xs a)"
  by (simp add: steady_def keepsA_for)

lemma steady_if: "steady m \<Longrightarrow> steady n \<Longrightarrow> steady (if b then m else n)"
  by simp

lemma steady_basic: "steady (retA x)" "steady (liftA r)" "steady (emitA out)" "steady (get_peer f)"
  by (simp_all add: steady_def get_peer_def)

lemma steady_on_peer:
  "(\<And>p. pe_id (f p) = pe_id p \<and> pe_connected (f p) = pe_connected p \<and> (good_requests p \<longrightarrow> good_requests (f p))) \<Longrightarrow> steady (on_peer f)"
  by (auto simp: steady_def on_peer_def peer_is_def intro!: keepsA_mod)

lemma steady_option: "steady m \<Longrightarrow> (\<And>x. steady (f x)) \<Longrightarrow> steady (case y of None \<Rightarrow> m | Some x \<Rightarrow> f x)"
  by (simp split: option.splits)

lemmas steady_rules = steady_bind steady_then steady_for steady_if steady_option steady_basic

lemma request_steps:
  "good_requests p \<longrightarrow> good_requests (snd (addReqRead t p))" "good_requests p \<longrightarrow> good_requests (snd (removeReqRead t p))"
  "good_requests p \<longrightarrow> good_requests (snd (addReqWrite t ty p))" "good_requests p \<longrightarrow> good_requests (snd (removeReqWrite t p))"
proof -
  have r: "pe_read (snd (addReqWrite t ty p)) = pe_read p" "pe_read (snd (removeReqWrite t p)) = pe_read p"
    by (simp_all add: addReqWrite_def removeReqWrite_def split: option.splits)
  show "good_requests p \<longrightarrow> good_requests (snd (addReqRead t p))" "good_requests p \<longrightarrow> good_requests (snd (removeReqRead t p))"
    by (auto simp: good_requests_def addReqRead_def removeReqRead_def)
  show "good_requests p \<longrightarrow> good_requests (snd (addReqWrite t ty p))" "good_requests p \<longrightarrow> good_requests (snd (removeReqWrite t p))"
    using write_requests_map [of p t ty] r by (auto simp: good_requests_def)
qed

lemma request_fields [simp]:
  "pe_id (snd (addReqRead t p)) = pe_id p" "pe_id (snd (removeReqRead t p)) = pe_id p"
  "pe_id (snd (addReqWrite t ty p)) = pe_id p" "pe_id (snd (removeReqWrite t p)) = pe_id p"
  "pe_connected (snd (addReqRead t p)) = pe_connected p" "pe_connected (snd (removeReqRead t p)) = pe_connected p"
  "pe_connected (snd (addReqWrite t ty p)) = pe_connected p" "pe_connected (snd (removeReqWrite t p)) = pe_connected p"
  by (simp_all add: addReqRead_def removeReqRead_def addReqWrite_def removeReqWrite_def split: option.splits)

lemma steady_requests:
  "steady (read_request addReqRead v)" "steady (read_request removeReqRead v)" "steady (read_request removeReqWrite v)"
  "steady (write_request strict v)"
proof -
  have on: "steady (on_peer (\<lambda>p. snd (addReqRead t p)))" "steady (on_peer (\<lambda>p. snd (removeReqRead t p)))"
    "steady (on_peer (\<lambda>p. snd (removeReqWrite t p)))" "steady (on_peer (\<lambda>p. snd (addReqWrite t ty p)))" for t ty
    by (intro steady_on_peer conjI request_fields request_steps)+
  show "steady (read_request addReqRead v)" "steady (read_request removeReqRead v)" "steady (read_request removeReqWrite v)"
    unfolding read_request_def by (intro steady_rules on)+
  have pair: "steady (case a of Array_msg pair \<Rightarrow> f pair | _ \<Rightarrow> retA ())" if "\<And>pair. steady (f pair)" for a f
    using that by (cases a) (simp_all add: steady_basic)
  show "steady (write_request strict v)" unfolding write_request_def by (intro steady_rules pair on)
qed

lemma steady_initial: "steady (initial_requests m)"
  unfolding initial_requests_def
  by (intro steady_rules steady_requests steady_on_peer) (simp_all add: good_requests_def)

lemma steady_construct: "steady (construct env cfg)"
  unfolding construct_def by (intro steady_rules steady_frame [OF frame_create(1)] steady_on_peer) (simp add: good_requests_def)

lemma frame_update_channels: "frame_wishes (update_channels env b r)"
  by (auto simp: update_channels_def open_reads_def open_writes_def close_reads_def close_media_def close_writes_def read_topic_def
      write_topic_def close_read_def close_video_def close_write_def Let_def intro!: frame_rules)

lemma frame_reconnect: "frame_wishes (reconnect env cfg)"
  by (auto simp: reconnect_def intro!: frame_rules frame_on_peer)

lemma steady_process: "steady (processSubscriptionsSync env cfg i ack)"
  unfolding processSubscriptionsSync_def Let_def
  by (intro steady_frame frame_rules frame_get frame_on_peer frame_update_channels frame_reconnect frame_negotiate(1) frame_send_reply(1))
    simp

lemma steady_answers: "steady (onSDPAnswer env m)" "steady (onSIOOfferReply env reply)" "steady (onWRTCInfo m)" "steady (onSignalingState is_stable)"
proof -
  have u: "steady (on_peer (\<lambda>p. p\<lparr>pe_awaiting := b\<rparr>))" "steady (on_peer (\<lambda>p. p\<lparr>pe_restart := b\<rparr>))" for b
    by (rule steady_on_peer, simp add: good_requests_def)+
  show a: "steady (onSDPAnswer env m)" for m unfolding onSDPAnswer_def by (intro steady_rules u)
  show "steady (onSIOOfferReply env reply)" unfolding onSIOOfferReply_def by (intro steady_rules u a)
  show "steady (onWRTCInfo m)" unfolding onWRTCInfo_def by (intro steady_rules u)
  show "steady (onSignalingState is_stable)"
    unfolding onSignalingState_def by (intro steady_frame frame_rules frame_get frame_on_hub)
qed

section \<open>The invariant of the bridge\<close>

text \<open>
  The table holds connected objects under their own ids; no request is listed twice; numbers of objects are below
  the next one.
\<close>

definition bridge_ok :: "bridge \<Rightarrow> bool" where
  "bridge_ok b =
     ((\<forall>i n. map_of (br_peers b) i = Some n \<longrightarrow> (\<exists>p. map_of (br_objs b) n = Some p \<and> pe_id p = i \<and> pe_connected p)) \<and>
      (\<forall>n p. map_of (br_objs b) n = Some p \<longrightarrow> n < br_next b \<and> good_requests p))"

text \<open>What happens over time: numbers are not used again, an object that has left does not come back, and the table takes up
  no object made before.\<close>

definition gone :: "string \<Rightarrow> nat \<Rightarrow> bridge \<Rightarrow> bool" where
  "gone i n b = (\<exists>p. map_of (br_objs b) n = Some p \<and> pe_id p = i \<and> \<not> pe_connected p)"

definition since :: "bridge \<Rightarrow> bridge \<Rightarrow> bool" where
  "since b b' = (br_next b \<le> br_next b' \<and> (\<forall>i n. gone i n b \<longrightarrow> gone i n b') \<and>
     (\<forall>m<br_next b. m \<in> ran (map_of (br_peers b')) \<longrightarrow> m \<in> ran (map_of (br_peers b))))"

lemma since_refl [simp]: "since b b"
  by (simp add: since_def)

lemma since_trans: "since b1 b2 \<Longrightarrow> since b2 b3 \<Longrightarrow> since b1 b3"
  by (fastforce simp: since_def)

lemma since_same: "br_peers b' = br_peers b \<Longrightarrow> br_objs b' = br_objs b \<Longrightarrow> br_next b' = br_next b \<Longrightarrow> since b b'"
  by (simp add: since_def gone_def)

definition okA :: "'a bact \<Rightarrow> bool" where
  "okA m = (\<forall>b r out b'. bridge_ok b \<longrightarrow> m b = (Inr r, out, b') \<longrightarrow> bridge_ok b' \<and> since b b')"

text \<open>The same of every end of an action, its exceptions included.\<close>

definition surely_ok :: "'a bact \<Rightarrow> bool" where
  "surely_ok m = (\<forall>b. bridge_ok b \<longrightarrow> bridge_ok (final (m b)) \<and> since b (final (m b)))"

lemma okA_surely: "surely_ok m \<Longrightarrow> okA m"
  unfolding okA_def surely_ok_def by (metis result_simps(3))

lemma okAD: "okA m \<Longrightarrow> bridge_ok b \<Longrightarrow> m b = (Inr r, out, b') \<Longrightarrow> bridge_ok b'"
  by (simp add: okA_def)

lemma okA_since: "okA m \<Longrightarrow> bridge_ok b \<Longrightarrow> m b = (Inr r, out, b') \<Longrightarrow> since b b'"
  by (simp add: okA_def)

lemma okAI: "(\<And>b r out b'. bridge_ok b \<Longrightarrow> m b = (Inr r, out, b') \<Longrightarrow> bridge_ok b' \<and> since b b') \<Longrightarrow> okA m"
  by (simp add: okA_def)

lemma okA_bind:
  assumes "okA m" "\<And>x. okA (f x)"
  shows "okA (bindA m f)"
proof (rule okAI)
  fix b r out b' assume ok: "bridge_ok b" and run: "bindA m f b = (Inr r, out, b')"
  from run obtain x out1 b1 out2 where st: "m b = (Inr x, out1, b1)" "f x b1 = (Inr r, out2, b')" by (rule bindA_InrE)
  from assms(1) ok st(1) have 1: "bridge_ok b1" "since b b1" by (rule okAD, rule okA_since)
  from assms(2) 1(1) st(2) have "bridge_ok b'" "since b1 b'" by (rule okAD, rule okA_since)
  with 1(2) show "bridge_ok b' \<and> since b b'" by (blast intro: since_trans)
qed

lemma okA_then: "okA m \<Longrightarrow> okA n \<Longrightarrow> okA (thenA m n)"
  by (simp add: thenA_bindA okA_bind)

lemma okA_basic: "okA (retA x)" "okA (liftA r)" "okA (emitA out)" "okA (getA g)"
  by (simp_all add: okA_def act_defs)

lemma okA_mod: "(\<And>b. bridge_ok b \<Longrightarrow> bridge_ok (f b) \<and> since b (f b)) \<Longrightarrow> okA (modA f)"
  by (simp add: okA_def modA_def)

lemma okA_ifA: "okA m \<Longrightarrow> okA (ifA c m)"
  by (simp add: ifA_def okA_basic)

lemma okA_if: "okA m \<Longrightarrow> okA n \<Longrightarrow> okA (if c then m else n)"
  by simp

lemma okA_for: "(\<And>x a. okA (f x a)) \<Longrightarrow> okA (forA f xs a)"
  by (induction xs arbitrary: a) (auto intro: okA_bind okA_basic)

lemma okA_option: "okA m \<Longrightarrow> (\<And>x. okA (f x)) \<Longrightarrow> okA (case y of None \<Rightarrow> m | Some x \<Rightarrow> f x)"
  by (simp split: option.splits)

lemmas okA_rules = okA_bind okA_then okA_ifA okA_if okA_for okA_option okA_basic

lemma surely_on_object:
  assumes "\<And>b. steady (m b)"
  shows "surely_ok (on_object n m)"
  unfolding surely_ok_def
proof (intro allI impI)
  fix b assume ok: "bridge_ok b"
  show "bridge_ok (final (on_object n m b)) \<and> since b (final (on_object n m b))"
  proof (cases "map_of (br_objs b) n")
    case None
    with ok show ?thesis by (simp add: on_object_def)
  next
    case (Some p)
    obtain r out p' h' where run: "m b (p, br_hub b) = (r, out, (p', h'))" by (metis surj_pair)
    have "keepsA (peer_is (pe_id p) (pe_connected p)) (m b)" using assms by (simp add: steady_def)
    moreover have "peer_is (pe_id p) (pe_connected p) (p, br_hub b)" using ok Some by (simp add: peer_is_def bridge_ok_def)
    ultimately have "peer_is (pe_id p) (pe_connected p) (p', h')" using run by (metis keepsAD result_simps(3))
    then have p': "pe_id p' = pe_id p" "pe_connected p' = pe_connected p" "good_requests p'" by (simp_all add: peer_is_def)
    have f: "final (on_object n m b) = b\<lparr>br_objs := mput n p' (br_objs b), br_hub := h'\<rparr>" using Some run by (simp add: on_object_def)
    with ok p' Some have "bridge_ok (final (on_object n m b))" by (fastforce simp: bridge_ok_def)
    moreover have "since b (final (on_object n m b))" using p' Some by (auto simp: f since_def gone_def)
    ultimately show ?thesis by blast
  qed
qed

lemma okA_object: "(\<And>b. steady (m b)) \<Longrightarrow> okA (on_object n m)"
  by (rule okA_surely) (rule surely_on_object)

lemma okA_intro: "okA (on_intro m)"
  by (auto simp: okA_def on_intro_def bridge_ok_def intro!: since_same split: prod.splits)

section \<open>Connections of peers\<close>

text \<open>The object of a peer after it has left: not connected, still under its id.\<close>

lemma onDisconnected_peer:
  assumes "onDisconnected env cfg (p, h) = (Inr (), out, (p', h'))"
  shows "pe_id p' = pe_id p \<and> \<not> pe_connected p' \<and> good_requests p'"
proof -
  let ?q = "p\<lparr>pe_read := [], pe_write := [], pe_connected := False\<rparr>"
  from assms have run: "processSubscriptionsSync env cfg (- 1) None (?q, h) = (Inr (), out, (p', h'))"
    by (auto simp: onDisconnected_def run_iffs)
  have "keepsA (peer_is (pe_id p) False) (processSubscriptionsSync env cfg (- 1) None)"
    by (rule steadyD [OF steady_process])
  moreover have "peer_is (pe_id p) False (?q, h)" by (simp add: peer_is_def good_requests_def)
  ultimately have "peer_is (pe_id p) False (p', h')" using run by (metis keepsAD result_simps(3))
  then show ?thesis by (simp add: peer_is_def)
qed

lemma peer_leaves_Inr:
  assumes "peer_leaves w n b = (Inr (), out, b')"
  obtains p p' h' out1 where "map_of (br_objs b) n = Some p"
    "onDisconnected (peer_env w b) (br_cfg b) (p, br_hub b) = (Inr (), out1, (p', h'))" "out = map (Peer_eff n) out1"
    "b' = b\<lparr>br_objs := mput n p' (br_objs b), br_hub := h', br_peers := mdel (pe_id p') (br_peers b)\<rparr>"
proof -
  from assms obtain out1 b1 where run: "on_object n (\<lambda>b. onDisconnected (peer_env w b) (br_cfg b)) b = (Inr (), out1, b1)"
    and b': "b' = (case map_of (br_objs b1) n of None \<Rightarrow> b1 | Some p \<Rightarrow> b1\<lparr>br_peers := mdel (pe_id p) (br_peers b1)\<rparr>)" "out = out1"
    by (auto simp: peer_leaves_def thenA_Inr_iff act_Inr_iffs)
  from run obtain p r out2 p' h' where "map_of (br_objs b) n = Some p"
    "onDisconnected (peer_env w b) (br_cfg b) (p, br_hub b) = (Inr (), out2, (p', h'))" "out1 = map (Peer_eff n) out2"
    "b1 = b\<lparr>br_objs := mput n p' (br_objs b), br_hub := h'\<rparr>"
    by (auto simp: on_object_def split: option.splits prod.splits)
  with b' that show thesis by simp
qed

lemma okA_leaves: "okA (peer_leaves w n)"
proof (rule okAI)
  fix b r out b' assume ok: "bridge_ok b" and run: "peer_leaves w n b = (Inr r, out, b')"
  from run obtain p p' h' out1 where p: "map_of (br_objs b) n = Some p"
    "onDisconnected (peer_env w b) (br_cfg b) (p, br_hub b) = (Inr (), out1, (p', h'))"
    "b' = b\<lparr>br_objs := mput n p' (br_objs b), br_hub := h', br_peers := mdel (pe_id p') (br_peers b)\<rparr>"
    by (cases r) (auto elim: peer_leaves_Inr)
  have p': "pe_id p' = pe_id p" "good_requests p'" "\<not> pe_connected p'" using onDisconnected_peer [OF p(2)] by simp_all
  have "since b b'" using p'(1,3) p(1) by (auto simp: p(3) since_def gone_def ran_def split: if_splits)
  moreover have "bridge_ok b'" unfolding bridge_ok_def
  proof (intro conjI allI impI)
    fix i k assume "map_of (br_peers b') i = Some k"
    then have ik: "i \<noteq> pe_id p" "map_of (br_peers b) i = Some k" by (auto simp: p(3) p' split: if_splits)
    with ok obtain q where "map_of (br_objs b) k = Some q" "pe_id q = i" "pe_connected q" by (auto simp: bridge_ok_def)
    with ik p show "\<exists>p. map_of (br_objs b') k = Some p \<and> pe_id p = i \<and> pe_connected p" by auto
  next
    fix k q assume "map_of (br_objs b') k = Some q"
    with ok p p' show "k < br_next b'" "good_requests q" by (auto simp: bridge_ok_def split: if_splits)
  qed
  ultimately show "bridge_ok b' \<and> since b b'" by blast
qed

lemma okA_all_leave: "okA (onAllPeersDisconnected w)"
  unfolding onAllPeersDisconnected_def by (intro okA_rules okA_leaves)

lemma new_object_Inr:
  assumes "new_object w i app inst b = (Inr n, out, b')" "bridge_ok b"
  shows "bridge_ok b'" "n = br_next b" "br_peers b' = br_peers b"
    "\<exists>p. map_of (br_objs b') n = Some p \<and> pe_id p = i \<and> pe_connected p"
    "\<And>k. k \<noteq> n \<Longrightarrow> map_of (br_objs b') k = map_of (br_objs b) k" "br_next b' = Suc n"
proof -
  let ?q = "blank_peer i app inst (wd_session w)"
  let ?b = "b\<lparr>br_next := Suc (br_next b), br_objs := mput (br_next b) ?q (br_objs b)\<rparr>"
  from assms(1) have run: "on_object n (\<lambda>b. construct (peer_env w b) (br_cfg b)) ?b = (Inr (), out, b')" and n: "n = br_next b"
    by (auto simp: new_object_def bindA_Inr_iff thenA_Inr_iff act_Inr_iffs)
  have q: "good_requests ?q" "pe_id ?q = i" "pe_connected ?q" by (simp_all add: blank_peer_def good_requests_def)
  have ok: "bridge_ok ?b"
    using assms(2) q(1) by (fastforce simp: bridge_ok_def)
  from run n obtain r out1 p' h' where c: "construct (peer_env w ?b) (br_cfg ?b) (?q, br_hub ?b) = (r, out1, (p', h'))"
    "b' = ?b\<lparr>br_objs := mput n p' (br_objs ?b), br_hub := h'\<rparr>"
    by (auto simp: on_object_def split: prod.splits)
  have "keepsA (peer_is i True) (construct (peer_env w ?b) (br_cfg ?b))" by (rule steadyD [OF steady_construct])
  moreover have "peer_is i True (?q, br_hub ?b)" using q by (simp add: peer_is_def)
  ultimately have "peer_is i True (p', h')" using c(1) by (metis keepsAD result_simps(3))
  then show "\<exists>p. map_of (br_objs b') n = Some p \<and> pe_id p = i \<and> pe_connected p" by (simp add: c(2) peer_is_def)
  show "bridge_ok b'" using okA_object [OF steady_construct] ok run by (rule okAD)
  show "n = br_next b" "br_peers b' = br_peers b" "\<And>k. k \<noteq> n \<Longrightarrow> map_of (br_objs b') k = map_of (br_objs b) k"
    "br_next b' = Suc n" using n c(2) by simp_all
qed

lemma connect_peer_Inr:
  assumes "connect_peer w i ev b = (Inr (), out, b')" "bridge_ok b"
  shows "bridge_ok b'" "since b b'" "br_next b < br_next b'" "br_peers b' = memplace i (br_next b) (br_peers b)"
    "\<exists>p. map_of (br_objs b') (br_next b) = Some p \<and> pe_id p = i \<and> pe_connected p"
    "\<exists>ack. Process (br_next b) (ev_msgId ev) (Some ack) \<in> set out"
proof -
  from assms(1) obtain m app inst n out1 b1 out2 b2 ack where st:
    "new_object w i app inst b = (Inr n, out1, b1)"
    "on_object n (\<lambda>b. initial_requests m) (b1\<lparr>br_peers := memplace i n (br_peers b1)\<rparr>) = (Inr (), out2, b')"
    "Process n (ev_msgId ev) (Some ack) \<in> set out"
    unfolding connect_peer_def bindA_Inr_iff thenA_Inr_iff act_Inr_iffs by fastforce
  note new = new_object_Inr [OF st(1) assms(2)]
  let ?b = "b1\<lparr>br_peers := memplace i n (br_peers b1)\<rparr>"
  have okb: "bridge_ok ?b" using new(1,4) by (auto simp: bridge_ok_def map_of_memplace split: if_splits)
  show "bridge_ok b'" by (rule okAD [OF okA_object [OF steady_initial] okb st(2)])
  have later: "since ?b b'" by (rule okA_since [OF okA_object [OF steady_initial] okb st(2)])
  have old: "k \<noteq> n" if "gone j k b" for j k using that assms(2) new(2) by (auto simp: gone_def bridge_ok_def)
  have "since b ?b" unfolding since_def
  proof (intro conjI allI impI)
    show "br_next b \<le> br_next ?b" using new(2,6) by simp
    show "gone j k ?b" if "gone j k b" for j k using that old [OF that] new(5) [of k] by (simp add: gone_def)
    show "k \<in> ran (map_of (br_peers b))" if "k < br_next b" "k \<in> ran (map_of (br_peers ?b))" for k
      using that new(2,3) by (auto simp: ran_def map_of_memplace split: if_splits)
  qed
  then show "since b b'" using later by (rule since_trans)
  show "br_next b < br_next b'" using later new(2,6) by (simp add: since_def)
  from new(4) obtain p where p: "map_of (br_objs ?b) n = Some p" "pe_id p = i" "pe_connected p" "good_requests p"
    using new(1) by (auto simp: bridge_ok_def)
  from st(2) p(1) obtain r out3 p' h' where run: "initial_requests m (p, br_hub ?b) = (r, out3, (p', h'))"
    "b' = ?b\<lparr>br_objs := mput n p' (br_objs ?b), br_hub := h'\<rparr>"
    by (auto simp: on_object_def split: prod.splits)
  have "keepsA (peer_is i True) (initial_requests m)" by (rule steadyD [OF steady_initial])
  moreover have "peer_is i True (p, br_hub ?b)" using p by (simp add: peer_is_def)
  ultimately have "peer_is i True (p', h')" using run(1) by (metis keepsAD result_simps(3))
  then show "\<exists>p. map_of (br_objs b') (br_next b) = Some p \<and> pe_id p = i \<and> pe_connected p"
    by (simp add: run(2) peer_is_def new(2))
  show "br_peers b' = memplace i (br_next b) (br_peers b)" by (simp add: run(2) new(2,3))
  show "\<exists>ack. Process (br_next b) (ev_msgId ev) (Some ack) \<in> set out" using st(3) new(2) by blast
qed

section \<open>Every step keeps the invariant\<close>

lemma okA_acks: "okA (br_ack i m)" "okA (returnError e ev)" "okA (returnSuccess ev)" "okA (ack_if_needed ev)" "okA (getConnectedPeer ev)"
proof -
  show a: "okA (br_ack i m)" for i m unfolding br_ack_def by (intro okA_rules)
  show "okA (returnError e ev)" "okA (returnSuccess ev)" unfolding returnError_def returnSuccess_def by (rule a)+
  then show "okA (ack_if_needed ev)" unfolding ack_if_needed_def by (intro okA_rules)
  show "okA (getConnectedPeer ev)" unfolding getConnectedPeer_def by (intro okA_rules a)
qed

lemma okA_subscription: "(\<And>v. steady (f v)) \<Longrightarrow> okA (subscription_handler f ev)"
  unfolding subscription_handler_def by (intro okA_rules okA_acks okA_object)

lemma okA_same: "(\<And>b. br_peers (f b) = br_peers b) \<Longrightarrow> (\<And>b. br_objs (f b) = br_objs b) \<Longrightarrow> (\<And>b. br_next (f b) = br_next b) \<Longrightarrow> okA (modA f)"
  by (rule okA_mod) (simp add: bridge_ok_def since_same)

lemma okA_handle: "okA (handle w k ev)"
proof (cases k)
  case H_ice_servers
  then show ?thesis by (simp add: onIceServers_def) (intro okA_rules okA_same; simp)
next
  case H_peer
  have "okA (connect_peer w i ev)" for i by (rule okAI) (auto dest: connect_peer_Inr(1,2))
  with H_peer show ?thesis by (simp add: br_onPeerConnected_def) (intro okA_rules)
next
  case H_wrtc_info
  then show ?thesis by (simp add: onPeerWRTCInfo_def) (intro okA_rules okA_acks okA_object steady_answers)
next
  case H_peer_gone
  then show ?thesis by (simp add: onPeerDisconnected_def) (intro okA_rules okA_acks okA_leaves)
next
  case H_introspection
  then show ?thesis by (simp add: onIntrospection_def) (intro okA_rules okA_acks okA_intro)
next
  case H_subscribe
  then show ?thesis by (simp add: onSubscribeRead_def okA_subscription steady_requests)
next
  case H_unsubscribe
  then show ?thesis by (simp add: onUnsubscribeRead_def okA_subscription steady_requests)
next
  case H_subscribe_write
  then show ?thesis by (simp add: onSubscribeWrite_def okA_subscription steady_requests)
next
  case H_unsubscribe_write
  then show ?thesis by (simp add: onUnsubscribeWrite_def okA_subscription steady_requests)
next
  case H_service
  then show ?thesis by (simp add: onServiceCall_def) (intro okA_rules okA_acks)
next
  case H_file
  then show ?thesis by (simp add: onFileRequest_def Let_def) (intro okA_rules okA_acks)
next
  case H_sdp_answer
  then show ?thesis by (simp add: br_onSDPAnswer_def) (intro okA_rules okA_acks okA_object steady_answers)
qed

lemma okA_catch: "surely_ok m \<Longrightarrow> okA (catchA m)"
  by (rule okA_surely) (auto simp: surely_ok_def catchA_def final_def split: prod.splits sum.splits)

lemma okA_process: "okA (run_process w n i ack)"
  unfolding run_process_def by (intro okA_catch surely_on_object steady_process)

lemma okA_callbacks:
  "okA (br_runIntrospection w)" "okA (br_onDocker w dk)" "okA (br_onOfferReply w n reply)" "okA (onIceStateChange st n)"
  "okA (onSignalingStateChange is_stable n)" "okA (onInboundMessage n topic d m)" "okA (br_onSocketOpen w)"
  "okA (br_onDisconnected w)" "okA (br_shut_peers w)"
proof -
  show "okA (br_runIntrospection w)" "okA (br_onDocker w dk)" for d
    unfolding br_runIntrospection_def br_onDocker_def by (rule okA_intro)+
  show "okA (br_onOfferReply w n reply)" unfolding br_onOfferReply_def by (intro okA_object steady_answers)
  show "okA (onIceStateChange st n)" unfolding onIceStateChange_def by (intro okA_rules)
  show "okA (onSignalingStateChange is_stable n)" unfolding onSignalingStateChange_def by (intro okA_object steady_answers)
  show "okA (onInboundMessage n topic d m)"
    unfolding onInboundMessage_def by (intro okA_rules okA_object steady_frame frame_on_writers)
  show "okA (br_onSocketOpen w)" unfolding br_onSocketOpen_def by (intro okA_rules okA_same okA_intro; simp)
  show "okA (br_onDisconnected w)" unfolding br_onDisconnected_def by (intro okA_rules okA_same okA_all_leave; simp)
  show "okA (br_shut_peers w)" unfolding br_shut_peers_def by (intro okA_rules okA_same okA_all_leave; simp)
qed

lemma okA_good: "okA m \<Longrightarrow> m b = (Inr r, out, b') \<Longrightarrow> bridge_ok b \<Longrightarrow> bridge_ok b' \<and> since b b'"
  by (simp add: okA_def)

lemma sys_step_good: "sys_step s out s' \<Longrightarrow> bridge_ok (fst s) \<Longrightarrow> bridge_ok (fst s') \<and> since (fst s) (fst s')"
  by (induction rule: sys_step.induct)
    (simp_all only: fst_conv, (rule okA_good [OF okA_handle] okA_good [OF okA_process] okA_good [OF okA_callbacks(1)]
      okA_good [OF okA_callbacks(2)] okA_good [OF okA_callbacks(3)] okA_good [OF okA_callbacks(4)] okA_good [OF okA_callbacks(5)]
      okA_good [OF okA_callbacks(6)] okA_good [OF okA_callbacks(7)] okA_good [OF okA_callbacks(8)] okA_good [OF okA_callbacks(9)];
      assumption)+)

lemma sys_step_ok: "sys_step s out s' \<Longrightarrow> bridge_ok (fst s) \<Longrightarrow> bridge_ok (fst s')"
  using sys_step_good by blast

lemma okA_meanwhile: "okA (meanwhile w acts)"
proof -
  have "okA (act_on w a)" for a by (cases a) (simp_all add: okA_handle okA_process okA_callbacks)
  then show ?thesis unfolding meanwhile_def by (intro okA_rules)
qed

lemma reachable_ok: "reachable s \<Longrightarrow> bridge_ok (fst s)"
proof (induction rule: reachable.induct)
  case (start w cfg h i)
  then show ?case by (simp add: construct_bridge_def Let_def bridge_ok_def)
next
  case (step s out s')
  then show ?case by (auto intro: sys_step_ok)
qed

text \<open>C1. Along every sequence of socket events, processing threads, rounds of introspection, callbacks and losses of the
  connection, the table of peers holds only connected peers, each under its own id, and no peer ever requests
  a topic twice.\<close>

theorem peer_table_invariant:
  assumes "reachable (b, threads)"
  shows "(\<forall>i n. map_of (br_peers b) i = Some n \<longrightarrow> (\<exists>p. map_of (br_objs b) n = Some p \<and> pe_id p = i \<and> pe_connected p)) \<and>
    (\<forall>n p. map_of (br_objs b) n = Some p \<longrightarrow> distinct (pe_read p) \<and> distinct (map fst (pe_write p)))"
  using reachable_ok [OF assms] by (simp add: bridge_ok_def good_requests_def)

text \<open>The states that may follow.\<close>

inductive evolves :: "system \<Rightarrow> system \<Rightarrow> bool" where
  here: "evolves s s"
| on: "evolves s s' \<Longrightarrow> sys_step s' out s'' \<Longrightarrow> evolves s s''"

lemma evolves_since: "evolves s s' \<Longrightarrow> bridge_ok (fst s) \<Longrightarrow> bridge_ok (fst s') \<and> since (fst s) (fst s')"
  by (induction rule: evolves.induct) (auto dest: sys_step_good intro: since_trans)

text \<open>C25. A peer that connects again under an id in use gets a new object, connected and about to be processed, which the
  table does not hold, neither then nor in any later state: no event of that peer ever finds it.\<close>

theorem second_connection_orphan:
  assumes "reachable (b, threads)" "handle w H_peer ev b = (Inr (), out, b')" "event_peer ev = Inr i" "i \<noteq> []"
    and "map_of (br_peers b) i = Some n"
  shows "br_peers b' = br_peers b \<and>
    (\<exists>m p ack. map_of (br_objs b') m = Some p \<and> pe_id p = i \<and> pe_connected p \<and>
       Process m (ev_msgId ev) (Some ack) \<in> set out \<and>
       (\<forall>ts s. evolves (b', ts) s \<longrightarrow> m \<notin> ran (map_of (br_peers (fst s)))))"
proof -
  have ok: "bridge_ok b" using reachable_ok [OF assms(1)] by simp
  from assms(2,3,4) have "connect_peer w i ev b = (Inr (), out, b')"
    by (auto simp: br_onPeerConnected_def bindA_Inr_iff act_Inr_iffs)
  note c = connect_peer_Inr [OF this ok]
  have same: "br_peers b' = br_peers b" using c(4) assms(5) by (simp add: memplace_def)
  have "k < br_next b" if "map_of (br_peers b) j = Some k" for j k
    using ok that by (fastforce simp: bridge_ok_def)
  then have "br_next b \<notin> ran (map_of (br_peers b'))" unfolding same ran_def by blast
  then have "br_next b \<notin> ran (map_of (br_peers (fst s)))" if "evolves (b', ts) s" for ts s
    using evolves_since [OF that] c(1,3) by (auto simp: since_def)
  with c(5,6) same show ?thesis by blast
qed

section \<open>Unknown peers\<close>

definition unknown_error :: "string \<Rightarrow> message" where
  "unknown_error i = err_message (if i = [] then ''No valid peer id provided'' else ''Peer not connected'')"

text \<open>C26. An event of a peer that is not connected changes nothing and is acknowledged with an error; but the handlers of
  the state of WebRTC, of a disconnection and of an answer acknowledge it a second time, the first two with a
  success.\<close>

theorem unknown_peer_answers:
  assumes "event_peer ev = Inr i" "i = [] \<or> map_of (br_peers b) i = None" "ev_need_ack ev" "br_connected b"
    and "k \<notin> {H_ice_servers, H_peer, H_file}"
  shows "handle w k ev b =
    (Inr (), Ack (ev_msgId ev) (unknown_error i) #
       (case k of H_wrtc_info \<Rightarrow> [Ack (ev_msgId ev) (success_message 1)] | H_peer_gone \<Rightarrow> [Ack (ev_msgId ev) (success_message 1)]
        | H_sdp_answer \<Rightarrow> [Ack (ev_msgId ev) (success_message 0)] | _ \<Rightarrow> []), b)"
proof -
  have peer: "getConnectedPeer ev b = (Inr None, [Ack (ev_msgId ev) (unknown_error i)], b)"
    using assms(1-4)
    by (auto simp: getConnectedPeer_def unknown_error_def br_ack_def ifA_def bindA_def thenA_def getA_def liftA_def emitA_def retA_def)
  have success: "ack_if_needed ev b = (Inr (), [Ack (ev_msgId ev) (success_message 1)], b)"
    using assms(3,4) by (simp add: ack_if_needed_def returnSuccess_def br_ack_def ifA_def bindA_def getA_def emitA_def)
  have none: "bindA (getConnectedPeer ev) f b = (case f None b of (r, out, b') \<Rightarrow> (r, Ack (ev_msgId ev) (unknown_error i) # out, b'))" for f :: "nat option \<Rightarrow> unit bact"
    by (simp add: bindA_def peer)
  have again: "thenA (ack_if_needed ev) (retA ()) b = (Inr (), [Ack (ev_msgId ev) (success_message 1)], b)"
    by (simp add: thenA_def bindA_def success retA_def)
  have failure: "ifA (ev_need_ack ev) (br_ack (ev_msgId ev) (success_message 0)) b = (Inr (), [Ack (ev_msgId ev) (success_message 0)], b)"
    using assms(3,4) by (simp add: br_ack_def ifA_def bindA_def getA_def emitA_def)
  show ?thesis using assms(5)
    by (cases k) (simp_all add: none again failure retA_def onPeerWRTCInfo_def onPeerDisconnected_def onIntrospection_def onSubscribeRead_def
        onUnsubscribeRead_def onSubscribeWrite_def onUnsubscribeWrite_def subscription_handler_def onServiceCall_def br_onSDPAnswer_def)
qed

section \<open>The loss of the connection\<close>

text \<open>What goes through the socket.\<close>

definition br_says :: "bridge_effect \<Rightarrow> bool" where
  "br_says e = (case e of Ack i m \<Rightarrow> True | Peer_eff n e \<Rightarrow> says e | _ \<Rightarrow> False)"

lemma leaves_silent:
  assumes "\<not> br_connected b" "peer_leaves w n b = (Inr (), out, b')"
  shows "list_all (\<lambda>e. \<not> br_says e) out"
proof -
  from assms(2) obtain p p' h' out1 where
    p: "onDisconnected (peer_env w b) (br_cfg b) (p, br_hub b) = (Inr (), out1, (p', h'))" "out = map (Peer_eff n) out1"
    by (rule peer_leaves_Inr)
  have "calm (onDisconnected (peer_env w b) (br_cfg b))" using assms(1) by (intro offline_disconnect) (simp add: peer_env_def)
  from emitsAD [OF this p(1)] show ?thesis by (simp add: p(2) br_says_def list_all_iff)
qed

lemma all_leave_loop:
  assumes "forA (\<lambda>i _. bindA (getA (\<lambda>b. mat (br_peers b) i)) (\<lambda>r. bindA (liftA r) (peer_leaves w))) us () b = (Inr (), out, b')"
    and "bridge_ok b"
  shows "map_of (br_peers b') i = (if i \<in> set us then None else map_of (br_peers b) i) \<and> br_connected b' = br_connected b \<and>
    (\<forall>j\<in>set us. \<forall>n. map_of (br_peers b) j = Some n \<longrightarrow> gone j n b') \<and> (\<not> br_connected b \<longrightarrow> list_all (\<lambda>e. \<not> br_says e) out)"
  using assms
proof (induction us arbitrary: b out)
  case Nil
  then show ?case by (simp add: retA_def)
next
  case (Cons j us)
  from Cons.prems(1) obtain n out1 b1 out2 where st: "map_of (br_peers b) j = Some n" "peer_leaves w n b = (Inr (), out1, b1)"
    "forA (\<lambda>i _. bindA (getA (\<lambda>b. mat (br_peers b) i)) (\<lambda>r. bindA (liftA r) (peer_leaves w))) us () b1 = (Inr (), out2, b')"
    "out = out1 @ out2"
    by (auto simp: bindA_Inr_iff act_Inr_iffs mat_def split: option.splits)
  have ok1: "bridge_ok b1" by (rule okAD [OF okA_leaves Cons.prems(2) st(2)])
  from st(2) obtain p p' h' out3 where p: "map_of (br_objs b) n = Some p"
    "onDisconnected (peer_env w b) (br_cfg b) (p, br_hub b) = (Inr (), out3, (p', h'))"
    "b1 = b\<lparr>br_objs := mput n p' (br_objs b), br_hub := h', br_peers := mdel (pe_id p') (br_peers b)\<rparr>"
    by (rule peer_leaves_Inr)
  have "pe_id p' = j" using onDisconnected_peer [OF p(2)] Cons.prems(2) st(1) p(1) by (fastforce simp: bridge_ok_def)
  then have b1: "br_peers b1 = mdel j (br_peers b)" "br_connected b1 = br_connected b" by (simp_all add: p(3))
  note ih = Cons.IH [OF st(3) ok1]
  have "gone j n b1" using onDisconnected_peer [OF p(2)] \<open>pe_id p' = j\<close> by (simp add: gone_def p(3))
  moreover have "okA (forA (\<lambda>i _. bindA (getA (\<lambda>b. mat (br_peers b) i)) (\<lambda>r. bindA (liftA r) (peer_leaves w))) us ())"
    by (intro okA_rules okA_leaves)
  from okA_since [OF this ok1 st(3)] have "since b1 b'" .
  ultimately have "gone j n b'" by (simp add: since_def)
  then have "gone u k b'" if "u \<in> set (j # us)" "map_of (br_peers b) u = Some k" for u k
    using that st(1) ih b1(1) by (cases "u = j") auto
  moreover have "list_all (\<lambda>e. \<not> br_says e) out" if "\<not> br_connected b"
    using that leaves_silent [OF that st(2)] ih b1(2) st(4) by simp
  ultimately show ?case using ih b1 by auto
qed

lemma all_gone:
  assumes "bridge_ok b" "onAllPeersDisconnected w b = (Inr (), out, b')"
  shows "br_peers b' = []" "br_connected b' = br_connected b" "map_of (br_peers b) i = Some n \<Longrightarrow> gone i n b'"
    "\<not> br_connected b \<Longrightarrow> list_all (\<lambda>e. \<not> br_says e) out"
proof -
  from assms(2) have run: "forA (\<lambda>i _. bindA (getA (\<lambda>b. mat (br_peers b) i)) (\<lambda>r. bindA (liftA r) (peer_leaves w))) (map fst (br_peers b)) () b =
      (Inr (), out, b')"
    by (auto simp: onAllPeersDisconnected_def bindA_Inr_iff act_Inr_iffs)
  note l = all_leave_loop [OF run assms(1)]
  have "map_of (br_peers b') j = None" for j using l [of j] by (auto simp: map_of_eq_None_iff)
  then show "br_peers b' = []" by (cases "br_peers b'") (auto split: if_splits, metis option.distinct(1))
  show "br_connected b' = br_connected b" using l by blast
  show "gone i n b'" if "map_of (br_peers b) i = Some n"
  proof -
    from that have "i \<in> set (map fst (br_peers b))" by (auto dest!: map_of_SomeD intro!: image_eqI [of _ fst])
    with l that show ?thesis by blast
  qed
  show "list_all (\<lambda>e. \<not> br_says e) out" if "\<not> br_connected b" using that l by blast
qed

text \<open>C20. When the socket has lost its connection every peer of the table has been disconnected and the table is empty; while
  this is done nothing is sent or acknowledged through the lost connection.\<close>

theorem connection_loss_clears_peers:
  assumes "reachable (b, threads)" "br_onDisconnected w b = (Inr (), out, b')"
  shows "br_peers b' = [] \<and> \<not> br_connected b' \<and> list_all (\<lambda>e. \<not> br_says e) out \<and>
    (\<forall>i n. map_of (br_peers b) i = Some n \<longrightarrow> (\<exists>p. map_of (br_objs b') n = Some p \<and> pe_id p = i \<and> \<not> pe_connected p))"
proof -
  let ?b = "b\<lparr>br_connected := False\<rparr>"
  from assms(2) obtain out1 where run: "onAllPeersDisconnected w ?b = (Inr (), out1, b')" "out = Conn_led Led_fast_pulse # out1"
    by (auto simp: br_onDisconnected_def thenA_Inr_iff act_Inr_iffs)
  have "bridge_ok ?b" using reachable_ok [OF assms(1)] by (simp add: bridge_ok_def)
  note g = all_gone [OF this run(1)]
  have "\<exists>p. map_of (br_objs b') n = Some p \<and> pe_id p = i \<and> \<not> pe_connected p" if "map_of (br_peers b) i = Some n" for i n
    using g(3) [of i n] that by (auto simp: gone_def)
  with g run(2) show ?thesis by (simp add: br_says_def)
qed

section \<open>Examples\<close>

definition sample_world :: world where
  "sample_world = \<lparr>wd_env = sample_env, wd_graph = sample_graph, wd_session = ''s1'', wd_retry_ms = (\<lambda>_. 1000)\<rparr>"

definition sample_bridge :: bridge where
  "sample_bridge = (fst (construct_bridge sample_world empty_config sample_hub sample_start))"

definition sample_event :: sio_event where
  "sample_event = \<lparr>ev_nsp = ''/'', ev_name = ''peer'', ev_msgId = 7,
     ev_messages = [Some (Object_msg [(''id_app'', text_message ''app''), (''id_instance'', text_message ''one'')])], ev_need_ack = True\<rparr>"

definition one_peer :: bridge where
  "one_peer = final (handle sample_world H_peer sample_event sample_bridge)"

lemma one_peer_reachable: "\<exists>threads. reachable (one_peer, threads)"
proof -
  have r: "result (handle sample_world H_peer sample_event sample_bridge) = Inr ()" by code_simp
  then obtain out where "handle sample_world H_peer sample_event sample_bridge = (Inr (), out, one_peer)"
    unfolding one_peer_def by (cases "handle sample_world H_peer sample_event sample_bridge") auto
  from sys_step.event [OF this] have "sys_step (sample_bridge, []) out (one_peer, [] @ spawned out)" .
  moreover have "reachable (sample_bridge, [])" unfolding sample_bridge_def by (rule reachable.start)
  ultimately show ?thesis by (blast intro: reachable.step)
qed

theorem peer_table_invariant_witness:
  "\<exists>p. map_of (br_objs one_peer) 0 = Some p \<and> pe_id p = ''one'' \<and> pe_connected p"
proof -
  obtain threads where r: "reachable (one_peer, threads)" using one_peer_reachable by blast
  have "map_of (br_peers one_peer) ''one'' = Some 0" by code_simp
  with peer_table_invariant [OF r] show ?thesis by blast
qed

theorem second_connection_orphan_witness:
  "\<exists>out b' m p. handle sample_world H_peer sample_event one_peer = (Inr (), out, b') \<and> m \<notin> ran (map_of (br_peers b')) \<and>
     map_of (br_objs b') m = Some p \<and> pe_id p = ''one'' \<and> pe_connected p"
proof -
  obtain threads where r: "reachable (one_peer, threads)" using one_peer_reachable by blast
  have "result (handle sample_world H_peer sample_event one_peer) = Inr ()" by code_simp
  then obtain out b' where h: "handle sample_world H_peer sample_event one_peer = (Inr (), out, b')"
    by (cases "handle sample_world H_peer sample_event one_peer") auto
  have e: "event_peer sample_event = Inr ''one''" by code_simp
  have t: "map_of (br_peers one_peer) ''one'' = Some 0" by code_simp
  from second_connection_orphan [OF r h e _ t] obtain m p where
    m: "map_of (br_objs b') m = Some p" "pe_id p = ''one''" "pe_connected p"
      "\<forall>ts s. evolves (b', ts) s \<longrightarrow> m \<notin> ran (map_of (br_peers (fst s)))" by auto
  have "m \<notin> ran (map_of (br_peers b'))" using m(4) evolves.here [of "(b', [])"] by force
  with h m show ?thesis by blast
qed

theorem unknown_peer_answers_witness:
  "effects (handle sample_world H_peer_gone sample_event (sample_bridge\<lparr>br_connected := True\<rparr>)) =
     [Ack 7 (unknown_error ''one''), Ack 7 (success_message 1)]"
proof -
  have e: "event_peer sample_event = Inr ''one''" by code_simp
  have n: "map_of (br_peers (sample_bridge\<lparr>br_connected := True\<rparr>)) ''one'' = None" by code_simp
  have "ev_need_ack sample_event" "br_connected (sample_bridge\<lparr>br_connected := True\<rparr>)" "ev_msgId sample_event = 7"
    by (simp_all add: sample_event_def)
  with unknown_peer_answers [OF e, of "sample_bridge\<lparr>br_connected := True\<rparr>" H_peer_gone sample_world] n show ?thesis by simp
qed

theorem connection_loss_clears_peers_witness:
  "\<exists>out b'. br_onDisconnected sample_world one_peer = (Inr (), out, b') \<and> br_peers one_peer \<noteq> [] \<and> br_peers b' = []"
proof -
  obtain threads where r: "reachable (one_peer, threads)" using one_peer_reachable by blast
  have "result (br_onDisconnected sample_world one_peer) = Inr ()" by code_simp
  then obtain out b' where h: "br_onDisconnected sample_world one_peer = (Inr (), out, b')"
    by (cases "br_onDisconnected sample_world one_peer") auto
  have "map_of (br_peers one_peer) ''one'' = Some 0" by code_simp
  then have "br_peers one_peer \<noteq> []" by auto
  with connection_loss_clears_peers [OF r h] h show ?thesis by blast
qed

end
