(* ===== verification/Files.thy ===== *)
theory Files
  imports Bridge
begin

text \<open>
  \<open>src/file_extractor.cpp\<close> and \<open>src/local_services.cpp\<close>: uploading a file that the cloud bridge asks for. Every known file
  extractor is asked by a thread of its own; the one that has the file publishes its chunks, which are uploaded one by
  one (\<open>receiveChunk\<close>) and counted; when all are there the upload is completed. The answers of the extractors, of curl
  and of the upload server are inputs of the steps; only the table of chunks is shared between threads.
\<close>

section \<open>State\<close>

datatype phase = Find_service | Await_response | Await_chunks int | Finished

record upload =
  ul_path :: string
  ul_msg :: int
  ul_success :: bool
  ul_threads :: "(string \<times> phase) list"

type_synonym chunk_table = "(string, (int, bool) omap) omap"

datatype http = No_curl | Curl_failed string | Http int string

datatype file_effect =
    File_ack int message
  | File_error string
  | Server_replied int string
  | Ask_extractor string string
  | Post string "(string \<times> jvalue) list"
  | Post_file string string string "(string \<times> jvalue) list"
  | Subscribe_chunks string
  | Unsubscribe_chunks

text \<open>\<open>Server_replied\<close> is the log entry of a completion that the server accepted, with the id of the request.\<close>

text \<open>What a thread sees next; \<open>server\<close> is what curl and the upload server would answer to a completion.\<close>

datatype thread_input =
    Ros_down
  | Service_ready
  | Response_invalid
  | Response_throws
  | Response_not_found
  | Response_found int
  | Chunks_seen
  | Timer

section \<open>Chunks\<close>

definition markChunkResult :: "string \<Rightarrow> int \<Rightarrow> bool \<Rightarrow> chunk_table \<Rightarrow> chunk_table" where
  "markChunkResult file_path chunk_number success t =
     (case map_of t file_path of
        None \<Rightarrow> t
      | Some chunks \<Rightarrow> mput file_path (memplace chunk_number success chunks) t)"

record file_chunk =
  ch_path :: string
  ch_number :: int
  ch_data :: string

definition receiveChunk :: "jvalue bridge_config \<Rightarrow> http \<Rightarrow> file_chunk \<Rightarrow> chunk_table \<Rightarrow> chunk_table \<times> file_effect list" where
  "receiveChunk cfg answer chunk t =
     (let post = Post_file (cf_uploader_address cfg @ ''/upload'') (ch_path chunk @ ''.part'' @ show_int (ch_number chunk)) (ch_data chunk)
            [(''idRobot'', J_string (cf_id_robot cfg)), (''key'', J_string (cf_auth_key cfg)), (''fileUrl'', J_string (ch_path chunk))];
          mark = (\<lambda>ok. markChunkResult (ch_path chunk) (ch_number chunk) ok t)
      in case answer of
           No_curl \<Rightarrow> (mark False, [File_error ''Failed to initialize CURL for chunk upload''])
         | Curl_failed e \<Rightarrow> (mark False, [post, File_error (''CURL error: '' @ e)])
         | Http code body \<Rightarrow>
             if code = 200 then (mark True, [post])
             else (mark False, [post, File_error (''Server returned code '' @ show_int code)]))"

section \<open>The threads of an upload\<close>

text \<open>\<open>reply_name\<close>: the member \<open>fileName\<close> of the server's reply, if it has one; a reply that is JSON but no object throws.\<close>

definition name_reply :: "string option \<Rightarrow> message" where
  "name_reply n = Object_msg (case n of None \<Rightarrow> [] | Some s \<Rightarrow> memplace ''fileName'' (text_message s) [])"

definition complete_request :: "jvalue bridge_config \<Rightarrow> string \<Rightarrow> int \<Rightarrow> file_effect" where
  "complete_request cfg path num_parts =
     Post (cf_uploader_address cfg @ ''/complete'')
       [(''idRobot'', J_string (cf_id_robot cfg)), (''authKey'', J_string (cf_auth_key cfg)),
        (''fileUrl'', J_string path), (''totalParts'', J_int num_parts)]"

text \<open>After all chunks: the new value of \<open>success\<close> and the effects. \<open>success\<close> is set before the reply is parsed; an
  exception of the parser ends the thread.\<close>

definition complete_upload ::
    "jvalue bridge_config \<Rightarrow> (string \<Rightarrow> string option res) \<Rightarrow> http \<Rightarrow> (int, bool) omap \<Rightarrow> upload \<Rightarrow> int \<Rightarrow> bool \<times> file_effect list" where
  "complete_upload cfg reply_name answer chunks u num_parts =
     (if list_ex (\<lambda>c. \<not> snd c) chunks then (False, [])
      else case answer of
        No_curl \<Rightarrow> (False, [File_error ''Failed to initialize CURL for file complete''])
      | Curl_failed e \<Rightarrow> (False, [complete_request cfg (ul_path u) num_parts, File_error (''CURL error: '' @ e)])
      | Http code body \<Rightarrow>
          if code = 200 then
            (True, complete_request cfg (ul_path u) num_parts # Server_replied (ul_msg u) body #
               (case reply_name body of Inl e \<Rightarrow> [] | Inr n \<Rightarrow> [File_ack (ul_msg u) (name_reply n)]))
          else (False, [complete_request cfg (ul_path u) num_parts,
                        File_error (''Server replied: '' @ body @ '' ('' @ show_int code @ '')'')]))"

text \<open>\<open>uploaded_chunks.at(path).size() < num_parts\<close> compares unsigned.\<close>

definition chunks_missing :: "(int, bool) omap \<Rightarrow> int \<Rightarrow> bool" where
  "chunks_missing chunks num_parts \<longleftrightarrow> int (length chunks) < uint (of_int num_parts :: 64 word)"

text \<open>One step of a thread: its next phase, the table, the upload and the effects. An input that does not concern the
  phase leaves the thread waiting.\<close>

definition thread_turn ::
    "jvalue bridge_config \<Rightarrow> (string \<Rightarrow> string option res) \<Rightarrow> http \<Rightarrow> thread_input \<Rightarrow> string \<Rightarrow> phase \<Rightarrow> upload \<Rightarrow> chunk_table \<Rightarrow>
       phase \<times> upload \<times> chunk_table \<times> file_effect list" where
  "thread_turn cfg reply_name answer input node p u t =
     (case p of
        Find_service \<Rightarrow>
          (case input of
             Ros_down \<Rightarrow> (Finished, u, t, [])
           | Service_ready \<Rightarrow> (Await_response, u, t, [Ask_extractor node (ul_path u)])
           | _ \<Rightarrow> (p, u, t, []))
      | Await_response \<Rightarrow>
          (case input of
             Ros_down \<Rightarrow> (Finished, u, t, [])
           | Response_invalid \<Rightarrow> (Finished, u, t, [])
           | Response_throws \<Rightarrow> (Finished, u, t, [])
           | Response_not_found \<Rightarrow> (Finished, u, t, [])
           | Response_found num_parts \<Rightarrow> (Await_chunks num_parts, u, memplace (ul_path u) [] (mdel (ul_path u) t), [])
           | _ \<Rightarrow> (p, u, t, []))
      | Await_chunks num_parts \<Rightarrow>
          (case input of
             Chunks_seen \<Rightarrow>
               (case map_of t (ul_path u) of
                  None \<Rightarrow> (Finished, u, t, [])
                | Some chunks \<Rightarrow>
                    if chunks_missing chunks num_parts then (p, u, t, [])
                    else (case complete_upload cfg reply_name answer chunks u num_parts of
                            (ok, out) \<Rightarrow> (Finished, u\<lparr>ul_success := ok\<rparr>, t, out)))
           | _ \<Rightarrow> (p, u, t, []))
      | Finished \<Rightarrow> (p, u, t, []))"

definition step_thread ::
    "jvalue bridge_config \<Rightarrow> (string \<Rightarrow> string option res) \<Rightarrow> http \<Rightarrow> thread_input \<Rightarrow> nat \<Rightarrow> upload \<Rightarrow> chunk_table \<Rightarrow>
       upload \<times> chunk_table \<times> file_effect list" where
  "step_thread cfg reply_name answer input j u t =
     (case thread_turn cfg reply_name answer input (fst (ul_threads u ! j)) (snd (ul_threads u ! j)) u t of
        (p, u', t', out) \<Rightarrow> (u'\<lparr>ul_threads := (ul_threads u)[j := (fst (ul_threads u ! j), p)]\<rparr>, t', out))"

section \<open>A request\<close>

text \<open>The start of \<open>findAndUploadFile\<close>: an upload with its threads, or the error at once; and its end, after the join.\<close>

definition findAndUploadFile :: "string list \<Rightarrow> string \<Rightarrow> int \<Rightarrow> upload option \<times> file_effect list" where
  "findAndUploadFile extractors search_path msg_id =
     (if extractors = [] then (None, [File_error ''No file extractors were discovered yet'', File_ack msg_id Null_msg])
      else (Some \<lparr>ul_path = search_path, ul_msg = msg_id, ul_success = False,
                  ul_threads = map (\<lambda>e. (e, Find_service)) extractors\<rparr>, []))"

definition all_joined :: "upload \<Rightarrow> bool" where
  "all_joined u \<longleftrightarrow> list_all (\<lambda>(_, p). p = Finished) (ul_threads u)"

definition finish_upload :: "upload \<Rightarrow> file_effect list" where
  "finish_upload u = (if ul_success u then [] else [File_ack (ul_msg u) Null_msg])"

section \<open>The system\<close>

text \<open>Uploads run beside each other and beside the chunks that arrive; \<open>file_run\<close> also collects the ids of the requests made
  and all effects.\<close>

type_synonym file_system = "chunk_table \<times> upload list"

inductive file_run ::
    "jvalue bridge_config \<Rightarrow> (string \<Rightarrow> string option res) \<Rightarrow> int list \<Rightarrow> file_effect list \<Rightarrow> file_system \<Rightarrow> bool"
  for cfg reply_name where
  begin_run: "file_run cfg reply_name [] [] ([], [])"
| request_some: "file_run cfg reply_name asked tr (t, us) \<Longrightarrow> findAndUploadFile extractors path i = (Some u, out) \<Longrightarrow>
    file_run cfg reply_name (i # asked) (tr @ out) (t, u # us)"
| request_none: "file_run cfg reply_name asked tr (t, us) \<Longrightarrow> findAndUploadFile extractors path i = (None, out) \<Longrightarrow>
    file_run cfg reply_name (i # asked) (tr @ out) (t, us)"
| chunk: "file_run cfg reply_name asked tr (t, us) \<Longrightarrow> receiveChunk cfg answer c t = (t', out) \<Longrightarrow>
    file_run cfg reply_name asked (tr @ out) (t', us)"
| thread_step: "file_run cfg reply_name asked tr (t, us) \<Longrightarrow> i < length us \<Longrightarrow> j < length (ul_threads (us ! i)) \<Longrightarrow>
    step_thread cfg reply_name answer input j (us ! i) t = (u, t', out) \<Longrightarrow>
    file_run cfg reply_name asked (tr @ out) (t', us[i := u])"
| join_all: "file_run cfg reply_name asked tr (t, us @ u # vs) \<Longrightarrow> all_joined u \<Longrightarrow>
    file_run cfg reply_name asked (tr @ finish_upload u) (t, us @ vs)"

section \<open>The component\<close>

definition fx_init :: "jvalue bridge_config \<Rightarrow> file_effect list" where
  "fx_init cfg = [Subscribe_chunks (cf_file_chunks_topic cfg)]"

definition fx_stop :: "file_effect list" where
  "fx_stop = [Unsubscribe_chunks]"

text \<open>The local service \<open>clear_cloud_file_cache\<close>: success and message of the response.\<close>

definition requestClearFileCache :: "jvalue bridge_config \<Rightarrow> http \<Rightarrow> (bool \<times> string) \<times> file_effect list" where
  "requestClearFileCache cfg answer =
     (let post = Post (cf_uploader_address cfg @ ''/clear_cache'')
            [(''idRobot'', J_string (cf_id_robot cfg)), (''authKey'', J_string (cf_auth_key cfg))]
      in case answer of
           No_curl \<Rightarrow> ((False, ''Failed to initialize CURL for file cache clear''), [File_error ''Failed to initialize CURL for file cache clear''])
         | Curl_failed e \<Rightarrow> ((False, ''CURL error: '' @ e), [post, File_error (''CURL error: '' @ e)])
         | Http code body \<Rightarrow> ((code = 200, body), [post]))"

definition clear_service_name :: "string \<Rightarrow> string" where
  "clear_service_name node_name = ''/'' @ node_name @ ''/clear_cloud_file_cache''"

section \<open>Counting chunks\<close>

lemma mark_known:
  assumes "map_of t path = Some chunks"
  shows "map_of (markChunkResult path n ok t) path = Some (memplace n ok chunks)"
  using assms by (simp add: markChunkResult_def)

lemma mark_other: "q \<noteq> path \<Longrightarrow> map_of (markChunkResult path n ok t) q = map_of t q"
  by (simp add: markChunkResult_def split: option.splits)

lemma mark_unknown: "map_of t path = None \<Longrightarrow> markChunkResult path n ok t = t"
  by (simp add: markChunkResult_def)

lemma marks_known:
  "map_of t path = Some chunks \<Longrightarrow>
     map_of (fold (\<lambda>(n, ok). markChunkResult path n ok) results t) path = Some (fold (\<lambda>(n, ok). memplace n ok) results chunks)"
  by (induction results arbitrary: t chunks) (auto simp: mark_known split_beta)

lemma fold_memplace:
  fixes results :: "(int \<times> bool) list"
  assumes "omap_ok m"
  shows "omap_ok (fold (\<lambda>(n, ok). memplace n ok) results m) \<and>
    map_of (fold (\<lambda>(n, ok). memplace n ok) results m) = map_of (m @ results)"
  using assms
proof (induction results arbitrary: m)
  case Nil
  then show ?case by simp
next
  case (Cons r results)
  obtain n ok where r: "r = (n, ok)" by (cases r)
  from Cons.IH [of "memplace n ok m"] Cons.prems
  show ?case by (auto simp: r map_of_memplace mhas_def map_add_def fun_eq_iff split: option.splits)
qed

text \<open>C37. From the moment the extractor's answer resets the count, the wait for the chunks of a file ends exactly when chunks
  with that many different numbers were uploaded or failed; the completion is requested exactly if the first result
  of every chunk number was a success: the result of a chunk that is sent again is ignored.\<close>

theorem upload_counts_chunks:
  "\<exists>chunks. map_of (fold (\<lambda>(n, ok). markChunkResult path n ok) results (memplace path [] (mdel path t))) path = Some chunks \<and>
     (chunks_missing chunks num_parts \<longleftrightarrow> int (card (fst ` set results)) < uint (of_int num_parts :: 64 word)) \<and>
     (list_ex (\<lambda>c. \<not> snd c) chunks \<longleftrightarrow> (\<exists>n. map_of results n = Some False))"
proof -
  let ?c = "fold (\<lambda>(n, ok). memplace n ok) results ([] :: (int, bool) omap)"
  have "map_of (memplace path [] (mdel path t)) path = Some ([] :: (int, bool) omap)"
    by (simp add: map_of_memplace mhas_def)
  from marks_known [OF this]
  have c: "map_of (fold (\<lambda>(n, ok). markChunkResult path n ok) results (memplace path [] (mdel path t))) path = Some ?c" .
  have ok: "omap_ok ?c" "map_of ?c = map_of results" using fold_memplace [of "[]" results] by simp_all
  then have d: "distinct (map fst ?c)" by (simp add: omap_ok_distinct)
  have "length ?c = card (fst ` set ?c)" using d by (metis distinct_card length_map list.set_map)
  also have "fst ` set ?c = fst ` set results" using ok(2) by (metis dom_map_of_conv_image_fst)
  finally have len: "length ?c = card (fst ` set results)" .
  have "list_ex (\<lambda>c. \<not> snd c) ?c \<longleftrightarrow> (\<exists>n. map_of ?c n = Some False)"
    using d by (force simp: list_ex_iff)
  with c len ok(2) show ?thesis by (simp add: chunks_missing_def)
qed

text \<open>A chunk that arrives before the extractor's answer is not counted.\<close>

lemma early_chunk_lost:
  assumes "map_of t path = None"
  shows "memplace path [] (mdel path (markChunkResult path n ok t)) = memplace path [] (mdel path t)"
  using assms by (simp add: mark_unknown)

section \<open>Answers\<close>

text \<open>The request \<open>i\<close> was acknowledged, or the JSON library threw on the reply to its completion.\<close>

definition settled :: "(string \<Rightarrow> string option res) \<Rightarrow> int \<Rightarrow> file_effect list \<Rightarrow> bool" where
  "settled reply_name i tr \<longleftrightarrow> (\<exists>m. File_ack i m \<in> set tr) \<or> (\<exists>body e. Server_replied i body \<in> set tr \<and> reply_name body = Inl e)"

lemma settled_append [simp]: "settled P i (xs @ ys) \<longleftrightarrow> settled P i xs \<or> settled P i ys"
  by (auto simp: settled_def)

lemma complete_upload_settles:
  assumes "complete_upload cfg reply_name answer chunks u n = (True, out)"
  shows "settled reply_name (ul_msg u) out"
proof -
  from assms obtain code body where "answer = Http code body" "code = 200"
    by (auto simp: complete_upload_def split: if_splits http.splits)
  with assms show ?thesis
    by (cases "reply_name body") (auto simp: complete_upload_def settled_def split: if_splits)
qed

lemma thread_turn_upload:
  assumes "thread_turn cfg reply_name answer input node p u t = (p', u', t', out)"
  shows "ul_msg u' = ul_msg u \<and> ul_threads u' = ul_threads u \<and>
    (ul_success u' \<longrightarrow> ul_success u \<or> settled reply_name (ul_msg u) out)"
proof (cases "\<exists>n chunks. p = Await_chunks n \<and> input = Chunks_seen \<and> map_of t (ul_path u) = Some chunks \<and> \<not> chunks_missing chunks n")
  case True
  then obtain n chunks ok where c: "p = Await_chunks n" "input = Chunks_seen" "map_of t (ul_path u) = Some chunks" "\<not> chunks_missing chunks n"
    "complete_upload cfg reply_name answer chunks u n = (ok, out)"
    using assms(1) by (auto simp: thread_turn_def split: prod.splits)
  with assms(1) have "u' = u\<lparr>ul_success := ok\<rparr>" by (simp add: thread_turn_def)
  with complete_upload_settles c(5) show ?thesis by (cases ok) auto
next
  case False
  with assms(1) show ?thesis
    by (auto simp: thread_turn_def split: phase.splits thread_input.splits option.splits if_splits)
qed

lemma step_thread_upload:
  assumes "step_thread cfg reply_name answer input j u t = (u', t', out)"
  shows "ul_msg u' = ul_msg u \<and> (ul_success u' \<longrightarrow> ul_success u \<or> settled reply_name (ul_msg u) out)"
proof -
  obtain p u1 t1 out1 where
    "thread_turn cfg reply_name answer input (fst (ul_threads u ! j)) (snd (ul_threads u ! j)) u t = (p, u1, t1, out1)"
    by (metis prod.exhaust)
  with thread_turn_upload [OF this] assms(1) show ?thesis by (auto simp: step_thread_def)
qed

lemma run_settles:
  assumes "file_run cfg reply_name asked tr s"
  shows "(\<forall>i\<in>set asked. i \<in> ul_msg ` set (snd s) \<or> settled reply_name i tr) \<and>
    (\<forall>u\<in>set (snd s). ul_success u \<longrightarrow> settled reply_name (ul_msg u) tr)"
  using assms
proof induction
  case begin_run
  show ?case by simp
next
  case (request_some asked tr t us extractors path i u out)
  then have "ul_msg u = i" "\<not> ul_success u" by (auto simp: findAndUploadFile_def split: if_splits)
  with request_some.IH show ?case by auto
next
  case (request_none asked tr t us extractors path i out)
  then have "settled reply_name i out" by (auto simp: findAndUploadFile_def settled_def split: if_splits)
  with request_none.IH show ?case by auto
next
  case (chunk asked tr t us answer c t' out)
  then show ?case by auto
next
  case (thread_step asked tr t us i j answer input u t' out)
  note st = step_thread_upload [OF thread_step.hyps(4)]
  have msgs: "map ul_msg (us[i := u]) = map ul_msg us" using st thread_step.hyps(2) by (metis list_update_id map_update nth_map)
  then have "ul_msg ` set (us[i := u]) = ul_msg ` set us" by (metis list.set_map)
  moreover have "settled reply_name (ul_msg v) (tr @ out)" if v: "v \<in> set (us[i := u])" "ul_success v" for v
  proof (cases "v \<in> set us")
    case True
    with thread_step.IH v(2) show ?thesis by auto
  next
    case False
    with v(1) have "v = u" using set_update_subset_insert by fastforce
    with st v(2) thread_step.IH thread_step.hyps(2) show ?thesis by auto
  qed
  ultimately show ?case using thread_step.IH by auto
next
  case (join_all asked tr t us u vs)
  have "settled reply_name (ul_msg u) (tr @ finish_upload u)"
    using join_all.IH by (cases "ul_success u") (auto simp: finish_upload_def settled_def)
  with join_all.IH show ?case by auto
qed

text \<open>C10. No file request is forgotten: in every reachable state, whatever the order of the threads, chunks and requests, each
  request made so far is still being worked on or has been acknowledged, and an upload that counts as successful has
  been; but for a request whose completion the server accepted with a reply that the JSON library throws on.\<close>

theorem file_requests_answered:
  assumes "file_run cfg reply_name asked tr s"
  shows "(\<forall>i\<in>set asked. i \<in> ul_msg ` set (snd s) \<or> (\<exists>m. File_ack i m \<in> set tr) \<or>
      (\<exists>body e. Server_replied i body \<in> set tr \<and> reply_name body = Inl e)) \<and>
    (\<forall>u\<in>set (snd s). ul_success u \<longrightarrow> (\<exists>m. File_ack (ul_msg u) m \<in> set tr) \<or>
      (\<exists>body e. Server_replied (ul_msg u) body \<in> set tr \<and> reply_name body = Inl e))"
proof -
  from assms have "(\<forall>i\<in>set asked. i \<in> ul_msg ` set (snd s) \<or> settled reply_name i tr) \<and>
    (\<forall>u\<in>set (snd s). ul_success u \<longrightarrow> settled reply_name (ul_msg u) tr)" by (rule run_settles)
  then show ?thesis unfolding settled_def by blast
qed

text \<open>A run: one extractor has the file, in one chunk that arrives after its answer; the upload is completed.\<close>

lemma sample_upload:
  "\<exists>tr t. file_run cfg (\<lambda>_. Inr None) [7] tr (t, [])"
proof -
  have table: "memplace ''/f'' [] (mdel ''/f'' []) = [(''/f'', [] :: (int, bool) omap)]"
    by (simp add: memplace_def mdel_def)
  let ?u = "\<lambda>p ok. \<lparr>ul_path = ''/f'', ul_msg = 7, ul_success = ok, ul_threads = [(''e'', p)]\<rparr>"
  have r1: "file_run cfg (\<lambda>_. Inr None) [7] ([] @ []) ([], [?u Find_service False])"
    by (rule request_some [OF begin_run, where extractors = "[''e'']"]) (simp add: findAndUploadFile_def)
  have r2: "file_run cfg (\<lambda>_. Inr None) [7] (([] @ []) @ [Ask_extractor ''e'' ''/f''])
      ([], [?u Find_service False][0 := ?u Await_response False])"
    by (rule thread_step [OF r1, where input = Service_ready and j = 0]) (simp_all add: step_thread_def thread_turn_def)
  have r3: "file_run cfg (\<lambda>_. Inr None) [7] ((([] @ []) @ [Ask_extractor ''e'' ''/f'']) @ [])
      ([(''/f'', [])], ([?u Find_service False][0 := ?u Await_response False])[0 := ?u (Await_chunks 1) False])"
    by (rule thread_step [OF r2, where input = "Response_found 1" and j = 0]) (simp_all add: step_thread_def thread_turn_def table)
  have "\<exists>out. receiveChunk cfg (Http 200 []) \<lparr>ch_path = ''/f'', ch_number = 1, ch_data = []\<rparr> [(''/f'', [])] = ([(''/f'', [(1, True)])], out)"
    by (simp add: receiveChunk_def markChunkResult_def memplace_def)
  with chunk [OF r3] have "\<exists>tr. file_run cfg (\<lambda>_. Inr None) [7] tr ([(''/f'', [(1, True)])], [?u (Await_chunks 1) False])"
    by fastforce
  then obtain tr where r: "file_run cfg (\<lambda>_. Inr None) [7] tr ([(''/f'', [(1, True)])], [?u (Await_chunks 1) False])" by blast
  have "file_run cfg (\<lambda>_. Inr None) [7] (tr @ [complete_request cfg ''/f'' 1, Server_replied 7 [], File_ack 7 (name_reply None)])
      ([(''/f'', [(1, True)])], [?u (Await_chunks 1) False][0 := ?u Finished True])"
    by (rule thread_step [OF r, where answer = "Http 200 []" and input = Chunks_seen and j = 0])
       (simp_all add: step_thread_def thread_turn_def chunks_missing_def complete_upload_def)
  then have "file_run cfg (\<lambda>_. Inr None) [7] (tr @ [complete_request cfg ''/f'' 1, Server_replied 7 [], File_ack 7 (name_reply None)])
      ([(''/f'', [(1, True)])], [] @ ?u Finished True # [])" by simp
  from join_all [OF this] show ?thesis by (auto simp: all_joined_def)
qed

theorem file_requests_answered_witness:
  "\<forall>cfg0. \<exists>tr m. File_ack 7 m \<in> set tr \<and> (\<exists>t. file_run cfg0 (\<lambda>_. Inr None) [7] tr (t, []))"
proof
  fix cfg0
  from sample_upload obtain tr t where r: "file_run cfg0 (\<lambda>_. Inr None) [7] tr (t, [])" by blast
  from file_requests_answered [OF r] have "\<exists>m. File_ack 7 m \<in> set tr" by simp
  with r show "\<exists>tr m. File_ack 7 m \<in> set tr \<and> (\<exists>t. file_run cfg0 (\<lambda>_. Inr None) [7] tr (t, []))" by blast
qed

text \<open>One extractor's failure overrules another's success: the request is then acknowledged a second time, with null. And a
  reply of the server that is no JSON object leaves the request without any acknowledgement.\<close>

lemma failure_overrules:
  assumes "ul_threads u ! j = (e, Await_chunks n)" "map_of t (ul_path u) = Some chunks" "\<not> chunks_missing chunks n"
    and "list_ex (\<lambda>c. \<not> snd c) chunks" "step_thread cfg reply_name answer Chunks_seen j u t = (u', t', out)"
  shows "finish_upload u' = [File_ack (ul_msg u) Null_msg]"
  using assms by (auto simp: step_thread_def thread_turn_def complete_upload_def finish_upload_def)

lemma odd_reply_unanswered:
  assumes "list_all snd chunks" "reply_name body = Inl e"
  shows "complete_upload cfg reply_name (Http 200 body) chunks u n =
    (True, [complete_request cfg (ul_path u) n, Server_replied (ul_msg u) body])"
  using assms by (auto simp: complete_upload_def list_ex_iff list_all_iff)

end
