(* ===== verification/Services.thy ===== *)
theory Services
  imports Bridge
begin

text \<open>
  \<open>src/generic_services.cpp\<close>: calling a ROS service with a socket.io message. The types of request and response
  are known only at run time, as introspection data: a list of members, each with a type, an array flag and the
  members of a nested message. The fields of a ROS message are its memory, one value per member in member order
  (the code computes \<open>offset_\<close>); reading memory as another type than it has is undefined. What belongs to rosidl
  (initial values, resizing a sequence) and the conversions of floating point numbers and of UTF-8 to UTF-16 is
  \<open>rosidl\<close>. Logging (\<open>verbose\<close>) and the memory allocated on the way are left out.
\<close>

section \<open>Types and values\<close>

datatype ros_type =
    ROS_TYPE_BOOL | ROS_TYPE_BYTE | ROS_TYPE_UINT8 | ROS_TYPE_CHAR | ROS_TYPE_INT8
  | ROS_TYPE_FLOAT32 | ROS_TYPE_FLOAT64 | ROS_TYPE_INT16 | ROS_TYPE_UINT16 | ROS_TYPE_INT32 | ROS_TYPE_UINT32
  | ROS_TYPE_INT64 | ROS_TYPE_UINT64 | ROS_TYPE_STRING | ROS_TYPE_WSTRING | ROS_TYPE_MESSAGE
  | Other_type nat

datatype member =
  Member (m_name: string) (type_id: ros_type) (is_array: bool) (is_upper_bound: bool) (array_size: nat)
    (nested_members: "member list")

datatype ros_value =
    V_bool bool
  | V_uint8 "8 word" | V_int8 "8 word" | V_float32 "32 word" | V_float64 "64 word"
  | V_int16 "16 word" | V_uint16 "16 word" | V_int32 "32 word" | V_uint32 "32 word"
  | V_int64 "64 word" | V_uint64 "64 word"
  | V_string string | V_wstring "16 word list"
  | V_message "ros_value list"
  | V_array "ros_value list"

record rosidl =
  ri_init :: "member list \<Rightarrow> ros_value list"
  ri_resize :: "member \<Rightarrow> nat \<Rightarrow> ros_value list \<Rightarrow> ros_value list res"
  ri_float :: "64 word \<Rightarrow> 32 word"
  ri_double :: "32 word \<Rightarrow> 64 word"
  ri_wide :: "string \<Rightarrow> 16 word list res"
  ri_narrow :: "16 word list \<Rightarrow> string res"

text \<open>The functions return an error text, empty if all is well, and leave what they changed behind.\<close>

type_synonym 'a outcome = "(string \<times> 'a) res"

definition ok_or :: "'a outcome \<Rightarrow> ('a \<Rightarrow> 'a outcome) \<Rightarrow> 'a outcome" where
  "ok_or r f = bindR r (\<lambda>(err, x). if err = [] then f x else Inr (err, x))"

primrec loopE :: "('x \<Rightarrow> 'a \<Rightarrow> 'a outcome) \<Rightarrow> 'x list \<Rightarrow> 'a \<Rightarrow> 'a outcome" where
  "loopE f [] a = Inr ([], a)"
| "loopE f (x # xs) a = ok_or (f x a) (loopE f xs)"

lemma loopE_cong [fundef_cong]:
  "xs = ys \<Longrightarrow> a = b \<Longrightarrow> (\<And>x c. x \<in> set ys \<Longrightarrow> f x c = g x c) \<Longrightarrow> loopE f xs a = loopE g ys b"
proof (induction ys arbitrary: xs a b)
  case Nil
  then show ?case by simp
next
  case (Cons y ys)
  have "loopE f ys = loopE g ys" by (rule ext, rule Cons.IH) (simp_all add: Cons.prems)
  with Cons.prems show ?case by simp
qed

section \<open>Writing a request\<close>

text \<open>A value of another flag counts as zero, false or the empty string.\<close>

definition int_or_0 :: "message \<Rightarrow> 64 word" where
  "int_or_0 m = (case m of Int_msg v \<Rightarrow> v | _ \<Rightarrow> 0)"

definition double_or_0 :: "message \<Rightarrow> 64 word" where
  "double_or_0 m = (case m of Double_msg v \<Rightarrow> v | _ \<Rightarrow> 0)"

definition string_or_empty :: "message \<Rightarrow> string" where
  "string_or_empty m = (case m of String_msg s \<Rightarrow> s | _ \<Rightarrow> [])"

fun request_leaf :: "rosidl \<Rightarrow> ros_type \<Rightarrow> message \<Rightarrow> ros_value option res" where
  "request_leaf P ROS_TYPE_BOOL m = Inr (Some (V_bool (case m of Bool_msg b \<Rightarrow> b | _ \<Rightarrow> False)))"
| "request_leaf P ROS_TYPE_BYTE m = Inr (Some (V_uint8 (ucast (int_or_0 m))))"
| "request_leaf P ROS_TYPE_UINT8 m = Inr (Some (V_uint8 (ucast (int_or_0 m))))"
| "request_leaf P ROS_TYPE_CHAR m = Inr (Some (V_int8 (ucast (int_or_0 m))))"
| "request_leaf P ROS_TYPE_INT8 m = Inr (Some (V_int8 (ucast (int_or_0 m))))"
| "request_leaf P ROS_TYPE_FLOAT32 m = Inr (Some (V_float32 (ri_float P (double_or_0 m))))"
| "request_leaf P ROS_TYPE_FLOAT64 m = Inr (Some (V_float64 (double_or_0 m)))"
| "request_leaf P ROS_TYPE_INT16 m = Inr (Some (V_int16 (ucast (int_or_0 m))))"
| "request_leaf P ROS_TYPE_UINT16 m = Inr (Some (V_uint16 (ucast (int_or_0 m))))"
| "request_leaf P ROS_TYPE_INT32 m = Inr (Some (V_int32 (ucast (int_or_0 m))))"
| "request_leaf P ROS_TYPE_UINT32 m = Inr (Some (V_uint32 (ucast (int_or_0 m))))"
| "request_leaf P ROS_TYPE_INT64 m = Inr (Some (V_int64 (int_or_0 m)))"
| "request_leaf P ROS_TYPE_UINT64 m = Inr (Some (V_uint64 (int_or_0 m)))"
| "request_leaf P ROS_TYPE_STRING m = Inr (Some (V_string (string_or_empty m)))"
| "request_leaf P ROS_TYPE_WSTRING m = bindR (ri_wide P (string_or_empty m)) (\<lambda>w. Inr (Some (V_wstring w)))"
| "request_leaf P ROS_TYPE_MESSAGE m = Inr None"
| "request_leaf P (Other_type n) m = Inr None"

text \<open>The type ids of rosidl that the code does not treat; \<open>type_num\<close> prints them.\<close>

definition type_num :: "ros_type \<Rightarrow> nat" where
  "type_num ty = (case ty of Other_type n \<Rightarrow> n | _ \<Rightarrow> 0)"

text \<open>\<open>assign_function\<close> for an element of an array, an assignment through the pointer otherwise.\<close>

definition place :: "member \<Rightarrow> nat \<Rightarrow> ros_value \<Rightarrow> ros_value \<Rightarrow> ros_value res" where
  "place mb index v field =
     (if is_array mb then (case field of
          V_array xs \<Rightarrow> if index < length xs then Inr (V_array (xs[index := v])) else Inl Ub
        | _ \<Rightarrow> Inl Ub)
      else Inr v)"

definition resize :: "rosidl \<Rightarrow> member \<Rightarrow> nat \<Rightarrow> ros_value \<Rightarrow> ros_value res" where
  "resize P mb n field =
     (case field of V_array xs \<Rightarrow> bindR (ri_resize P mb n xs) (\<lambda>ys. Inr (V_array ys)) | _ \<Rightarrow> Inl Ub)"

definition member_index :: "member list \<Rightarrow> string \<Rightarrow> nat option" where
  "member_index members key = find_idx (\<lambda>mb. m_name mb = key) members"

definition quoted :: "string \<Rightarrow> string" where
  "quoted key = [CHR 0x27] @ key @ [CHR 0x27]"

text \<open>
  An error of a nested message is dropped. An array with an upper bound gets at least \<open>array_size_\<close> elements; a
  shorter vector of values is then read beyond its end.
\<close>

lemma object_member_size: "kv \<in> set kvs \<Longrightarrow> size_option size (snd kv) < size (Object_msg kvs)"
  by (induction kvs) (auto simp: size_prod_simp)

lemma array_element_size: "x \<in> set xs \<Longrightarrow> size_option size x < size (Array_msg xs)"
  by (induction xs) auto

lemma enumerate_element: "ix \<in> set (List.enumerate n xs) \<Longrightarrow> snd ix \<in> set xs"
  by (cases ix) (auto simp: enumerate_eq_zip dest: set_zip_rightD)

function SetRequestFieldValue :: "rosidl \<Rightarrow> member \<Rightarrow> nat \<Rightarrow> msg_ptr \<Rightarrow> ros_value \<Rightarrow> ros_value outcome"
  and MapSocketMessageToRequest :: "rosidl \<Rightarrow> member list \<Rightarrow> message \<Rightarrow> ros_value list \<Rightarrow> ros_value list outcome" where
  "SetRequestFieldValue P mb index p field =
     bindR (deref p) (\<lambda>m.
     case type_id mb of
       ROS_TYPE_MESSAGE \<Rightarrow>
         (if get_flag m \<noteq> flag_object then Inr (''Attribute is not an object'', field)
          else if is_array mb then
            bindR (MapSocketMessageToRequest P (nested_members mb) m (ri_init P (nested_members mb))) (\<lambda>(err, fs).
            bindR (place mb index (V_message fs) field) (\<lambda>f. Inr ([], f)))
          else case field of
              V_message fs \<Rightarrow>
                bindR (MapSocketMessageToRequest P (nested_members mb) m fs) (\<lambda>(err, fs'). Inr ([], V_message fs'))
            | _ \<Rightarrow> Inl Ub)
     | ty \<Rightarrow>
         bindR (request_leaf P ty m) (\<lambda>r.
         case r of None \<Rightarrow> Inr (''Unsupported request member type: '' @ show_nat (type_num ty), field)
         | Some v \<Rightarrow> bindR (place mb index v field) (\<lambda>f. Inr ([], f))))"
| "MapSocketMessageToRequest P members m vals =
     (case m of
        Null_msg \<Rightarrow> Inr ([], vals)
      | Object_msg kvs \<Rightarrow>
          loopE (\<lambda>kv fs.
            case member_index members (fst kv) of
              None \<Rightarrow> Inr (''Key '' @ quoted (fst kv) @ '' not found in type definition'', fs)
            | Some i \<Rightarrow>
                if length fs \<le> i then Inl Ub
                else if is_array (members ! i) then
                  bindR (deref (snd kv)) (\<lambda>v.
                  case v of
                    Array_msg xs \<Rightarrow>
                      bindR (resize P (members ! i)
                               (if is_upper_bound (members ! i) then max (length xs) (array_size (members ! i)) else length xs)
                               (fs ! i)) (\<lambda>field.
                      bindR (loopE (\<lambda>ix. SetRequestFieldValue P (members ! i) (fst ix) (snd ix)) (List.enumerate 0 xs) field) (\<lambda>(err, f).
                        if err \<noteq> [] then Inr (err, fs[i := f])
                        else if is_upper_bound (members ! i) \<and> length xs < array_size (members ! i) then Inl Ub
                        else Inr ([], fs[i := f])))
                  | _ \<Rightarrow> Inr (''Request attribute '' @ quoted (fst kv) @ '' not an array in provided data'', fs))
                else
                  bindR (SetRequestFieldValue P (members ! i) 0 (snd kv) (fs ! i)) (\<lambda>(err, f). Inr (err, fs[i := f])))
            kvs vals
      | _ \<Rightarrow> Inr (''Input data is not an object'', vals))"
  by pat_completeness auto
termination
proof (relation "measure (\<lambda>x. case x of Inl (_, _, _, p, _) \<Rightarrow> 2 * size_option size p | Inr (_, _, m, _) \<Rightarrow> 2 * size m + 1)", goal_cases)
  case 1
  show ?case by simp
next
  case (2 P mb index p field m)
  then show ?case by (auto simp: deref_def split: option.splits)
next
  case (3 P mb index p field m)
  then show ?case by (auto simp: deref_def split: option.splits)
next
  case (4 P members m vals kvs kv fs i v xs field ix)
  then have "kv \<in> set kvs" "snd kv = Some (Array_msg xs)" "snd ix \<in> set xs"
    by (auto simp: deref_def enumerate_element split: option.splits)
  from object_member_size [OF this(1)] array_element_size [OF this(3)] this(2) \<open>m = Object_msg kvs\<close>
  show ?case by simp
next
  case (5 P members m vals kvs kv fs i)
  from object_member_size [OF 5(2)] \<open>m = Object_msg kvs\<close> show ?case by simp
qed

declare SetRequestFieldValue.simps [simp del] MapSocketMessageToRequest.simps [simp del]

section \<open>Reading a response\<close>

definition response_leaf :: "rosidl \<Rightarrow> ros_type \<Rightarrow> ros_value \<Rightarrow> message res" where
  "response_leaf P ty v =
     (case ty of
        ROS_TYPE_BOOL \<Rightarrow> (case v of V_bool x \<Rightarrow> Inr (Bool_msg x) | _ \<Rightarrow> Inl Ub)
      | ROS_TYPE_BYTE \<Rightarrow> (case v of V_uint8 x \<Rightarrow> Inr (Int_msg (ucast x)) | _ \<Rightarrow> Inl Ub)
      | ROS_TYPE_UINT8 \<Rightarrow> (case v of V_uint8 x \<Rightarrow> Inr (Int_msg (ucast x)) | _ \<Rightarrow> Inl Ub)
      | ROS_TYPE_CHAR \<Rightarrow> (case v of V_int8 x \<Rightarrow> Inr (Int_msg (scast x)) | _ \<Rightarrow> Inl Ub)
      | ROS_TYPE_INT8 \<Rightarrow> (case v of V_int8 x \<Rightarrow> Inr (Int_msg (scast x)) | _ \<Rightarrow> Inl Ub)
      | ROS_TYPE_FLOAT32 \<Rightarrow> (case v of V_float32 x \<Rightarrow> Inr (Double_msg (ri_double P x)) | _ \<Rightarrow> Inl Ub)
      | ROS_TYPE_FLOAT64 \<Rightarrow> (case v of V_float64 x \<Rightarrow> Inr (Double_msg x) | _ \<Rightarrow> Inl Ub)
      | ROS_TYPE_INT16 \<Rightarrow> (case v of V_int16 x \<Rightarrow> Inr (Int_msg (scast x)) | _ \<Rightarrow> Inl Ub)
      | ROS_TYPE_UINT16 \<Rightarrow> (case v of V_uint16 x \<Rightarrow> Inr (Int_msg (ucast x)) | _ \<Rightarrow> Inl Ub)
      | ROS_TYPE_INT32 \<Rightarrow> (case v of V_int32 x \<Rightarrow> Inr (Int_msg (scast x)) | _ \<Rightarrow> Inl Ub)
      | ROS_TYPE_UINT32 \<Rightarrow> (case v of V_uint32 x \<Rightarrow> Inr (Int_msg (ucast x)) | _ \<Rightarrow> Inl Ub)
      | ROS_TYPE_INT64 \<Rightarrow> (case v of V_int64 x \<Rightarrow> Inr (Int_msg x) | _ \<Rightarrow> Inl Ub)
      | ROS_TYPE_UINT64 \<Rightarrow> (case v of V_uint64 x \<Rightarrow> Inr (Int_msg x) | _ \<Rightarrow> Inl Ub)
      | ROS_TYPE_STRING \<Rightarrow> (case v of V_string x \<Rightarrow> Inr (String_msg x) | _ \<Rightarrow> Inl Ub)
      | ROS_TYPE_WSTRING \<Rightarrow> (case v of V_wstring x \<Rightarrow> bindR (ri_narrow P x) (\<lambda>s. Inr (String_msg s)) | _ \<Rightarrow> Inl Ub)
      | _ \<Rightarrow> Inl Ub)"

text \<open>\<open>fetch_function\<close> for an element of an array, the field itself otherwise.\<close>

definition fetch :: "nat option \<Rightarrow> ros_value \<Rightarrow> ros_value res" where
  "fetch index field =
     (case index of None \<Rightarrow> Inr field
      | Some j \<Rightarrow> (case field of V_array xs \<Rightarrow> if j < length xs then Inr (xs ! j) else Inl Ub | _ \<Rightarrow> Inl Ub))"

definition fields_of :: "member list \<Rightarrow> ros_value \<Rightarrow> (member \<times> ros_value) list res" where
  "fields_of mbs v = (case v of V_message fs \<Rightarrow> if length fs = length mbs then Inr (zip mbs fs) else Inl Ub | _ \<Rightarrow> Inl Ub)"

definition put_member :: "string \<Rightarrow> message \<Rightarrow> message \<Rightarrow> message outcome" where
  "put_member key res out_target =
     (case out_target of Object_msg kvs \<Rightarrow> Inr ([], Object_msg (memplace key (Some res) kvs)) | _ \<Rightarrow> Inl Assert_fail)"

definition add_value :: "nat option \<Rightarrow> string \<Rightarrow> message \<Rightarrow> message \<Rightarrow> message outcome" where
  "add_value index key res out_target =
     (case index of None \<Rightarrow> put_member key res out_target
      | Some _ \<Rightarrow> (case out_target of Array_msg xs \<Rightarrow> Inr ([], Array_msg (xs @ [Some res])) | _ \<Rightarrow> Inl Assert_fail))"

lemma member_size: "x \<in> set mbs \<Longrightarrow> size x < Suc (size_list size mbs)"
  by (induction mbs) auto

lemma fields_of_member: "fields_of mbs v = Inr fs \<Longrightarrow> x \<in> set fs \<Longrightarrow> size (fst x) < Suc (size_list size mbs)"
  by (cases x) (auto simp: fields_of_def intro!: member_size split: ros_value.splits if_splits dest: set_zip_leftD)

lemma nested_size: "size_list size (nested_members mb) < size mb"
  by (cases mb) simp

function SetOneResponseValue ::
    "rosidl \<Rightarrow> ros_value \<Rightarrow> member \<Rightarrow> message \<Rightarrow> string \<Rightarrow> nat option \<Rightarrow> message outcome"
  and SetResponseFieldValue :: "rosidl \<Rightarrow> ros_value \<Rightarrow> member \<Rightarrow> message \<Rightarrow> string \<Rightarrow> message outcome" where
  "SetOneResponseValue P field mb out_target key index =
     (case type_id mb of
        Other_type n \<Rightarrow> Inr (''Unsupported response member type '' @ show_nat n, out_target)
      | ROS_TYPE_MESSAGE \<Rightarrow>
          bindR (fetch index field) (\<lambda>obj.
          bindR (fields_of (nested_members mb) obj) (\<lambda>fs.
          bindR (loopE (\<lambda>mf res.
                   if is_array (fst mf) \<or> type_id (fst mf) = ROS_TYPE_MESSAGE
                   then SetResponseFieldValue P (snd mf) (fst mf) res (m_name (fst mf))
                   else SetOneResponseValue P (snd mf) (fst mf) res (m_name (fst mf)) None) fs (Object_msg [])) (\<lambda>(err, res).
          if err \<noteq> [] then Inr (err, out_target) else add_value index key res out_target)))
      | ty \<Rightarrow>
          bindR (fetch index field) (\<lambda>v.
          bindR (response_leaf P ty v) (\<lambda>res. add_value index key res out_target)))"
| "SetResponseFieldValue P field mb out_target key =
     (if is_array mb then (case field of
          V_array xs \<Rightarrow>
            bindR (loopE (\<lambda>j out. SetOneResponseValue P field mb out key (Some j)) [0..<length xs] (Array_msg [])) (\<lambda>(err, out).
            if err \<noteq> [] then Inr (err, out_target) else put_member key out out_target)
        | _ \<Rightarrow> Inl Ub)
      else if type_id mb = ROS_TYPE_MESSAGE then
        bindR (fields_of (nested_members mb) field) (\<lambda>fs.
        bindR (loopE (\<lambda>mf res.
                 if is_array (fst mf)
                 then SetResponseFieldValue P (snd mf) (fst mf) res (m_name (fst mf))
                 else SetOneResponseValue P (snd mf) (fst mf) res (m_name (fst mf)) None) fs (Object_msg [])) (\<lambda>(err, res).
        if err \<noteq> [] then Inr (err, out_target) else put_member key res out_target))
      else SetOneResponseValue P field mb out_target key None)"
  by pat_completeness auto
termination
proof (relation "measure (\<lambda>x. case x of Inl (_, _, mb, _, _, _) \<Rightarrow> 2 * size mb | Inr (_, _, mb, _, _) \<Rightarrow> 2 * size mb + 1)", goal_cases)
  case 1
  show ?case by simp
next
  case (2 P field mb out_target key index obj fs mf res)
  with fields_of_member [OF 2(3) 2(4)] nested_size [of mb] show ?case by simp
next
  case (3 P field mb out_target key index obj fs mf res)
  with fields_of_member [OF 3(3) 3(4)] nested_size [of mb] show ?case by simp
next
  case (4 P field mb out_target key xs j out)
  then show ?case by simp
next
  case (5 P field mb out_target key fs mf res)
  with fields_of_member [OF 5(3) 5(4)] nested_size [of mb] show ?case by simp
next
  case (6 P field mb out_target key fs mf res)
  with fields_of_member [OF 6(3) 6(4)] nested_size [of mb] show ?case by simp
next
  case (7 P field mb out_target key)
  then show ?case by simp
qed

declare SetOneResponseValue.simps [simp del] SetResponseFieldValue.simps [simp del]

definition MapResponseToSocketMessage :: "rosidl \<Rightarrow> ros_value list \<Rightarrow> member list \<Rightarrow> message \<Rightarrow> message outcome" where
  "MapResponseToSocketMessage P response members out_data =
     bindR (fields_of members (V_message response)) (\<lambda>fs.
     loopE (\<lambda>mf out. SetResponseFieldValue P (snd mf) (fst mf) out (m_name (fst mf))) fs out_data)"

section \<open>The call\<close>

text \<open>
  The dynamic loader, rcl and the type support libraries: what they answer. A type support is the number of its
  symbol; the members of request and response are read from it. A client is known by the type support and the
  service name it was made with.
\<close>

datatype wait_answer = Wait_ok | Wait_timeout | Wait_failed string

type_synonym srv_client = "nat \<times> string"

record srv_env =
  sv_rosidl :: rosidl
  sv_dlopen :: "string \<Rightarrow> string + nat"
  sv_dlsym :: "nat \<Rightarrow> string \<Rightarrow> string + nat"
  sv_service_ts :: "nat \<Rightarrow> nat option"
  sv_client_init :: "nat \<Rightarrow> string \<Rightarrow> string option"
  sv_members :: "nat \<Rightarrow> member list"
  sv_send :: "srv_client \<Rightarrow> ros_value list \<Rightarrow> string + int"
  sv_wait_set_init :: "string option"
  sv_add_client :: "srv_client \<Rightarrow> string option"
  sv_wait :: "64 word \<Rightarrow> wait_answer"
  sv_take :: "srv_client \<Rightarrow> string + (int \<times> ros_value list)"

record services =
  srv_library_handle_cache :: "(string, nat) omap"
  srv_types_cache :: "(string, member list \<times> member list) omap"
  srv_client_cache :: "(string, srv_client) omap"

datatype srv_effect =
    Log_error string
  | Sv_ack int message
  | Request srv_client "ros_value list"
  | Dlclose nat

type_synonym 'a sact = "(services, srv_effect, 'a) act"

text \<open>The stages return an error text or a value; \<open>tryA\<close> goes on after a value.\<close>

definition tryA :: "(string + 'a) sact \<Rightarrow> ('a \<Rightarrow> (string + 'b) sact) \<Rightarrow> (string + 'b) sact" where
  "tryA m f = bindA m (\<lambda>r. case r of Inl err \<Rightarrow> retA (Inl err) | Inr x \<Rightarrow> f x)"

definition load_library :: "srv_env \<Rightarrow> string \<Rightarrow> string \<Rightarrow> string \<Rightarrow> (string + nat) sact" where
  "load_library E key lib_name failure =
     bindA (getA (\<lambda>s. map_of (srv_library_handle_cache s) key)) (\<lambda>cached.
     case cached of Some h \<Rightarrow> retA (Inr h)
     | None \<Rightarrow>
         (case sv_dlopen E lib_name of
            Inl e \<Rightarrow> retA (Inl (failure @ e))
          | Inr h \<Rightarrow>
              thenA (modA (\<lambda>s. s\<lparr>srv_library_handle_cache := memplace key h (srv_library_handle_cache s)\<rparr>)) (retA (Inr h))))"

definition new_client :: "srv_env \<Rightarrow> string \<Rightarrow> string \<Rightarrow> string \<Rightarrow> (string + srv_client) sact" where
  "new_client E package_name srv_name service_name =
     tryA (load_library E package_name (''lib'' @ package_name @ ''__rosidl_typesupport_cpp.so'') ''Library load error: '') (\<lambda>h.
     case sv_dlsym E h (''rosidl_typesupport_cpp__get_service_type_support_handle__'' @ package_name @ ''__srv__'' @ srv_name) of
       Inl e \<Rightarrow> retA (Inl (''Symbol load error: '' @ e))
     | Inr get_service_ts \<Rightarrow>
         (case sv_service_ts E get_service_ts of
            None \<Rightarrow> retA (Inl ''Failed to get type support'')
          | Some ts \<Rightarrow>
              (case sv_client_init E ts service_name of
                 Some e \<Rightarrow> retA (Inl (''Client init failed: '' @ e))
               | None \<Rightarrow>
                   thenA (modA (\<lambda>s. s\<lparr>srv_client_cache := memplace service_name (ts, service_name) (srv_client_cache s)\<rparr>))
                         (retA (Inr (ts, service_name))))))"

definition service_client :: "srv_env \<Rightarrow> string \<Rightarrow> string \<Rightarrow> string \<Rightarrow> (string + srv_client) sact" where
  "service_client E package_name srv_name service_name =
     bindA (getA (\<lambda>s. map_of (srv_client_cache s) service_name)) (\<lambda>cached.
     case cached of Some c \<Rightarrow> retA (Inr c) | None \<Rightarrow> new_client E package_name srv_name service_name)"

definition introspection_symbol :: "string \<Rightarrow> string \<Rightarrow> string \<Rightarrow> string" where
  "introspection_symbol package_name srv_name part =
     ''rosidl_typesupport_introspection_cpp__get_message_type_support_handle__'' @ package_name @ ''__srv__'' @ srv_name @ part"

definition new_types :: "srv_env \<Rightarrow> string \<Rightarrow> string \<Rightarrow> string \<Rightarrow> (string + member list \<times> member list) sact" where
  "new_types E package_name srv_name service_name =
     tryA (load_library E (package_name @ ''_introspection'')
             (''lib'' @ package_name @ ''__rosidl_typesupport_introspection_cpp.so'') ''Introspection library load error: '') (\<lambda>h.
     case sv_dlsym E h (introspection_symbol package_name srv_name ''_Request'') of
       Inl e \<Rightarrow> retA (Inl (''Request introspection symbol load error: '' @ e))
     | Inr req \<Rightarrow>
         (case sv_dlsym E h (introspection_symbol package_name srv_name ''_Response'') of
            Inl e \<Rightarrow> retA (Inl (''Response introspection symbol load error:: '' @ e))
          | Inr resp \<Rightarrow>
              thenA (modA (\<lambda>s. s\<lparr>srv_types_cache := memplace service_name (sv_members E req, sv_members E resp) (srv_types_cache s)\<rparr>))
                    (retA (Inr (sv_members E req, sv_members E resp)))))"

definition service_types :: "srv_env \<Rightarrow> string \<Rightarrow> string \<Rightarrow> string \<Rightarrow> (string + member list \<times> member list) sact" where
  "service_types E package_name srv_name service_name =
     bindA (getA (\<lambda>s. map_of (srv_types_cache s) service_name)) (\<lambda>cached.
     case cached of Some t \<Rightarrow> retA (Inr t) | None \<Rightarrow> new_types E package_name srv_name service_name)"

text \<open>A missing or null \<open>msg\<close> is the null message.\<close>

definition request_data :: "sio_event \<Rightarrow> message res" where
  "request_data ev =
     bindR (deref (get_message ev)) (\<lambda>m. bindR (get_map m) (\<lambda>kvs.
       case map_of kvs ''msg'' of Some (Some d) \<Rightarrow> Inr d | _ \<Rightarrow> Inr Null_msg))"

definition make_request :: "srv_env \<Rightarrow> member list \<Rightarrow> sio_event \<Rightarrow> (string + ros_value list) sact" where
  "make_request E members ev =
     bindA (liftA (request_data ev)) (\<lambda>d.
     bindA (liftA (MapSocketMessageToRequest (sv_rosidl E) members d (ri_init (sv_rosidl E) members))) (\<lambda>(err, request).
       retA (if err \<noteq> [] then Inl (''Error mapping request data: '' @ err) else Inr request)))"

definition failed :: "string \<Rightarrow> string option \<Rightarrow> (string + unit) sact" where
  "failed what e = retA (case e of None \<Rightarrow> Inr () | Some t \<Rightarrow> Inl (what @ t))"

text \<open>With the client's mutex held. Neither the sequence number nor the header of the response is looked at.\<close>

definition exchange :: "srv_env \<Rightarrow> 64 word \<Rightarrow> srv_client \<Rightarrow> ros_value list \<Rightarrow> (string + ros_value list) sact" where
  "exchange E timeout client request =
     thenA (emitA [Request client request])
     (tryA (retA (case sv_send E client request of Inl e \<Rightarrow> Inl (''Failed to send request: '' @ e) | Inr n \<Rightarrow> Inr n)) (\<lambda>sequence_number.
      tryA (failed ''Failed to initialize wait set: '' (sv_wait_set_init E)) (\<lambda>_.
      tryA (failed ''Failed to add client to wait set: '' (sv_add_client E client)) (\<lambda>_.
      case sv_wait E timeout of
        Wait_timeout \<Rightarrow> retA (Inl ''Service call timed out.'')
      | Wait_failed e \<Rightarrow> retA (Inl (''Error during wait: '' @ e))
      | Wait_ok \<Rightarrow>
          retA (case sv_take E client of Inl e \<Rightarrow> Inl (''Failed to take response: '' @ e) | Inr (header, response) \<Rightarrow> Inr response)))))"

definition make_reply :: "srv_env \<Rightarrow> member list \<Rightarrow> ros_value list \<Rightarrow> (string + message) sact" where
  "make_reply E members response =
     bindA (liftA (MapResponseToSocketMessage (sv_rosidl E) response members (Object_msg []))) (\<lambda>(err, reply).
       retA (if err \<noteq> [] then Inl (''Error mapping result data: '' @ err) else Inr reply))"

definition call_stages :: "srv_env \<Rightarrow> 64 word \<Rightarrow> string \<Rightarrow> string \<Rightarrow> string \<Rightarrow> sio_event \<Rightarrow> (string + message) sact" where
  "call_stages E timeout package_name srv_name service_name ev =
     tryA (service_client E package_name srv_name service_name) (\<lambda>client.
     tryA (service_types E package_name srv_name service_name) (\<lambda>(request_members, response_members).
     tryA (make_request E request_members ev) (\<lambda>request.
     tryA (exchange E timeout client request) (\<lambda>response.
     make_reply E response_members response))))"

definition returnServiceError :: "string \<Rightarrow> sio_event \<Rightarrow> unit sact" where
  "returnServiceError err ev = emitA [Log_error err, Sv_ack (ev_msgId ev) (err_message err)]"

definition callGenericService :: "srv_env \<Rightarrow> 64 word \<Rightarrow> string \<Rightarrow> string \<Rightarrow> sio_event \<Rightarrow> unit sact" where
  "callGenericService E timeout service_name service_type ev =
     (let parts = split service_type (CHR ''/'')
      in if length parts < 3 then liftA (Inl Ub)
         else bindA (call_stages E timeout (parts ! 0) (parts ! 2) service_name ev) (\<lambda>r.
           case r of Inl err \<Rightarrow> returnServiceError err ev
           | Inr reply \<Rightarrow> emitA [Sv_ack (ev_msgId ev) reply]))"

definition clearServicesCache :: "unit sact" where
  "clearServicesCache =
     bindA (getA (\<lambda>s. map (Dlclose \<circ> snd) (srv_library_handle_cache s))) (\<lambda>out.
     thenA (emitA out)
     (modA (\<lambda>s. s\<lparr>srv_library_handle_cache := [], srv_client_cache := [], srv_types_cache := []\<rparr>)))"

text \<open>The call started by a \<open>service\<close> event runs in a thread of its own; its acknowledgement goes through the bridge
  (\<open>BridgeSocket::ack\<close>), which drops it without a connection.\<close>

definition bridge_acks :: "bridge \<Rightarrow> srv_effect list \<Rightarrow> bridge_effect list" where
  "bridge_acks b out =
     concat (map (\<lambda>e. case e of Sv_ack i m \<Rightarrow> if br_connected b then [Ack i m] else [] | _ \<Rightarrow> []) out)"

definition run_service_call :: "srv_env \<Rightarrow> bridge_effect \<Rightarrow> bridge \<Rightarrow> services \<Rightarrow> unit res \<times> bridge_effect list \<times> services" where
  "run_service_call E call b s =
     (case call of
        Call_service name ty ev \<Rightarrow>
          (case callGenericService E (cf_service_timeout_ns (br_cfg b)) name ty ev s of
             (r, out, s') \<Rightarrow> (r, bridge_acks b out, s'))
      | _ \<Rightarrow> (Inr (), [], s))"

end
