(* ===== verification/ServiceLaws.thy ===== *)
theory ServiceLaws
  imports Services
begin

text \<open>
  What a service call promises: the memory of a request keeps its types whatever the client sends; a request made
  of a response gives that response back; the mapping of a response equals a plain recursive function; each call that
  returns is acknowledged once; entries of the caches never change.
\<close>

section \<open>Typed memory\<close>

definition leaf_type :: "ros_type \<Rightarrow> ros_value \<Rightarrow> bool" where
  "leaf_type ty v =
     (case ty of
        ROS_TYPE_BOOL \<Rightarrow> (case v of V_bool _ \<Rightarrow> True | _ \<Rightarrow> False)
      | ROS_TYPE_BYTE \<Rightarrow> (case v of V_uint8 _ \<Rightarrow> True | _ \<Rightarrow> False)
      | ROS_TYPE_UINT8 \<Rightarrow> (case v of V_uint8 _ \<Rightarrow> True | _ \<Rightarrow> False)
      | ROS_TYPE_CHAR \<Rightarrow> (case v of V_int8 _ \<Rightarrow> True | _ \<Rightarrow> False)
      | ROS_TYPE_INT8 \<Rightarrow> (case v of V_int8 _ \<Rightarrow> True | _ \<Rightarrow> False)
      | ROS_TYPE_FLOAT32 \<Rightarrow> (case v of V_float32 _ \<Rightarrow> True | _ \<Rightarrow> False)
      | ROS_TYPE_FLOAT64 \<Rightarrow> (case v of V_float64 _ \<Rightarrow> True | _ \<Rightarrow> False)
      | ROS_TYPE_INT16 \<Rightarrow> (case v of V_int16 _ \<Rightarrow> True | _ \<Rightarrow> False)
      | ROS_TYPE_UINT16 \<Rightarrow> (case v of V_uint16 _ \<Rightarrow> True | _ \<Rightarrow> False)
      | ROS_TYPE_INT32 \<Rightarrow> (case v of V_int32 _ \<Rightarrow> True | _ \<Rightarrow> False)
      | ROS_TYPE_UINT32 \<Rightarrow> (case v of V_uint32 _ \<Rightarrow> True | _ \<Rightarrow> False)
      | ROS_TYPE_INT64 \<Rightarrow> (case v of V_int64 _ \<Rightarrow> True | _ \<Rightarrow> False)
      | ROS_TYPE_UINT64 \<Rightarrow> (case v of V_uint64 _ \<Rightarrow> True | _ \<Rightarrow> False)
      | ROS_TYPE_STRING \<Rightarrow> (case v of V_string _ \<Rightarrow> True | _ \<Rightarrow> False)
      | ROS_TYPE_WSTRING \<Rightarrow> (case v of V_wstring _ \<Rightarrow> True | _ \<Rightarrow> False)
      | _ \<Rightarrow> True)"

function has_type :: "member \<Rightarrow> ros_value \<Rightarrow> bool" and elem_type :: "member \<Rightarrow> ros_value \<Rightarrow> bool" where
  "has_type mb v =
     (if is_array mb then (case v of V_array xs \<Rightarrow> list_all (elem_type mb) xs | _ \<Rightarrow> False) else elem_type mb v)"
| "elem_type mb v =
     (case type_id mb of
        ROS_TYPE_MESSAGE \<Rightarrow> (case v of V_message fs \<Rightarrow> list_all2 has_type (nested_members mb) fs | _ \<Rightarrow> False)
      | ty \<Rightarrow> leaf_type ty v)"
  by pat_completeness auto
termination
proof (relation "measure (\<lambda>x. case x of Inl (mb, _) \<Rightarrow> 2 * size mb + 1 | Inr (mb, _) \<Rightarrow> 2 * size mb)", goal_cases)
  case (4 mb v fs nested)
  from member_size [OF 4(3)] nested_size [of mb] show ?case by simp
qed auto

declare has_type.simps [simp del] elem_type.simps [simp del]

lemma has_type_array: "is_array mb \<Longrightarrow> has_type mb v \<longleftrightarrow> (\<exists>xs. v = V_array xs \<and> list_all (elem_type mb) xs)"
  by (simp add: has_type.simps split: ros_value.splits)

lemma has_type_single: "\<not> is_array mb \<Longrightarrow> has_type mb v \<longleftrightarrow> elem_type mb v"
  by (simp add: has_type.simps)

lemma elem_type_message:
  "type_id mb = ROS_TYPE_MESSAGE \<Longrightarrow> elem_type mb v \<longleftrightarrow> (\<exists>fs. v = V_message fs \<and> list_all2 has_type (nested_members mb) fs)"
  by (simp add: elem_type.simps split: ros_value.splits)

lemma elem_type_leaf: "type_id mb \<noteq> ROS_TYPE_MESSAGE \<Longrightarrow> elem_type mb v = leaf_type (type_id mb) v"
  by (simp add: elem_type.simps split: ros_type.splits)

text \<open>
  What rosidl documents: a new message has its types, resizing keeps them and gives the length asked for, and a
  sequence without a bound can always be resized.
\<close>

definition rosidl_ok :: "rosidl \<Rightarrow> bool" where
  "rosidl_ok P \<longleftrightarrow>
     (\<forall>mbs. list_all2 has_type mbs (ri_init P mbs)) \<and>
     (\<forall>mb n xs ys. ri_resize P mb n xs = Inr ys \<longrightarrow> list_all (elem_type mb) xs \<longrightarrow>
        length ys = n \<and> list_all (elem_type mb) ys) \<and>
     (\<forall>mb n xs. \<not> is_upper_bound mb \<longrightarrow> array_size mb = 0 \<longrightarrow> (\<exists>ys. ri_resize P mb n xs = Inr ys))"

lemma rosidl_init: "rosidl_ok P \<Longrightarrow> list_all2 has_type mbs (ri_init P mbs)"
  unfolding rosidl_ok_def by blast

lemma ok_or_Inr: "ok_or r f = Inr (err, y) \<longleftrightarrow> (\<exists>e x. r = Inr (e, x) \<and> (if e = [] then f x = Inr (err, y) else e = err \<and> x = y))"
proof (cases r)
  case (Inl e)
  then show ?thesis by (simp add: ok_or_def)
next
  case (Inr p)
  obtain e x where "p = (e, x)" by (cases p)
  with Inr show ?thesis by (cases "e = []") (simp_all add: ok_or_def)
qed

lemma loopE_inv:
  assumes "loopE f xs a = Inr (err, b)" "I a"
    and "\<And>x a err b. x \<in> set xs \<Longrightarrow> I a \<Longrightarrow> f x a = Inr (err, b) \<Longrightarrow> I b"
  shows "I b"
  using assms
proof (induction xs arbitrary: a)
  case Nil
  then show ?case by simp
next
  case (Cons x xs)
  from Cons.prems(1) obtain e c where f: "f x a = Inr (e, c)"
    "if e = [] then loopE f xs c = Inr (err, b) else e = err \<and> c = b" by (auto simp: ok_or_Inr)
  have "I c" by (rule Cons.prems(3) [OF _ Cons.prems(2) f(1)]) simp
  show ?case
  proof (cases "e = []")
    case True
    with f(2) have "loopE f xs c = Inr (err, b)" by simp
    then show ?thesis using \<open>I c\<close> by (rule Cons.IH) (rule Cons.prems(3), simp_all)
  next
    case False
    with f(2) \<open>I c\<close> show ?thesis by simp
  qed
qed

lemma request_leaf_type:
  "request_leaf P ty m = Inr (Some v) \<Longrightarrow> leaf_type ty v"
  by (cases ty) (auto simp: leaf_type_def res_simps)

lemma place_type:
  assumes "place mb i v f = Inr f'" "elem_type mb v" "has_type mb f"
  shows "has_type mb f'"
  using assms by (auto simp: place_def has_type_array has_type_single list_all_iff
      split: if_splits ros_value.splits dest: set_update_subset_insert [THEN subsetD])

lemma resize_type:
  assumes "rosidl_ok P" "is_array mb" "resize P mb n f = Inr f'" "has_type mb f"
  shows "has_type mb f'"
  using assms unfolding rosidl_ok_def by (auto simp: resize_def has_type_array res_simps split: ros_value.splits)

lemma list_all2_update: "list_all2 R xs ys \<Longrightarrow> (i < length xs \<Longrightarrow> R (xs ! i) y) \<Longrightarrow> list_all2 R xs (ys[i := y])"
  unfolding list_all2_conv_all_nth by (metis length_list_update nth_list_update_eq nth_list_update_neq)

lemma member_index_bound: "member_index mbs key = Some i \<Longrightarrow> i < length mbs \<and> m_name (mbs ! i) = key"
  unfolding member_index_def by (drule find_idx_SomeD) simp

text \<open>One entry of the object a client sends: the body of the loop of \<open>MapSocketMessageToRequest\<close>.\<close>

definition array_length :: "member \<Rightarrow> msg_ptr list \<Rightarrow> nat" where
  "array_length mb xs = (if is_upper_bound mb then max (length xs) (array_size mb) else length xs)"

definition request_entry :: "rosidl \<Rightarrow> member list \<Rightarrow> string \<times> msg_ptr \<Rightarrow> ros_value list \<Rightarrow> ros_value list outcome" where
  "request_entry P members kv fs =
     (case member_index members (fst kv) of
        None \<Rightarrow> Inr (''Key '' @ quoted (fst kv) @ '' not found in type definition'', fs)
      | Some i \<Rightarrow>
          if length fs \<le> i then Inl Ub
          else if is_array (members ! i) then
            bindR (deref (snd kv)) (\<lambda>v.
            case v of
              Array_msg xs \<Rightarrow>
                bindR (resize P (members ! i) (array_length (members ! i) xs) (fs ! i)) (\<lambda>field.
                bindR (loopE (\<lambda>ix. SetRequestFieldValue P (members ! i) (fst ix) (snd ix)) (List.enumerate 0 xs) field) (\<lambda>(err, f).
                  if err \<noteq> [] then Inr (err, fs[i := f])
                  else if is_upper_bound (members ! i) \<and> length xs < array_size (members ! i) then Inl Ub
                  else Inr ([], fs[i := f])))
            | _ \<Rightarrow> Inr (''Request attribute '' @ quoted (fst kv) @ '' not an array in provided data'', fs))
          else
            bindR (SetRequestFieldValue P (members ! i) 0 (snd kv) (fs ! i)) (\<lambda>(err, f). Inr (err, fs[i := f])))"

lemma Map_object: "MapSocketMessageToRequest P members (Object_msg kvs) vals = loopE (request_entry P members) kvs vals"
  unfolding request_entry_def array_length_def by (subst MapSocketMessageToRequest.simps) simp

lemma Map_cases:
  "MapSocketMessageToRequest P members m vals = Inr (err, vals') \<Longrightarrow>
     vals' = vals \<or> (\<exists>kvs. m = Object_msg kvs \<and> loopE (request_entry P members) kvs vals = Inr (err, vals'))"
proof (cases "\<exists>kvs. m = Object_msg kvs")
  case True
  then show "MapSocketMessageToRequest P members m vals = Inr (err, vals') \<Longrightarrow> ?thesis" by (auto simp: Map_object)
next
  case False
  then show "MapSocketMessageToRequest P members m vals = Inr (err, vals') \<Longrightarrow> ?thesis"
    by (cases m) (simp_all add: MapSocketMessageToRequest.simps)
qed

lemma request_entry_cases:
  assumes "request_entry P members kv fs = Inr (err, fs')"
  obtains "fs' = fs"
  | (array) i xs f0 e f' where "member_index members (fst kv) = Some i" "i < length fs" "fs' = fs[i := f']"
      "is_array (members ! i)" "snd kv = Some (Array_msg xs)"
      "resize P (members ! i) (array_length (members ! i) xs) (fs ! i) = Inr f0"
      "loopE (\<lambda>ix. SetRequestFieldValue P (members ! i) (fst ix) (snd ix)) (List.enumerate 0 xs) f0 = Inr (e, f')"
  | (single) i f' where "member_index members (fst kv) = Some i" "i < length fs" "fs' = fs[i := f']"
      "\<not> is_array (members ! i)" "SetRequestFieldValue P (members ! i) 0 (snd kv) (fs ! i) = Inr (err, f')"
proof (cases "member_index members (fst kv)")
  case None
  with assms that(1) show ?thesis by (simp add: request_entry_def)
next
  case (Some i)
  with assms have i: "i < length fs" by (cases "length fs \<le> i") (simp_all add: request_entry_def)
  show ?thesis
  proof (cases "is_array (members ! i)")
    case False
    with assms Some i obtain f' where "SetRequestFieldValue P (members ! i) 0 (snd kv) (fs ! i) = Inr (err, f')" "fs' = fs[i := f']"
      by (auto simp: request_entry_def res_simps)
    with that(3) Some i False show ?thesis by blast
  next
    case True
    with assms Some i obtain v where v: "snd kv = Some v"
      by (cases "snd kv") (simp_all add: request_entry_def deref_def)
    show ?thesis
    proof (cases "\<exists>xs. v = Array_msg xs")
      case False
      with assms Some i True v that(1) show ?thesis by (cases v) (simp_all add: request_entry_def deref_def)
    next
      case arr: True
      then obtain xs where xs: "v = Array_msg xs" by blast
      with assms Some i True v obtain f0 e f' where "resize P (members ! i) (array_length (members ! i) xs) (fs ! i) = Inr f0"
        "loopE (\<lambda>ix. SetRequestFieldValue P (members ! i) (fst ix) (snd ix)) (List.enumerate 0 xs) f0 = Inr (e, f')"
        "fs' = fs[i := f']"
        by (auto simp: request_entry_def res_simps deref_def split: if_splits)
      with that(2) Some i True v xs show ?thesis by blast
    qed
  qed
qed

lemma request_types:
  "SetRequestFieldValue P mb index p field = Inr (err, field') \<Longrightarrow> rosidl_ok P \<Longrightarrow> has_type mb field \<Longrightarrow> has_type mb field'"
  "MapSocketMessageToRequest P members m vals = Inr (err', vals') \<Longrightarrow> rosidl_ok P \<Longrightarrow> list_all2 has_type members vals \<Longrightarrow>
     list_all2 has_type members vals'"
proof (induction P mb index p field and P members m vals arbitrary: err field' and err' vals'
    rule: SetRequestFieldValue_MapSocketMessageToRequest.induct)
  case (1 P mb index p field)
  obtain m where p: "deref p = Inr m" using 1(3) by (auto simp: SetRequestFieldValue.simps res_simps)
  show ?case
  proof (cases "type_id mb = ROS_TYPE_MESSAGE")
    case True
    show ?thesis
    proof (cases "get_flag m = flag_object")
      case flag: True
      show ?thesis
      proof (cases "is_array mb")
        case arr: True
        with 1(3) p True flag obtain e fs where m: "MapSocketMessageToRequest P (nested_members mb) m (ri_init P (nested_members mb)) = Inr (e, fs)"
          "place mb index (V_message fs) field = Inr field'" by (auto simp: SetRequestFieldValue.simps res_simps)
        have "list_all2 has_type (nested_members mb) fs"
          by (rule 1(1) [OF p True _ arr m(1) 1(4) rosidl_init [OF 1(4)]]) (use flag in simp)
        with m(2) 1(5) show ?thesis by (auto intro: place_type simp: elem_type_message True)
      next
        case arr: False
        with 1(5) True obtain fs0 where f: "field = V_message fs0" "list_all2 has_type (nested_members mb) fs0"
          by (auto simp: has_type_single elem_type_message)
        with 1(3) p True flag arr obtain e fs where m: "MapSocketMessageToRequest P (nested_members mb) m fs0 = Inr (e, fs)"
          "field' = V_message fs" by (auto simp: SetRequestFieldValue.simps res_simps)
        have "list_all2 has_type (nested_members mb) fs"
          by (rule 1(2) [OF p True _ arr f(1) m(1) 1(4) f(2)]) (use flag in auto)
        with m(2) arr True show ?thesis by (simp add: has_type_single elem_type_message)
      qed
    next
      case False
      with 1(3,5) p True show ?thesis by (simp add: SetRequestFieldValue.simps)
    qed
  next
    case False
    with 1(3) p obtain r where r: "request_leaf P (type_id mb) m = Inr r"
      "(case r of None \<Rightarrow> field' = field | Some v \<Rightarrow> place mb index v field = Inr field')"
      by (auto simp: SetRequestFieldValue.simps res_simps split: ros_type.splits option.splits)
    show ?thesis
    proof (cases r)
      case None
      with r(2) 1(5) show ?thesis by simp
    next
      case (Some v)
      have "elem_type mb v" using request_leaf_type [OF r(1) [unfolded Some]] False by (simp add: elem_type_leaf)
      moreover have "place mb index v field = Inr field'" using r(2) Some by simp
      ultimately show ?thesis using 1(5) place_type by blast
    qed
  qed
next
  case (2 P members m vals)
  from Map_cases [OF 2(3)] show ?case
  proof (elim disjE exE conjE)
    assume "vals' = vals"
    with 2(5) show ?thesis by simp
  next
    fix kvs assume m: "m = Object_msg kvs" and l: "loopE (request_entry P members) kvs vals = Inr (err', vals')"
    show ?thesis
    proof (rule loopE_inv [where I = "list_all2 has_type members", OF l 2(5)])
      fix kv fs err fs'
      assume kv: "kv \<in> set kvs" and fs: "list_all2 has_type members fs" and e: "request_entry P members kv fs = Inr (err, fs')"
      from e show "list_all2 has_type members fs'"
      proof (cases rule: request_entry_cases)
        case 1
        with fs show ?thesis by simp
      next
        case (array i xs f0 e f')
        have f0: "has_type (members ! i) f0"
          using resize_type [OF 2(4) array(4,6)] fs array(2) by (simp add: list_all2_conv_all_nth)
        have "has_type (members ! i) f'"
          by (rule loopE_inv [where I = "has_type (members ! i)", OF array(7) f0], rule 2(1) [OF m kv array(1) _ array(4) _ refl _ _ _ 2(4)])
             (use array 2(4) in \<open>auto simp: deref_def array_length_def\<close>)
        with fs array show ?thesis by (simp add: list_all2_update)
      next
        case (single i f')
        have "has_type (members ! i) (fs ! i)" using fs single(2) by (simp add: list_all2_conv_all_nth)
        with 2(2) [OF m kv single(1) _ single(4,5) 2(4)] single(2) have "has_type (members ! i) f'" by simp
        with fs single show ?thesis by (simp add: list_all2_update)
      qed
    qed
  qed
qed

section \<open>The message made of a response\<close>

text \<open>The reference: a plain recursion over the fields.\<close>

definition leaf_message :: "rosidl \<Rightarrow> ros_type \<Rightarrow> ros_value \<Rightarrow> message" where
  "leaf_message P ty v = (case response_leaf P ty v of Inr m \<Rightarrow> m | Inl _ \<Rightarrow> Null_msg)"

function field_message :: "rosidl \<Rightarrow> member \<Rightarrow> ros_value \<Rightarrow> message"
  and elem_message :: "rosidl \<Rightarrow> member \<Rightarrow> ros_value \<Rightarrow> message" where
  "field_message P mb v =
     (if is_array mb then (case v of V_array xs \<Rightarrow> Array_msg (map (\<lambda>x. Some (elem_message P mb x)) xs) | _ \<Rightarrow> Null_msg)
      else elem_message P mb v)"
| "elem_message P mb v =
     (case type_id mb of
        ROS_TYPE_MESSAGE \<Rightarrow>
          (case v of
             V_message fs \<Rightarrow>
               Object_msg (emplace_all (map (\<lambda>mf. (m_name (fst mf), Some (field_message P (fst mf) (snd mf)))) (zip (nested_members mb) fs)))
           | _ \<Rightarrow> Null_msg)
      | ty \<Rightarrow> leaf_message P ty v)"
  by pat_completeness auto
termination
proof (relation "measure (\<lambda>x. case x of Inl (_, mb, _) \<Rightarrow> 2 * size mb + 1 | Inr (_, mb, _) \<Rightarrow> 2 * size mb)", goal_cases)
  case (4 P mb v fs mf)
  then have "fst mf \<in> set (nested_members mb)" by (cases mf) (auto dest: set_zip_leftD)
  from member_size [OF this] nested_size [of mb] show ?case by (cases mf) simp
qed auto

declare field_message.simps [simp del] elem_message.simps [simp del]

definition object_of :: "rosidl \<Rightarrow> member list \<Rightarrow> ros_value list \<Rightarrow> message" where
  "object_of P mbs fs = Object_msg (emplace_all (map (\<lambda>mf. (m_name (fst mf), Some (field_message P (fst mf) (snd mf)))) (zip mbs fs)))"

text \<open>What a field must be for that: typed, of supported types, with wide strings that convert.\<close>

definition leaf_readable :: "rosidl \<Rightarrow> ros_type \<Rightarrow> ros_value \<Rightarrow> bool" where
  "leaf_readable P ty v \<longleftrightarrow> (case response_leaf P ty v of Inr _ \<Rightarrow> True | Inl _ \<Rightarrow> False)"

function readable :: "rosidl \<Rightarrow> member \<Rightarrow> ros_value \<Rightarrow> bool" and elem_readable :: "rosidl \<Rightarrow> member \<Rightarrow> ros_value \<Rightarrow> bool" where
  "readable P mb v =
     (if is_array mb then (case v of V_array xs \<Rightarrow> list_all (elem_readable P mb) xs | _ \<Rightarrow> False) else elem_readable P mb v)"
| "elem_readable P mb v =
     (case type_id mb of
        ROS_TYPE_MESSAGE \<Rightarrow> (case v of V_message fs \<Rightarrow> list_all2 (readable P) (nested_members mb) fs | _ \<Rightarrow> False)
      | ty \<Rightarrow> leaf_readable P ty v)"
  by pat_completeness auto
termination
proof (relation "measure (\<lambda>x. case x of Inl (_, mb, _) \<Rightarrow> 2 * size mb + 1 | Inr (_, mb, _) \<Rightarrow> 2 * size mb)", goal_cases)
  case (4 P mb v fs nested)
  from member_size [OF 4(3)] nested_size [of mb] show ?case by simp
qed auto

declare readable.simps [simp del] elem_readable.simps [simp del]

lemma loopE_run:
  assumes "\<And>x a. x \<in> set xs \<Longrightarrow> f x a = Inr ([], g x a)"
  shows "loopE f xs a = Inr ([], fold g xs a)"
  using assms by (induction xs arbitrary: a) (simp_all add: ok_or_def)

lemma fold_emplace:
  "fold (\<lambda>x t. case t of Object_msg kvs \<Rightarrow> Object_msg (memplace (k x) (v x) kvs) | _ \<Rightarrow> t) xs (Object_msg m) =
     Object_msg (fold (\<lambda>(k, x). memplace k x) (map (\<lambda>x. (k x, v x)) xs) m)"
  by (induction xs arbitrary: m) simp_all

lemma response_leaf_supported: "response_leaf P ty v = Inr m \<Longrightarrow> (\<forall>n. ty \<noteq> Other_type n) \<and> ty \<noteq> ROS_TYPE_MESSAGE"
  by (auto simp: response_leaf_def)

text \<open>An element that is no message.\<close>

lemma elem_message_leaf: "type_id mb \<noteq> ROS_TYPE_MESSAGE \<Longrightarrow> elem_message P mb v = leaf_message P (type_id mb) v"
  by (simp add: elem_message.simps split: ros_type.splits)

lemma elem_readable_leaf: "type_id mb \<noteq> ROS_TYPE_MESSAGE \<Longrightarrow> elem_readable P mb v = leaf_readable P (type_id mb) v"
  by (simp add: elem_readable.simps split: ros_type.splits)

lemma elem_readable_message:
  "type_id mb = ROS_TYPE_MESSAGE \<Longrightarrow> elem_readable P mb v \<longleftrightarrow> (\<exists>fs. v = V_message fs \<and> list_all2 (readable P) (nested_members mb) fs)"
  by (simp add: elem_readable.simps split: ros_value.splits)

lemma elem_message_message: "type_id mb = ROS_TYPE_MESSAGE \<Longrightarrow> elem_message P mb (V_message fs) = object_of P (nested_members mb) fs"
  by (simp add: elem_message.simps object_of_def)

lemma One_leaf:
  assumes "type_id mb \<noteq> ROS_TYPE_MESSAGE" "fetch index field = Inr v" "elem_readable P mb v"
  shows "SetOneResponseValue P field mb t key index = add_value index key (elem_message P mb v) t"
proof -
  from assms(1,3) have "leaf_readable P (type_id mb) v" by (simp add: elem_readable_leaf)
  then obtain m where m: "response_leaf P (type_id mb) v = Inr m" by (auto simp: leaf_readable_def split: sum.splits)
  with assms(1) have e: "elem_message P mb v = m" by (simp add: elem_message_leaf leaf_message_def)
  from m e assms(1,2) response_leaf_supported [OF m] show ?thesis
    by (cases "type_id mb") (simp_all add: SetOneResponseValue.simps)
qed

text \<open>The fields of a message, whichever of the two functions writes each of them.\<close>

lemma fields_loop:
  assumes "length fs = length mbs"
    and "\<And>mb v t. (mb, v) \<in> set (zip mbs fs) \<Longrightarrow> f (mb, v) t = put_member (m_name mb) (field_message P mb v) t"
  shows "loopE f (zip mbs fs) (Object_msg []) = Inr ([], object_of P mbs fs)"
proof -
  have "loopE f (zip mbs fs) (Object_msg m) = Inr ([], Object_msg (fold (\<lambda>(k, x). memplace k x)
      (map (\<lambda>mf. (m_name (fst mf), Some (field_message P (fst mf) (snd mf)))) (zip mbs fs)) m))" for m
    using assms by (induction mbs fs arbitrary: m rule: list_induct2') (simp_all add: ok_or_def put_member_def)
  then show ?thesis by (simp add: object_of_def emplace_all_def)
qed

lemma field_message_single: "\<not> is_array mb \<Longrightarrow> field_message P mb v = elem_message P mb v"
  by (simp add: field_message.simps)

lemma readable_single: "\<not> is_array mb \<Longrightarrow> readable P mb v \<longleftrightarrow> elem_readable P mb v"
  by (simp add: readable.simps)

lemma readable_array: "is_array mb \<Longrightarrow> readable P mb v \<longleftrightarrow> (\<exists>xs. v = V_array xs \<and> list_all (elem_readable P mb) xs)"
  by (simp add: readable.simps split: ros_value.splits)

lemma array_loop:
  assumes "\<And>j t. j < length xs \<Longrightarrow> f j t = add_value (Some j) key (elem_message P mb (xs ! j)) t"
  shows "loopE f [0..<length xs] (Array_msg []) = Inr ([], Array_msg (map (\<lambda>x. Some (elem_message P mb x)) xs))"
proof -
  have "n \<le> length xs \<Longrightarrow> loopE f [0..<n] (Array_msg []) = Inr ([], Array_msg (map (\<lambda>x. Some (elem_message P mb x)) (take n xs)))" for n
  proof (induction n)
    case 0
    then show ?case by simp
  next
    case (Suc n)
    have app: "loopE f (us @ ws) a = ok_or (loopE f us a) (loopE f ws)" for us ws a
      by (induction us arbitrary: a) (auto simp: ok_or_def bindR_assoc split_beta intro!: bindR_cong)
    from Suc assms [of n] show ?case by (simp add: app ok_or_def add_value_def take_Suc_conv_app_nth)
  qed
  from this [of "length xs"] show ?thesis by simp
qed

text \<open>Both functions at once, by induction on the type of the member.\<close>

lemma response_both:
  "(\<forall>field t key index v. fetch index field = Inr v \<longrightarrow> elem_readable P mb v \<longrightarrow>
      SetOneResponseValue P field mb t key index = add_value index key (elem_message P mb v) t) \<and>
   (\<forall>v t key. readable P mb v \<longrightarrow> SetResponseFieldValue P v mb t key = put_member key (field_message P mb v) t)"
proof (induction "size mb" arbitrary: mb rule: less_induct)
  case less
  have nested: "(if b \<or> is_array nm then SetResponseFieldValue P nv nm t (m_name nm) else SetOneResponseValue P nv nm t (m_name nm) None) =
      put_member (m_name nm) (field_message P nm nv) t"
    if "(nm, nv) \<in> set (zip (nested_members mb) fs)" "list_all2 (readable P) (nested_members mb) fs" for nm nv fs t b
  proof -
    from that have nm: "nm \<in> set (nested_members mb)" and r: "readable P nm nv"
      by (auto simp: list_all2_iff dest: set_zip_leftD)
    from member_size [OF nm] nested_size [of mb] have "size nm < size mb" by simp
    from less [OF this] r show ?thesis
      by (cases "b \<or> is_array nm") (simp_all add: fetch_def add_value_def readable_single field_message_single)
  qed
  have one: "SetOneResponseValue P field mb t key index = add_value index key (elem_message P mb v) t"
    if "fetch index field = Inr v" "elem_readable P mb v" for field t key index v
  proof (cases "type_id mb = ROS_TYPE_MESSAGE")
    case False
    with that show ?thesis by (simp add: One_leaf)
  next
    case True
    with that(2) obtain fs where v: "v = V_message fs" "list_all2 (readable P) (nested_members mb) fs"
      by (auto simp: elem_readable_message)
    then have len: "length fs = length (nested_members mb)" by (simp add: list_all2_lengthD)
    have "loopE (\<lambda>mf res. if is_array (fst mf) \<or> type_id (fst mf) = ROS_TYPE_MESSAGE
        then SetResponseFieldValue P (snd mf) (fst mf) res (m_name (fst mf))
        else SetOneResponseValue P (snd mf) (fst mf) res (m_name (fst mf)) None) (zip (nested_members mb) fs) (Object_msg []) =
        Inr ([], object_of P (nested_members mb) fs)"
    proof (rule fields_loop [OF len], goal_cases)
      case (1 nm nv t)
      from nested [OF 1 v(2), of "type_id nm = ROS_TYPE_MESSAGE" t] show ?case by (auto simp: disj_commute split: if_splits)
    qed
    with True that(1) v(1) len show ?thesis
      by (subst SetOneResponseValue.simps) (simp add: fields_of_def elem_message_message)
  qed
  have field: "SetResponseFieldValue P v mb t key = put_member key (field_message P mb v) t" if r: "readable P mb v" for v t key
  proof (cases "is_array mb")
    case True
    with r obtain xs where v: "v = V_array xs" "list_all (elem_readable P mb) xs" by (auto simp: readable_array)
    have "loopE (\<lambda>j out. SetOneResponseValue P v mb out key (Some j)) [0..<length xs] (Array_msg []) =
        Inr ([], Array_msg (map (\<lambda>x. Some (elem_message P mb x)) xs))"
      using v by (intro array_loop [where key = key] one) (simp_all add: fetch_def list_all_length)
    with True v(1) show ?thesis by (subst SetResponseFieldValue.simps) (simp add: field_message.simps)
  next
    case arr: False
    with r have e: "elem_readable P mb v" by (simp add: readable_single)
    show ?thesis
    proof (cases "type_id mb = ROS_TYPE_MESSAGE")
      case False
      with arr one [of None v v] e show ?thesis
        by (subst SetResponseFieldValue.simps) (simp add: fetch_def add_value_def field_message_single)
    next
      case True
      with e obtain fs where v: "v = V_message fs" "list_all2 (readable P) (nested_members mb) fs"
        by (auto simp: elem_readable_message)
      then have len: "length fs = length (nested_members mb)" by (simp add: list_all2_lengthD)
      have "loopE (\<lambda>mf res. if is_array (fst mf) then SetResponseFieldValue P (snd mf) (fst mf) res (m_name (fst mf))
          else SetOneResponseValue P (snd mf) (fst mf) res (m_name (fst mf)) None) (zip (nested_members mb) fs) (Object_msg []) =
          Inr ([], object_of P (nested_members mb) fs)"
      proof (rule fields_loop [OF len], goal_cases)
        case (1 nm nv t)
        from nested [OF 1 v(2), of False t] show ?case by (auto split: if_splits)
      qed
      with True arr v(1) len show ?thesis
        by (subst SetResponseFieldValue.simps) (simp add: fields_of_def elem_message_message field_message_single)
    qed
  qed
  from one field show ?case by blast
qed

lemma response_shown:
  assumes "list_all2 (readable P) members response"
  shows "MapResponseToSocketMessage P response members (Object_msg []) = Inr ([], object_of P members response)"
proof -
  from assms have len: "length response = length members" by (simp add: list_all2_lengthD)
  have "loopE (\<lambda>mf out. SetResponseFieldValue P (snd mf) (fst mf) out (m_name (fst mf))) (zip members response) (Object_msg []) =
      Inr ([], object_of P members response)"
    using response_both assms by (intro fields_loop [OF len]) (auto simp: list_all2_iff)
  with len show ?thesis by (simp add: MapResponseToSocketMessage_def fields_of_def)
qed

section \<open>A response sent back as a request\<close>

text \<open>
  Values that survive: typed, of a supported type; a float that comes back from its double, a wide string that comes
  back from UTF-8; sequences without a bound; members with different names.
\<close>

definition leaf_exact :: "rosidl \<Rightarrow> ros_type \<Rightarrow> ros_value \<Rightarrow> bool" where
  "leaf_exact P ty v \<longleftrightarrow> leaf_type ty v \<and>
     (case ty of
        Other_type _ \<Rightarrow> False
      | ROS_TYPE_FLOAT32 \<Rightarrow> (case v of V_float32 x \<Rightarrow> ri_float P (ri_double P x) = x | _ \<Rightarrow> True)
      | ROS_TYPE_WSTRING \<Rightarrow> (case v of V_wstring w \<Rightarrow> bindR (ri_narrow P w) (ri_wide P) = Inr w | _ \<Rightarrow> True)
      | _ \<Rightarrow> True)"

function sendable :: "rosidl \<Rightarrow> member \<Rightarrow> ros_value \<Rightarrow> bool" and elem_sendable :: "rosidl \<Rightarrow> member \<Rightarrow> ros_value \<Rightarrow> bool" where
  "sendable P mb v =
     (if is_array mb
      then \<not> is_upper_bound mb \<and> array_size mb = 0 \<and>
           (case v of V_array xs \<Rightarrow> list_all (elem_sendable P mb) xs | _ \<Rightarrow> False)
      else elem_sendable P mb v)"
| "elem_sendable P mb v =
     (case type_id mb of
        ROS_TYPE_MESSAGE \<Rightarrow>
          (case v of V_message fs \<Rightarrow> distinct (map m_name (nested_members mb)) \<and> list_all2 (sendable P) (nested_members mb) fs
           | _ \<Rightarrow> False)
      | ty \<Rightarrow> leaf_exact P ty v)"
  by pat_completeness auto
termination
proof (relation "measure (\<lambda>x. case x of Inl (_, mb, _) \<Rightarrow> 2 * size mb + 1 | Inr (_, mb, _) \<Rightarrow> 2 * size mb)", goal_cases)
  case (4 P mb v fs nested)
  from member_size [OF 4(3)] nested_size [of mb] show ?case by simp
qed auto

declare sendable.simps [simp del] elem_sendable.simps [simp del]

lemma elem_sendable_leaf: "type_id mb \<noteq> ROS_TYPE_MESSAGE \<Longrightarrow> elem_sendable P mb v = leaf_exact P (type_id mb) v"
  by (simp add: elem_sendable.simps split: ros_type.splits)

lemma elem_sendable_message:
  "type_id mb = ROS_TYPE_MESSAGE \<Longrightarrow> elem_sendable P mb v \<longleftrightarrow>
     (\<exists>fs. v = V_message fs \<and> distinct (map m_name (nested_members mb)) \<and> list_all2 (sendable P) (nested_members mb) fs)"
  by (simp add: elem_sendable.simps split: ros_value.splits)

lemma sendable_single: "\<not> is_array mb \<Longrightarrow> sendable P mb v \<longleftrightarrow> elem_sendable P mb v"
  by (simp add: sendable.simps)

lemma sendable_array:
  "is_array mb \<Longrightarrow> sendable P mb v \<longleftrightarrow>
     \<not> is_upper_bound mb \<and> array_size mb = 0 \<and> (\<exists>xs. v = V_array xs \<and> list_all (elem_sendable P mb) xs)"
  by (simp add: sendable.simps split: ros_value.splits)

text \<open>The widths: an integer read into 64 bits, signed or not, comes back in its own.\<close>

lemma leaf_round_trip:
  assumes "leaf_exact P ty v" "ty \<noteq> ROS_TYPE_MESSAGE"
  obtains m where "response_leaf P ty v = Inr m" "request_leaf P ty m = Inr (Some v)"
proof -
  have [simp]: "(ucast (ucast x :: 64 word) :: 8 word) = x" "(ucast (scast x :: 64 word) :: 8 word) = x" for x :: "8 word"
    by (rule bit_word_eqI, simp add: bit_simps)+
  have [simp]: "(ucast (ucast x :: 64 word) :: 16 word) = x" "(ucast (scast x :: 64 word) :: 16 word) = x" for x :: "16 word"
    by (rule bit_word_eqI, simp add: bit_simps)+
  have [simp]: "(ucast (ucast x :: 64 word) :: 32 word) = x" "(ucast (scast x :: 64 word) :: 32 word) = x" for x :: "32 word"
    by (rule bit_word_eqI, simp add: bit_simps)+
  from assms have "\<exists>m. response_leaf P ty v = Inr m \<and> request_leaf P ty m = Inr (Some v)"
    by (cases ty; cases v)
       (auto simp: leaf_exact_def leaf_type_def response_leaf_def int_or_0_def double_or_0_def string_or_empty_def res_simps)
  with that show ?thesis by blast
qed

lemma sendable_readable_typed:
  "(elem_sendable P mb v \<longrightarrow> elem_readable P mb v \<and> elem_type mb v) \<and> (sendable P mb v \<longrightarrow> readable P mb v \<and> has_type mb v)"
proof (induction "size mb" arbitrary: mb v rule: less_induct)
  case less
  have one: "elem_readable P mb v \<and> elem_type mb v" if s: "elem_sendable P mb v" for v
  proof (cases "type_id mb = ROS_TYPE_MESSAGE")
    case False
    with s have e: "leaf_exact P (type_id mb) v" by (simp add: elem_sendable_leaf)
    from leaf_round_trip [OF e False] obtain m where "response_leaf P (type_id mb) v = Inr m" by blast
    moreover from e have "leaf_type (type_id mb) v" by (simp add: leaf_exact_def)
    ultimately show ?thesis by (simp add: False elem_readable_leaf elem_type_leaf leaf_readable_def)
  next
    case True
    with s obtain fs where v: "v = V_message fs" "list_all2 (sendable P) (nested_members mb) fs"
      by (auto simp: elem_sendable_message)
    have "size nm < size mb" if "nm \<in> set (nested_members mb)" for nm
      using member_size [OF that] nested_size [of mb] by simp
    then have "list_all2 (readable P) (nested_members mb) fs \<and> list_all2 has_type (nested_members mb) fs"
      using less v(2) by (auto simp: list_all2_conv_all_nth)
    with v True show ?thesis by (simp add: elem_readable_message elem_type_message)
  qed
  then show ?case
    by (cases "is_array mb")
       (auto simp: sendable_single readable_single has_type_single sendable_array readable_array has_type_array list_all_iff)
qed

lemma emplace_all_members:
  "set (emplace_all kvs) \<subseteq> set kvs \<and> fst ` set (emplace_all kvs) = fst ` set kvs"
proof -
  have sub: "set (memplace k v m) \<subseteq> insert (k, v) (set m)" for k :: string and v :: msg_ptr and m
  proof -
    have "set (mput k v m) \<subseteq> insert (k, v) (set m)" by (induction k v m rule: mput.induct) auto
    then show ?thesis by (auto simp: memplace_def split: option.splits)
  qed
  have keys: "fst ` set (memplace k v m) = insert k (fst ` set m)" for k :: string and v :: msg_ptr and m
    by (auto simp: memplace_def set_mput_keys mhas_def rev_image_eqI dest: map_of_SomeD split: option.splits)
  have "set (fold (\<lambda>(k, x). memplace k x) kvs m) \<subseteq> set kvs \<union> set m \<and>
      fst ` set (fold (\<lambda>(k, x). memplace k x) kvs m) = fst ` set kvs \<union> fst ` set m" for m
  proof (induction kvs arbitrary: m)
    case Nil
    then show ?case by simp
  next
    case (Cons p kvs)
    obtain k x where p: "p = (k, x)" by (cases p)
    from Cons.IH [of "memplace k x m"] sub [of k x m] keys [of k x m] show ?case by (auto simp: p)
  qed
  from this [of "[]"] show ?thesis by (simp add: emplace_all_def)
qed

lemma fold_write:
  "i < length gs \<Longrightarrow> fold (\<lambda>x gs. gs[pos x := fs ! pos x]) xs gs ! i = (if i \<in> pos ` set xs then fs ! i else gs ! i)"
  by (induction xs arbitrary: gs) (auto simp: nth_list_update)

lemma fold_write_length: "length (fold (\<lambda>x gs. gs[pos x := fs ! pos x]) xs gs) = length gs"
  by (induction xs arbitrary: gs) simp_all

lemma loopE_run_inv:
  assumes "I a" "\<And>x a. x \<in> set xs \<Longrightarrow> I a \<Longrightarrow> f x a = Inr ([], g x a) \<and> I (g x a)"
  shows "loopE f xs a = Inr ([], fold g xs a)"
  using assms by (induction xs arbitrary: a) (simp_all add: ok_or_def)

lemma member_index_distinct:
  assumes "distinct (map m_name mbs)" "i < length mbs"
  shows "member_index mbs (m_name (mbs ! i)) = Some i"
proof (cases "member_index mbs (m_name (mbs ! i))")
  case None
  with assms(2) show ?thesis by (auto simp: member_index_def find_idx_None)
next
  case (Some j)
  with member_index_bound [OF Some] assms show ?thesis by (metis length_map nth_eq_iff_index_eq nth_map)
qed

text \<open>An object with an entry for every field, each of which is written in its place.\<close>

lemma object_written:
  assumes names: "distinct (map m_name mbs)" and len: "length fs = length mbs"
    and typed: "list_all2 has_type mbs fs" "list_all2 has_type mbs gs"
    and entry: "\<And>i gs. i < length mbs \<Longrightarrow> list_all2 has_type mbs gs \<Longrightarrow>
      request_entry P mbs (m_name (mbs ! i), Some (field_message P (mbs ! i) (fs ! i))) gs = Inr ([], gs[i := fs ! i])"
  shows "MapSocketMessageToRequest P mbs (object_of P mbs fs) gs = Inr ([], fs)"
proof -
  let ?l = "map (\<lambda>mf. (m_name (fst mf), Some (field_message P (fst mf) (snd mf)))) (zip mbs fs)"
  let ?pos = "\<lambda>kv. the (member_index mbs (fst kv))"
  have l: "\<exists>i<length mbs. kv = (m_name (mbs ! i), Some (field_message P (mbs ! i) (fs ! i))) \<and> ?pos kv = i"
    if kv: "kv \<in> set (emplace_all ?l)" for kv
  proof -
    from kv emplace_all_members have "kv \<in> set ?l" by blast
    then obtain i where "i < length mbs" "kv = (m_name (mbs ! i), Some (field_message P (mbs ! i) (fs ! i)))"
      using len by (auto simp: in_set_zip)
    then show ?thesis using member_index_distinct [OF names] by auto
  qed
  have run: "loopE (request_entry P mbs) (emplace_all ?l) gs =
      Inr ([], fold (\<lambda>kv gs. gs[?pos kv := fs ! ?pos kv]) (emplace_all ?l) gs)"
  proof (rule loopE_run_inv [where I = "list_all2 has_type mbs", OF typed(2)])
    fix kv gs assume "kv \<in> set (emplace_all ?l)" and g: "list_all2 has_type mbs gs"
    with l obtain i where "i < length mbs" "kv = (m_name (mbs ! i), Some (field_message P (mbs ! i) (fs ! i)))" "?pos kv = i"
      by blast
    with entry [OF _ g, of i] typed(1) g
    show "request_entry P mbs kv gs = Inr ([], gs[?pos kv := fs ! ?pos kv]) \<and> list_all2 has_type mbs (gs[?pos kv := fs ! ?pos kv])"
      by (simp add: list_all2_update list_all2_nthD)
  qed
  have cover: "i \<in> ?pos ` set (emplace_all ?l)" if "i < length mbs" for i
  proof -
    have "map fst ?l = map m_name mbs" using len by (intro nth_equalityI) auto
    then have "fst ` set ?l = m_name ` set mbs" by (metis list.set_map)
    with that have "m_name (mbs ! i) \<in> fst ` set ?l" by simp
    then obtain kv where kv: "kv \<in> set (emplace_all ?l)" "fst kv = m_name (mbs ! i)"
      using emplace_all_members [of ?l] by (metis (no_types, lifting) imageE)
    then have "?pos kv = i" using member_index_distinct [OF names that] by simp
    with kv(1) show ?thesis by blast
  qed
  have "length gs = length mbs" using typed(2) by (simp add: list_all2_lengthD)
  then have "fold (\<lambda>kv gs. gs[?pos kv := fs ! ?pos kv]) (emplace_all ?l) gs = fs"
    using len cover by (intro nth_equalityI) (simp_all add: fold_write fold_write_length)
  with run show ?thesis by (simp add: object_of_def Map_object)
qed

lemma elements_written:
  assumes "\<And>i x field. x \<in> set xs \<Longrightarrow> i < length ys \<Longrightarrow> length field = length ys \<Longrightarrow>
      SetRequestFieldValue P mb i (Some (elem_message P mb x)) (V_array field) = Inr ([], V_array (field[i := x]))"
    and "n + length xs = length ys"
  shows "loopE (\<lambda>ix. SetRequestFieldValue P mb (fst ix) (snd ix)) (List.enumerate n (map (\<lambda>x. Some (elem_message P mb x)) xs))
      (V_array ys) = Inr ([], V_array (take n ys @ xs))"
  using assms
proof (induction xs arbitrary: n ys)
  case Nil
  then show ?case by simp
next
  case (Cons x xs)
  have "loopE (\<lambda>ix. SetRequestFieldValue P mb (fst ix) (snd ix)) (List.enumerate (Suc n) (map (\<lambda>x. Some (elem_message P mb x)) xs))
      (V_array (ys[n := x])) = Inr ([], V_array (take (Suc n) (ys[n := x]) @ xs))"
    using Cons.prems by (intro Cons.IH) simp_all
  moreover have "take (Suc n) (ys[n := x]) = take n ys @ [x]"
    using Cons.prems(2) by (simp add: take_Suc_conv_app_nth)
  ultimately show ?case using Cons.prems by (simp add: ok_or_def)
qed

lemma flag_object_of: "get_flag (object_of P mbs fs) = flag_object"
  by (simp add: object_of_def)

text \<open>Writing one element or one plain field; then the entry of a field of the message.\<close>

definition written :: "rosidl \<Rightarrow> member \<Rightarrow> bool" where
  "written P mb \<longleftrightarrow>
     (\<forall>v field index. elem_sendable P mb v \<longrightarrow>
        (if is_array mb then (case field of V_array ys \<Rightarrow> index < length ys | _ \<Rightarrow> False) else has_type mb field) \<longrightarrow>
        SetRequestFieldValue P mb index (Some (elem_message P mb v)) field = bindR (place mb index v field) (\<lambda>f. Inr ([], f)))"

lemma entry_written:
  assumes P: "rosidl_ok P" and names: "distinct (map m_name mbs)" and i: "i < length mbs"
    and s: "sendable P (mbs ! i) v" and gs: "list_all2 has_type mbs gs" and w: "written P (mbs ! i)"
  shows "request_entry P mbs (m_name (mbs ! i), Some (field_message P (mbs ! i) v)) gs = Inr ([], gs[i := v])"
proof (cases "is_array (mbs ! i)")
  case False
  from gs i have gi: "has_type (mbs ! i) (gs ! i)" "i < length gs" by (auto simp: list_all2_conv_all_nth)
  with w s False have "SetRequestFieldValue P (mbs ! i) 0 (Some (elem_message P (mbs ! i) v)) (gs ! i) = Inr ([], v)"
    by (simp add: written_def sendable_single place_def)
  with False gi show ?thesis
    by (simp add: request_entry_def member_index_distinct [OF names i] field_message_single)
next
  case arr: True
  from s arr obtain xs where xs: "v = V_array xs" "list_all (elem_sendable P (mbs ! i)) xs"
    "\<not> is_upper_bound (mbs ! i)" "array_size (mbs ! i) = 0" by (auto simp: sendable_array)
  from gs i have gi: "has_type (mbs ! i) (gs ! i)" "i < length gs" by (auto simp: list_all2_conv_all_nth)
  from gi(1) arr obtain ys where ys: "gs ! i = V_array ys" "list_all (elem_type (mbs ! i)) ys"
    by (auto simp: has_type_array)
  from P xs ys obtain zs where zs: "ri_resize P (mbs ! i) (length xs) ys = Inr zs" "length zs = length xs"
    unfolding rosidl_ok_def by metis
  have "loopE (\<lambda>ix. SetRequestFieldValue P (mbs ! i) (fst ix) (snd ix))
      (List.enumerate 0 (map (\<lambda>x. Some (elem_message P (mbs ! i) x)) xs)) (V_array zs) = Inr ([], V_array (take 0 zs @ xs))"
  proof (rule elements_written)
    fix j x and fld :: "ros_value list" assume "x \<in> set xs" "j < length zs" "length fld = length zs"
    with w xs(2) arr
    show "SetRequestFieldValue P (mbs ! i) j (Some (elem_message P (mbs ! i) x)) (V_array fld) = Inr ([], V_array (fld[j := x]))"
      by (simp add: written_def list_all_iff place_def)
  qed (simp add: zs)
  with zs xs ys arr gi(2) show ?thesis
    by (simp add: request_entry_def member_index_distinct [OF names i] field_message.simps deref_def resize_def array_length_def)
qed

lemma object_sent:
  assumes P: "rosidl_ok P" and names: "distinct (map m_name mbs)" and s: "list_all2 (sendable P) mbs fs"
    and gs: "list_all2 has_type mbs gs" and w: "\<And>mb. mb \<in> set mbs \<Longrightarrow> written P mb"
  shows "MapSocketMessageToRequest P mbs (object_of P mbs fs) gs = Inr ([], fs)"
proof (rule object_written [OF names _ _ gs])
  show "length fs = length mbs" using s by (simp add: list_all2_lengthD)
  show "list_all2 has_type mbs fs" using s sendable_readable_typed by (auto simp: list_all2_conv_all_nth)
  fix i gs assume i: "i < length mbs" and "list_all2 has_type mbs gs"
  with s w show "request_entry P mbs (m_name (mbs ! i), Some (field_message P (mbs ! i) (fs ! i))) gs = Inr ([], gs[i := fs ! i])"
    by (intro entry_written [OF P names i]) (auto simp: list_all2_conv_all_nth)
qed

lemma value_written:
  assumes P: "rosidl_ok P"
  shows "written P mb"
proof (induction "size mb" arbitrary: mb rule: less_induct)
  case less
  show ?case unfolding written_def
  proof (intro allI impI)
    fix v field index assume s: "elem_sendable P mb v"
      and f: "if is_array mb then (case field of V_array ys \<Rightarrow> index < length ys | _ \<Rightarrow> False) else has_type mb field"
    show "SetRequestFieldValue P mb index (Some (elem_message P mb v)) field = bindR (place mb index v field) (\<lambda>f. Inr ([], f))"
    proof (cases "type_id mb = ROS_TYPE_MESSAGE")
      case False
      with s have e: "leaf_exact P (type_id mb) v" by (simp add: elem_sendable_leaf)
      from leaf_round_trip [OF e False] obtain m where m: "response_leaf P (type_id mb) v = Inr m"
        "request_leaf P (type_id mb) m = Inr (Some v)" by blast
      from m(1) False have "elem_message P mb v = m" by (simp add: elem_message_leaf leaf_message_def)
      with m(2) False show ?thesis
        by (cases "type_id mb") (simp_all add: SetRequestFieldValue.simps deref_def)
    next
      case True
      from s True obtain fs where v: "v = V_message fs" "distinct (map m_name (nested_members mb))"
        "list_all2 (sendable P) (nested_members mb) fs" by (auto simp: elem_sendable_message)
      have "written P nm" if "nm \<in> set (nested_members mb)" for nm
        using member_size [OF that] nested_size [of mb] by (intro less) simp
      then have nested: "MapSocketMessageToRequest P (nested_members mb) (object_of P (nested_members mb) fs) gs = Inr ([], fs)"
        if "list_all2 has_type (nested_members mb) gs" for gs
        using that by (intro object_sent [OF P v(2,3)])
      show ?thesis
      proof (cases "is_array mb")
        case is_arr: True
        with True v(1) nested [OF rosidl_init [OF P]] show ?thesis
          by (simp add: SetRequestFieldValue.simps deref_def elem_message_message flag_object_of)
      next
        case False
        with f True obtain gs where "field = V_message gs" "list_all2 has_type (nested_members mb) gs"
          by (auto simp: has_type_single elem_type_message)
        with False True v(1) nested show ?thesis
          by (simp add: SetRequestFieldValue.simps deref_def elem_message_message flag_object_of place_def)
      qed
    qed
  qed
qed

section \<open>The properties of the mapping\<close>

text \<open>A rosidl for concrete inputs: zero values, resizing that fills up with zeros, ASCII for wide strings, and a pair
  of conversions of floating point numbers.\<close>

fun zero_elem :: "member \<Rightarrow> ros_value" where
  "zero_elem (Member name ty arr bounded n nested) =
     (case ty of
        ROS_TYPE_BOOL \<Rightarrow> V_bool False | ROS_TYPE_BYTE \<Rightarrow> V_uint8 0 | ROS_TYPE_UINT8 \<Rightarrow> V_uint8 0
      | ROS_TYPE_CHAR \<Rightarrow> V_int8 0 | ROS_TYPE_INT8 \<Rightarrow> V_int8 0
      | ROS_TYPE_FLOAT32 \<Rightarrow> V_float32 0 | ROS_TYPE_FLOAT64 \<Rightarrow> V_float64 0
      | ROS_TYPE_INT16 \<Rightarrow> V_int16 0 | ROS_TYPE_UINT16 \<Rightarrow> V_uint16 0
      | ROS_TYPE_INT32 \<Rightarrow> V_int32 0 | ROS_TYPE_UINT32 \<Rightarrow> V_uint32 0
      | ROS_TYPE_INT64 \<Rightarrow> V_int64 0 | ROS_TYPE_UINT64 \<Rightarrow> V_uint64 0
      | ROS_TYPE_STRING \<Rightarrow> V_string [] | ROS_TYPE_WSTRING \<Rightarrow> V_wstring []
      | ROS_TYPE_MESSAGE \<Rightarrow> V_message (map (\<lambda>mb. if is_array mb
          then V_array (if is_upper_bound mb then [] else replicate (array_size mb) (zero_elem mb)) else zero_elem mb) nested)
      | Other_type _ \<Rightarrow> V_bool False)"

definition zero_field :: "member \<Rightarrow> ros_value" where
  "zero_field mb =
     (if is_array mb then V_array (if is_upper_bound mb then [] else replicate (array_size mb) (zero_elem mb)) else zero_elem mb)"

definition sample_rosidl :: rosidl where
  "sample_rosidl =
     \<lparr>ri_init = map zero_field,
      ri_resize = (\<lambda>mb n xs. Inr (take n xs @ replicate (n - length xs) (zero_elem mb))),
      ri_float = ucast, ri_double = ucast,
      ri_wide = (\<lambda>s. Inr (map (\<lambda>c. of_nat (of_char c)) s)),
      ri_narrow = (\<lambda>w. Inr (map (\<lambda>c. char_of (unat c)) w))\<rparr>"

lemma zero_elem_type: "elem_type mb (zero_elem mb) \<and> has_type mb (zero_field mb)"
proof (induction "size mb" arbitrary: mb rule: less_induct)
  case less
  obtain name ty arr bounded n nested where mb: "mb = Member name ty arr bounded n nested" by (cases mb)
  have "has_type nm (zero_field nm)" if "nm \<in> set nested" for nm
    using less member_size [OF that] nested_size [of mb] mb by auto
  then have "list_all2 has_type nested (map zero_field nested)" by (auto simp: list_all2_conv_all_nth)
  then have "elem_type mb (zero_elem mb)"
    by (cases ty) (simp_all add: mb elem_type.simps leaf_type_def zero_field_def [abs_def])
  then show ?case by (simp add: zero_field_def has_type.simps list_all_iff)
qed

lemma sample_rosidl_ok: "rosidl_ok sample_rosidl"
  unfolding rosidl_ok_def sample_rosidl_def
  by (auto simp: list_all2_conv_all_nth list_all_iff zero_elem_type dest: in_set_takeD)

text \<open>A point with a name, as a message with members of five kinds.\<close>

definition sample_members :: "member list" where
  "sample_members =
     [Member ''name'' ROS_TYPE_STRING False False 0 [],
      Member ''at'' ROS_TYPE_MESSAGE False False 0
        [Member ''x'' ROS_TYPE_FLOAT32 False False 0 [], Member ''n'' ROS_TYPE_INT16 False False 0 []],
      Member ''data'' ROS_TYPE_UINT8 True False 0 []]"

definition sample_values :: "ros_value list" where
  "sample_values = [V_string ''p'', V_message [V_float32 7, V_int16 (- 3)], V_array [V_uint8 1, V_uint8 255]]"

lemma sample_typed: "list_all2 has_type sample_members (ri_init sample_rosidl sample_members)"
  by (rule rosidl_init [OF sample_rosidl_ok])

text \<open>C11. Whatever a client sends, the memory of the request keeps the types of its members, on every error path too: each
  field holds a value of its type, a nested message values of its members' types, an array elements of its type.\<close>

theorem request_keeps_types:
  assumes "rosidl_ok P" "MapSocketMessageToRequest P members m (ri_init P members) = Inr (err, request)"
  shows "list_all2 has_type members request"
  using request_types(2) [OF assms(2,1) rosidl_init [OF assms(1)]] .

theorem request_keeps_types_witness:
  "list_all2 has_type sample_members
     [V_string [], V_message [V_float32 0, V_int16 5], V_array []]"
proof -
  have "MapSocketMessageToRequest sample_rosidl sample_members
      (Object_msg [(''at'', Some (Object_msg [(''n'', Some (Int_msg 65541))]))]) (ri_init sample_rosidl sample_members) =
      Inr ([], [V_string [], V_message [V_float32 0, V_int16 5], V_array []])"
    by code_simp
  then show ?thesis by (rule request_keeps_types [OF sample_rosidl_ok])
qed

text \<open>C13. Mapping a response to a socket.io message never fails for readable fields and gives the object that a plain
  recursion over the fields gives, whichever of the two mutually recursive functions writes a field: a nested message
  becomes an object with one entry per member, an array becomes the array of its elements.\<close>

theorem response_is_reference:
  assumes "list_all2 (readable P) members response"
  shows "MapResponseToSocketMessage P response members (Object_msg []) = Inr ([], object_of P members response)"
  by (rule response_shown [OF assms])

theorem response_is_reference_witness:
  "MapResponseToSocketMessage sample_rosidl sample_values sample_members (Object_msg []) =
     Inr ([], object_of sample_rosidl sample_members sample_values)"
proof (rule response_is_reference)
  show "list_all2 (readable sample_rosidl) sample_members sample_values" by code_simp
qed

text \<open>C3. A response that is sent back as a request of the same type arrives unchanged, whatever the request held before, if
  \<open>sendable\<close> holds of it: it has no bounded sequence and no array of fixed size, its floats survive the conversion to
  double and back, and its wide strings convert. Numbers of every width, strings, unbounded sequences and nested
  messages are covered.\<close>

theorem response_round_trip:
  assumes "rosidl_ok P" "distinct (map m_name members)" "list_all2 (sendable P) members response"
    and "list_all2 has_type members request"
  shows "\<exists>m. MapResponseToSocketMessage P response members (Object_msg []) = Inr ([], m) \<and>
    MapSocketMessageToRequest P members m request = Inr ([], response)"
proof -
  have "list_all2 (readable P) members response"
    using assms(3) sendable_readable_typed by (auto simp: list_all2_conv_all_nth)
  with object_sent [OF assms value_written [OF assms(1)]] response_shown show ?thesis by blast
qed

theorem response_round_trip_witness:
  "\<exists>m. MapResponseToSocketMessage sample_rosidl sample_values sample_members (Object_msg []) = Inr ([], m) \<and>
     MapSocketMessageToRequest sample_rosidl sample_members m (ri_init sample_rosidl sample_members) = Inr ([], sample_values)"
proof (rule response_round_trip [OF sample_rosidl_ok _ _ sample_typed])
  show "distinct (map m_name sample_members)" by (simp add: sample_members_def)
  show "list_all2 (sendable sample_rosidl) sample_members sample_values" by code_simp
qed

text \<open>A bounded sequence: the entry is accepted only with at least as many values as the bound.\<close>

lemma entry_accepted:
  assumes "request_entry P members (key, Some (Array_msg xs)) fs = Inr ([], fs')"
    and "member_index members key = Some i" "is_array (members ! i)" "is_upper_bound (members ! i)"
  shows "array_size (members ! i) \<le> length xs"
  using assms by (auto simp: request_entry_def deref_def res_simps split: if_splits)

lemma loopE_accepts:
  assumes "loopE f xs a = Inr ([], b)" "x \<in> set xs"
  obtains c d where "f x c = Inr ([], d)"
  using assms
proof (induction xs arbitrary: a thesis)
  case Nil
  then show ?case by simp
next
  case (Cons y ys)
  from Cons.prems(2) obtain c where c: "f y a = Inr ([], c)" "loopE f ys c = Inr ([], b)"
    by (auto simp: ok_or_Inr split: if_splits)
  show ?case
  proof (cases "x = y")
    case True
    with c(1) Cons.prems(1) show ?thesis by blast
  next
    case False
    with Cons.prems(3) have "x \<in> set ys" by simp
    from Cons.IH [OF _ c(2) this] Cons.prems(1) show ?thesis by blast
  qed
qed

text \<open>Whenever the mapping succeeds, every bounded sequence at the top of the request was given at least as many values as
  its bound - against the meaning of a bound, which is a maximum. With fewer, values are read beyond their end, as
  in \<open>short_bounded_sequence_undefined\<close>.\<close>

theorem bounded_sequences_full:
  assumes "MapSocketMessageToRequest P members (Object_msg kvs) vals = Inr ([], request)"
    and "(key, Some (Array_msg xs)) \<in> set kvs" "member_index members key = Some i"
    and "is_array (members ! i)" "is_upper_bound (members ! i)"
  shows "array_size (members ! i) \<le> length xs"
proof -
  from assms(1) have "loopE (request_entry P members) kvs vals = Inr ([], request)" by (simp add: Map_object)
  from loopE_accepts [OF this assms(2)] obtain c d where "request_entry P members (key, Some (Array_msg xs)) c = Inr ([], d)" .
  from entry_accepted [OF this assms(3-5)] show ?thesis .
qed

theorem bounded_sequences_full_witness:
  "array_size (Member ''v'' ROS_TYPE_UINT8 True True 2 []) \<le> length [Some (Int_msg 1), Some (Int_msg 2)]"
proof -
  let ?ms = "[Member ''v'' ROS_TYPE_UINT8 True True 2 []]" and ?xs = "[Some (Int_msg 1), Some (Int_msg 2)]"
  have r: "MapSocketMessageToRequest sample_rosidl ?ms (Object_msg [(''v'', Some (Array_msg ?xs))]) [V_array []] =
      Inr ([], [V_array [V_uint8 1, V_uint8 2]])" by code_simp
  have i: "member_index ?ms ''v'' = Some 0" by code_simp
  show ?thesis using bounded_sequences_full [OF r _ i, of ?xs] by simp
qed

lemma short_bounded_sequence_undefined:
  "MapSocketMessageToRequest sample_rosidl [Member ''v'' ROS_TYPE_UINT8 True True 2 []]
     (Object_msg [(''v'', Some (Array_msg [Some (Int_msg 1)]))]) [V_array []] = Inl Ub"
  by code_simp

text \<open>An unknown key is refused at the top, but not inside a nested message; a whole number sent for a float is zero.\<close>

lemma nested_error_dropped:
  "MapSocketMessageToRequest sample_rosidl sample_members (Object_msg [(''zz'', None)]) vals =
     Inr (''Key '' @ quoted ''zz'' @ '' not found in type definition'', vals)"
  "MapSocketMessageToRequest sample_rosidl sample_members (Object_msg [(''at'', Some (Object_msg [(''zz'', None)]))])
     [V_string [], V_message [V_float32 0, V_int16 0], V_array []] =
     Inr ([], [V_string [], V_message [V_float32 0, V_int16 0], V_array []])"
proof -
  have "member_index sample_members ''zz'' = None" by code_simp
  then show "MapSocketMessageToRequest sample_rosidl sample_members (Object_msg [(''zz'', None)]) vals =
      Inr (''Key '' @ quoted ''zz'' @ '' not found in type definition'', vals)"
    by (simp add: Map_object request_entry_def ok_or_def)
qed code_simp

lemma whole_number_for_float: "request_leaf P ROS_TYPE_FLOAT64 (Int_msg n) = Inr (Some (V_float64 0))"
  by (simp add: double_or_0_def)

lemma sint_narrow:
  fixes v :: "'a::len word"
  assumes "LENGTH('b) \<le> LENGTH('a)"
  shows "sint (ucast v :: 'b::len word) = signed_take_bit (LENGTH('b) - 1) (sint v)"
proof (rule bit_eqI)
  fix n
  have "n < LENGTH('b) \<Longrightarrow> LENGTH('a) - 1 \<le> n \<Longrightarrow> n = LENGTH('a) - 1" using assms by simp
  then show "bit (sint (ucast v :: 'b word)) n = bit (signed_take_bit (LENGTH('b) - 1) (sint v)) n"
    using assms by (auto simp: bit_simps min_def not_le)
qed

lemma uint_narrow:
  fixes v :: "'a::len word"
  assumes "LENGTH('b) \<le> LENGTH('a)"
  shows "uint (ucast v :: 'b::len word) = take_bit LENGTH('b) (sint v)"
proof (rule bit_eqI)
  fix n
  have "n < LENGTH('b) \<Longrightarrow> LENGTH('a) - 1 \<le> n \<Longrightarrow> n = LENGTH('a) - 1" using assms by simp
  then show "bit (uint (ucast v :: 'b word)) n = bit (take_bit LENGTH('b) (sint v)) n"
    using assms by (auto simp: bit_simps min_def not_le)
qed

lemma narrow_width:
  "\<exists>w. request_leaf P ROS_TYPE_INT8 (Int_msg v) = Inr (Some (V_int8 w)) \<and> (sint w = sint v \<longleftrightarrow> - 128 \<le> sint v \<and> sint v < 128)"
  "\<exists>w. request_leaf P ROS_TYPE_UINT8 (Int_msg v) = Inr (Some (V_uint8 w)) \<and> (uint w = sint v \<longleftrightarrow> 0 \<le> sint v \<and> sint v < 256)"
  "\<exists>w. request_leaf P ROS_TYPE_INT16 (Int_msg v) = Inr (Some (V_int16 w)) \<and> (sint w = sint v \<longleftrightarrow> - (2 ^ 15) \<le> sint v \<and> sint v < 2 ^ 15)"
  "\<exists>w. request_leaf P ROS_TYPE_UINT16 (Int_msg v) = Inr (Some (V_uint16 w)) \<and> (uint w = sint v \<longleftrightarrow> 0 \<le> sint v \<and> sint v < 2 ^ 16)"
  "\<exists>w. request_leaf P ROS_TYPE_INT32 (Int_msg v) = Inr (Some (V_int32 w)) \<and> (sint w = sint v \<longleftrightarrow> - (2 ^ 31) \<le> sint v \<and> sint v < 2 ^ 31)"
  "\<exists>w. request_leaf P ROS_TYPE_UINT32 (Int_msg v) = Inr (Some (V_uint32 w)) \<and> (uint w = sint v \<longleftrightarrow> 0 \<le> sint v \<and> sint v < 2 ^ 32)"
  "\<exists>w. request_leaf P ROS_TYPE_UINT64 (Int_msg v) = Inr (Some (V_uint64 w)) \<and> (uint w = sint v \<longleftrightarrow> 0 \<le> sint v)"
proof -
  have "uint v = sint v \<longleftrightarrow> 0 \<le> sint v"
    using uint_narrow [where 'b = 64 and v = v] sint_less [of v] by (auto simp: take_bit_int_eq_self_iff)
  then show "\<exists>w. request_leaf P ROS_TYPE_UINT64 (Int_msg v) = Inr (Some (V_uint64 w)) \<and> (uint w = sint v \<longleftrightarrow> 0 \<le> sint v)"
    by (simp add: int_or_0_def)
qed (simp_all add: int_or_0_def sint_narrow uint_narrow signed_take_bit_int_eq_self_iff take_bit_int_eq_self_iff)

text \<open>An integer of a request is cut to the width of its field without an error: the field holds the number that was
  sent exactly if that number is in the range of the field's type; a negative number never arrives in an unsigned field.\<close>

theorem narrow_integers:
  "(\<exists>w. request_leaf P ROS_TYPE_INT8 (Int_msg v) = Inr (Some (V_int8 w)) \<and> (sint w = sint v \<longleftrightarrow> - 128 \<le> sint v \<and> sint v < 128)) \<and>
   (\<exists>w. request_leaf P ROS_TYPE_UINT8 (Int_msg v) = Inr (Some (V_uint8 w)) \<and> (uint w = sint v \<longleftrightarrow> 0 \<le> sint v \<and> sint v < 256)) \<and>
   (\<exists>w. request_leaf P ROS_TYPE_INT16 (Int_msg v) = Inr (Some (V_int16 w)) \<and> (sint w = sint v \<longleftrightarrow> - (2 ^ 15) \<le> sint v \<and> sint v < 2 ^ 15)) \<and>
   (\<exists>w. request_leaf P ROS_TYPE_UINT16 (Int_msg v) = Inr (Some (V_uint16 w)) \<and> (uint w = sint v \<longleftrightarrow> 0 \<le> sint v \<and> sint v < 2 ^ 16)) \<and>
   (\<exists>w. request_leaf P ROS_TYPE_INT32 (Int_msg v) = Inr (Some (V_int32 w)) \<and> (sint w = sint v \<longleftrightarrow> - (2 ^ 31) \<le> sint v \<and> sint v < 2 ^ 31)) \<and>
   (\<exists>w. request_leaf P ROS_TYPE_UINT32 (Int_msg v) = Inr (Some (V_uint32 w)) \<and> (uint w = sint v \<longleftrightarrow> 0 \<le> sint v \<and> sint v < 2 ^ 32)) \<and>
   (\<exists>w. request_leaf P ROS_TYPE_UINT64 (Int_msg v) = Inr (Some (V_uint64 w)) \<and> (uint w = sint v \<longleftrightarrow> 0 \<le> sint v))"
  by (intro conjI) (rule narrow_width)+

section \<open>The call\<close>

definition is_ack :: "srv_effect \<Rightarrow> bool" where
  "is_ack e = (case e of Sv_ack _ _ \<Rightarrow> True | _ \<Rightarrow> False)"

lemma stages_quiet: "emitsA (\<lambda>e. \<not> is_ack e) (call_stages E timeout package_name srv_name service_name ev)"
proof -
  have attempt: "emitsA Q m \<Longrightarrow> (\<And>x. emitsA Q (f x)) \<Longrightarrow> emitsA Q (tryA m f)" for Q and m :: "(string + 'a) sact" and f :: "'a \<Rightarrow> (string + 'b) sact"
    unfolding tryA_def by (intro emit_rules)
  have lib: "emitsA (\<lambda>e. \<not> is_ack e) (load_library E key lib failure)" for key lib failure
    unfolding load_library_def by (intro emit_rules)
  have client: "emitsA (\<lambda>e. \<not> is_ack e) (service_client E package_name srv_name service_name)"
    unfolding service_client_def new_client_def by (intro emit_rules attempt lib)
  have types: "emitsA (\<lambda>e. \<not> is_ack e) (service_types E package_name srv_name service_name)"
    unfolding service_types_def new_types_def by (intro emit_rules attempt lib)
  have exchange: "emitsA (\<lambda>e. \<not> is_ack e) (exchange E timeout c r)" for c r
  proof -
    have wait: "emitsA (\<lambda>e. \<not> is_ack e) (case w of Wait_timeout \<Rightarrow> retA a | Wait_failed x \<Rightarrow> retA (b x) | Wait_ok \<Rightarrow> retA d)"
      for w and a d :: "string + ros_value list" and b
      by (cases w) simp_all
    show ?thesis unfolding exchange_def failed_def
      by (intro emit_rules attempt wait) (simp add: is_ack_def)
  qed
  show ?thesis unfolding call_stages_def make_request_def make_reply_def
    by (intro emit_rules attempt client types exchange)
qed

text \<open>C9. Every service call that returns is acknowledged exactly once, under the id of its event and as its last
  effect - with the reply, or with an object that holds the error number 2 and the text of the failed stage.\<close>

theorem service_call_answered:
  assumes "callGenericService E timeout service_name service_type ev s = (Inr (), out, s')"
  shows "\<exists>before m. out = before @ [Sv_ack (ev_msgId ev) m] \<and> list_all (\<lambda>e. \<not> is_ack e) before"
proof -
  let ?p = "split service_type (CHR ''/'')"
  from assms have "\<not> length ?p < 3" by (auto simp: callGenericService_def Let_def liftA_def)
  with assms obtain r out1 s1 out2 where st: "call_stages E timeout (?p ! 0) (?p ! 2) service_name ev s = (Inr r, out1, s1)"
    "(case r of Inl err \<Rightarrow> returnServiceError err ev | Inr reply \<Rightarrow> emitA [Sv_ack (ev_msgId ev) reply]) s1 = (Inr (), out2, s')"
    "out = out1 @ out2"
    unfolding callGenericService_def Let_def by (auto elim!: bindA_InrE)
  have q: "list_all (\<lambda>e. \<not> is_ack e) out1" by (rule emitsAD [OF stages_quiet st(1)])
  show ?thesis
  proof (cases r)
    case (Inl err)
    with st q show ?thesis
      by (intro exI [of _ "out1 @ [Log_error err]"]) (auto simp: returnServiceError_def emitA_def is_ack_def)
  next
    case (Inr reply)
    with st q show ?thesis by (intro exI [of _ out1]) (auto simp: emitA_def)
  qed
qed

lemma bindA_same: "m s = m' s \<Longrightarrow> bindA m f s = bindA m' f s"
  by (simp add: bindA_def)

definition sample_srv :: srv_env where
  "sample_srv =
     \<lparr>sv_rosidl = sample_rosidl, sv_dlopen = (\<lambda>lib. Inr 1), sv_dlsym = (\<lambda>h sym. Inr 2), sv_service_ts = Some,
      sv_client_init = (\<lambda>ts name. None), sv_members = (\<lambda>ts. sample_members), sv_send = (\<lambda>c r. Inr 7),
      sv_wait_set_init = None, sv_add_client = (\<lambda>c. None), sv_wait = (\<lambda>t. Wait_ok),
      sv_take = (\<lambda>c. Inr (7, sample_values))\<rparr>"

definition no_services :: services where
  "no_services = \<lparr>srv_library_handle_cache = [], srv_types_cache = [], srv_client_cache = []\<rparr>"

definition sample_call :: sio_event where
  "sample_call =
     \<lparr>ev_nsp = ''/'', ev_name = ''service'', ev_msgId = 4,
      ev_messages = [Some (Object_msg [(''msg'', Some (Object_msg [(''name'', Some (String_msg ''q''))]))])],
      ev_need_ack = True\<rparr>"

lemma sample_call_returns:
  "\<exists>out s'. callGenericService sample_srv 0 ''/a'' ''p/srv/S'' sample_call no_services = (Inr (), out, s')"
proof -
  have "fst (callGenericService sample_srv 0 ''/a'' ''p/srv/S'' sample_call no_services) = Inr ()" by code_simp
  then show ?thesis by (metis prod.collapse)
qed

theorem service_call_answered_witness:
  "\<exists>out before m. out = before @ [Sv_ack 4 m] \<and> list_all (\<lambda>e. \<not> is_ack e) before \<and>
     fst (snd (callGenericService sample_srv 0 ''/a'' ''p/srv/S'' sample_call no_services)) = out"
proof -
  from sample_call_returns obtain out s' where
    c: "callGenericService sample_srv 0 ''/a'' ''p/srv/S'' sample_call no_services = (Inr (), out, s')" by blast
  from service_call_answered [OF c] c show ?thesis by (auto simp: sample_call_def)
qed

lemma caches_kept:
  assumes "\<And>k h s. I s \<Longrightarrow> I (s\<lparr>srv_library_handle_cache := memplace k h (srv_library_handle_cache s)\<rparr>)"
    and "\<And>k c s. I s \<Longrightarrow> I (s\<lparr>srv_client_cache := memplace k c (srv_client_cache s)\<rparr>)"
    and "\<And>k t s. I s \<Longrightarrow> I (s\<lparr>srv_types_cache := memplace k t (srv_types_cache s)\<rparr>)"
  shows "keepsA I (callGenericService E timeout service_name service_type ev)"
proof -
  have attempt: "keepsA I m \<Longrightarrow> (\<And>x. keepsA I (f x)) \<Longrightarrow> keepsA I (tryA m f)"
    for m :: "(string + 'a) sact" and f :: "'a \<Rightarrow> (string + 'b) sact"
    unfolding tryA_def by (intro keepsA_bind keepsA_sum keepsA_basic)
  note rules = keepsA_bind keepsA_then keepsA_option keepsA_sum keepsA_prod keepsA_if keepsA_basic
  have lib: "keepsA I (load_library E key lib failure)" for key lib failure
    unfolding load_library_def by (intro rules keepsA_mod assms)
  have client: "keepsA I (service_client E p q n)" for p q n
    unfolding service_client_def new_client_def by (intro rules attempt lib keepsA_mod assms)
  have types: "keepsA I (service_types E p q n)" for p q n
    unfolding service_types_def new_types_def by (intro rules attempt lib keepsA_mod assms)
  have wait: "keepsA I (case w of Wait_timeout \<Rightarrow> retA a | Wait_failed x \<Rightarrow> retA (b x) | Wait_ok \<Rightarrow> retA d)"
    for w and a d :: "string + ros_value list" and b
    by (cases w) simp_all
  have exchange: "keepsA I (exchange E timeout c r)" for c r
    unfolding exchange_def failed_def by (intro rules attempt wait)
  have stages: "keepsA I (call_stages E timeout p q n ev)" for p q n
    unfolding call_stages_def make_request_def make_reply_def by (intro rules attempt client types exchange)
  show ?thesis unfolding callGenericService_def Let_def returnServiceError_def by (intro rules stages)
qed

text \<open>C36. The caches only grow: whatever a service call does and wherever it fails, a library handle, a client and the
  types of a service that are cached stay the same, so a client that another thread uses is never replaced.\<close>

theorem caches_grow:
  assumes "callGenericService E timeout service_name service_type ev s = (r, out, s')"
  shows "map_of (srv_library_handle_cache s) \<subseteq>\<^sub>m map_of (srv_library_handle_cache s') \<and>
    map_of (srv_client_cache s) \<subseteq>\<^sub>m map_of (srv_client_cache s') \<and>
    map_of (srv_types_cache s) \<subseteq>\<^sub>m map_of (srv_types_cache s')"
proof -
  have old: "map_of m a = Some b \<Longrightarrow> map_of (memplace k v m) a = Some b" for m :: "(string, 'v) omap" and a b k v
    by (auto simp: map_of_memplace mhas_def)
  have fin: "final (callGenericService E timeout service_name service_type ev s) = s'" using assms by simp
  have "map_of (srv_library_handle_cache s) k = Some v \<Longrightarrow> map_of (srv_library_handle_cache s') k = Some v" for k v
    unfolding fin [symmetric] by (erule keepsAD [OF caches_kept, rotated -1]) (simp_all add: old)
  moreover have "map_of (srv_client_cache s) k = Some v \<Longrightarrow> map_of (srv_client_cache s') k = Some v" for k v
    unfolding fin [symmetric] by (erule keepsAD [OF caches_kept, rotated -1]) (simp_all add: old)
  moreover have "map_of (srv_types_cache s) k = Some v \<Longrightarrow> map_of (srv_types_cache s') k = Some v" for k v
    unfolding fin [symmetric] by (erule keepsAD [OF caches_kept, rotated -1]) (simp_all add: old)
  ultimately show ?thesis by (fastforce simp: map_le_def)
qed

theorem caches_grow_witness:
  "\<exists>s'. map_of (srv_client_cache no_services) \<subseteq>\<^sub>m map_of (srv_client_cache s') \<and>
     snd (snd (callGenericService sample_srv 0 ''/a'' ''p/srv/S'' sample_call no_services)) = s'"
proof -
  from sample_call_returns obtain out s' where
    c: "callGenericService sample_srv 0 ''/a'' ''p/srv/S'' sample_call no_services = (Inr (), out, s')" by blast
  from caches_grow [OF c] c show ?thesis by auto
qed

text \<open>Once the client and the types of a service are cached under its name, the type the call is made with does not
  matter: a service that was replaced by one of another type is still called with the client and the types of the old.\<close>

theorem cached_call_ignores_type:
  assumes "map_of (srv_client_cache s) service_name = Some c" "map_of (srv_types_cache s) service_name = Some t"
    and "3 \<le> length (split type1 (CHR ''/''))" "3 \<le> length (split type2 (CHR ''/''))"
  shows "callGenericService E timeout service_name type1 ev s = callGenericService E timeout service_name type2 ev s"
proof -
  have "call_stages E timeout p q service_name ev s = call_stages E timeout p' q' service_name ev s" for p q p' q'
    using assms(1,2) by (simp add: call_stages_def tryA_def service_client_def service_types_def bindA_def getA_def retA_def)
  then have stages: "bindA (call_stages E timeout p q service_name ev) f s = bindA (call_stages E timeout p' q' service_name ev) f s"
    for p q p' q' and f :: "string + message \<Rightarrow> unit sact"
    by (rule bindA_same)
  have "\<not> length (split type1 (CHR ''/'')) < 3" "\<not> length (split type2 (CHR ''/'')) < 3" using assms(3,4) by simp_all
  then show ?thesis unfolding callGenericService_def Let_def by (simp only: if_False) (rule stages)
qed

theorem cached_call_ignores_type_witness:
  "\<exists>s. callGenericService sample_srv 0 ''/a'' ''p/srv/S'' sample_call s = callGenericService sample_srv 0 ''/a'' ''q/srv/T'' sample_call s"
proof -
  let ?s = "no_services\<lparr>srv_client_cache := [(''/a'', (2, ''/a''))], srv_types_cache := [(''/a'', ([], []))]\<rparr>"
  have l: "3 \<le> length (split ''p/srv/S'' (CHR ''/''))" "3 \<le> length (split ''q/srv/T'' (CHR ''/''))" by code_simp+
  show ?thesis by (rule exI [of _ ?s], rule cached_call_ignores_type [OF _ _ l]) simp_all
qed

text \<open>A type of fewer than three parts: the second index is out of bounds.\<close>

lemma short_service_type_undefined:
  "length (split service_type (CHR ''/'')) < 3 \<Longrightarrow> callGenericService E timeout service_name service_type ev s = (Inl Ub, [], s)"
  by (simp add: callGenericService_def Let_def liftA_def)

text \<open>The header of the response is not compared with the number of the request: after a call that timed out, the next
  one takes the late response as its own.\<close>

lemma response_of_any_request:
  assumes "sv_take E c = Inr (n, resp)" "sv_take E' c = Inr (n', resp)"
    and "E' = E\<lparr>sv_take := sv_take E'\<rparr>"
  shows "exchange E timeout c req s = exchange E' timeout c req s"
proof -
  have g: "exchange (E\<lparr>sv_take := g\<rparr>) timeout c req s = exchange E timeout c req s" if "g c = Inr (n', resp)" for g
    using assms(1) that by (cases "sv_wait E timeout") (simp_all add: exchange_def)
  show ?thesis using g [of "sv_take E'"] assms(2,3) by simp
qed

end
