(* ===== verification/Start.thy ===== *)
theory Start
  imports BridgeLaws Files ServiceLaws
begin

text \<open>
  \<open>src/extra_packages.cpp\<close>, \<open>src/git.cpp\<close> and \<open>main\<close> of \<open>src/phntm_bridge.cpp\<close>: what happens before the node runs and when it
  stops. The installation of extra packages works on three files; running a command and parsing XML or YAML are
  the environment.
\<close>

section \<open>Commands and packages\<close>

datatype wait_status = Exited int | Signaled int | Abnormal

datatype xml = Element (xml_tag: string) (xml_text: "string option") (xml_children: "xml list")

record system_env =
  se_run :: "string \<Rightarrow> wait_status option"
  se_exists :: "string \<Rightarrow> bool"
  se_load_xml :: "string \<Rightarrow> xml list"
  se_distro :: "string option"

text \<open>The member \<open>packages\<close> of the log of checked packages.\<close>

datatype yaml_list = Y_undefined | Y_null | Y_seq "string list" | Y_scalar

text \<open>The config file: missing, or the sequence \<open>extra_packages\<close> if it has one.\<close>

record start_files =
  sf_lock :: bool
  sf_log :: "yaml_list option"
  sf_config :: "string list option option"

datatype start_effect = Run_cmd string | Start_error string

type_synonym 'a start = "(start_files, start_effect, 'a) act"

definition full_command :: "string \<Rightarrow> string" where
  "full_command cmd = ''. /ros2_ws/ros2_py_venv/bin/activate && '' @ cmd @ '' 2>/tmp/phntm_pkg_cmd_err.txt''"

definition fail_start :: "string \<Rightarrow> bool start" where
  "fail_start t = thenA (emitA [Start_error t]) (retA False)"

fun command_ended :: "string \<Rightarrow> wait_status \<Rightarrow> bool start" where
  "command_ended c (Exited n) = (if n \<noteq> 0 then fail_start (''Command '' @ quoted c @ '' exited with code '' @ show_int n) else retA True)"
| "command_ended c (Signaled n) = fail_start (''Command '' @ quoted c @ '' killed by signal '' @ show_int n)"
| "command_ended c Abnormal = fail_start (''Command '' @ quoted c @ '' did not terminate normally'')"

definition runCmd :: "system_env \<Rightarrow> string \<Rightarrow> bool start" where
  "runCmd e cmd =
     thenA (emitA [Run_cmd (full_command cmd)])
       (case se_run e (full_command cmd) of
          None \<Rightarrow> fail_start (''     Error calling '' @ full_command cmd)
        | Some st \<Rightarrow> command_ended (full_command cmd) st)"

definition first_child :: "string \<Rightarrow> xml list \<Rightarrow> xml option" where
  "first_child tag xs = (case filter (\<lambda>x. xml_tag x = tag) xs of [] \<Rightarrow> None | x # _ \<Rightarrow> Some x)"

text \<open>What \<open>package.xml\<close> must have; the missing part, or the name and the build type, which may be without text.\<close>

definition package_parts :: "xml list \<Rightarrow> string + (string option \<times> string option)" where
  "package_parts doc =
     (case first_child ''package'' doc of None \<Rightarrow> Inl ''     XML root not found, skipping''
      | Some root \<Rightarrow>
          (case first_child ''export'' (xml_children root) of None \<Rightarrow> Inl ''     package/export not found in XML, skipping''
           | Some ex \<Rightarrow>
               (case first_child ''build_type'' (xml_children ex) of None \<Rightarrow> Inl ''     package/export/build_type not found in XML, skipping''
                | Some bt \<Rightarrow>
                    (case first_child ''name'' (xml_children root) of None \<Rightarrow> Inl ''     package/pkg_name not found in XML, skipping''
                     | Some nm \<Rightarrow> Inr (xml_text nm, xml_text bt)))))"

text \<open>A null text or an unset \<open>ROS_DISTRO\<close> is used as a C string.\<close>

definition c_string :: "string option \<Rightarrow> string res" where
  "c_string t = (case t of None \<Rightarrow> Inl Null_deref | Some s \<Rightarrow> Inr s)"

definition both :: "bool start \<Rightarrow> bool start \<Rightarrow> bool start" where
  "both m n = bindA m (\<lambda>ok. if ok then n else retA False)"

definition check_directory :: "system_env \<Rightarrow> string \<Rightarrow> bool start" where
  "check_directory e pkg =
     (let path = path_append pkg ''package.xml''
      in if \<not> se_exists e path then fail_start (''     '' @ path @ '' not found, skipping'')
         else case package_parts (se_load_xml e path) of
                Inl t \<Rightarrow> fail_start t
              | Inr (nm, bt) \<Rightarrow>
                  bindA (liftA (c_string nm)) (\<lambda>_. bindA (liftA (c_string bt)) (\<lambda>_. bindA (liftA (c_string (se_distro e))) (\<lambda>distro.
                  both (runCmd e (''/usr/bin/rosdep install -i --from-path '' @ pkg @ '' --rosdistro '' @ distro @ '' -y''))
                       (runCmd e (''/usr/bin/colcon build --symlink-install --base-path '' @ pkg))))))"

definition check_name :: "system_env \<Rightarrow> string \<Rightarrow> bool start" where
  "check_name e pkg =
     bindA (liftA (c_string (se_distro e))) (\<lambda>distro.
       case replace_str pkg ''_'' ''-'' of
         None \<Rightarrow> liftA (Inl Blocks)
       | Some p \<Rightarrow> runCmd e (''/usr/bin/apt-get install -y '' @ ''ros-'' @ distro @ ''-'' @ p))"

definition checkPackage :: "system_env \<Rightarrow> string \<Rightarrow> bool start" where
  "checkPackage e pkg = (if take 1 pkg = ''/'' then check_directory e pkg else check_name e pkg)"

section \<open>The start-up check\<close>

text \<open>An entry of the configuration: the package and whether its check is forced.\<close>

definition package_entry :: "string \<Rightarrow> string \<times> bool" where
  "package_entry item =
     (if CHR '':'' \<in> set item then
        (let parts = split item (CHR '':'') in (parts ! 0, 1 < length parts \<and> parts ! 1 = ''FORCE_CHECK''))
      else (item, False))"

definition checked_before :: "string \<Rightarrow> yaml_list \<Rightarrow> bool" where
  "checked_before pkg y = (case y of Y_seq xs \<Rightarrow> pkg \<in> set xs | _ \<Rightarrow> False)"

definition yaml_push :: "string \<Rightarrow> yaml_list \<Rightarrow> yaml_list res" where
  "yaml_push pkg y =
     (case y of Y_seq xs \<Rightarrow> Inr (Y_seq (xs @ [pkg])) | Y_scalar \<Rightarrow> Inl (Runtime_error ''bad push'') | _ \<Rightarrow> Inr (Y_seq [pkg]))"

text \<open>One entry: the log so far and whether anything has changed.\<close>

definition check_entry :: "system_env \<Rightarrow> string \<Rightarrow> yaml_list \<times> bool \<Rightarrow> (yaml_list \<times> bool) start" where
  "check_entry e item st =
     (case package_entry item of (pkg, force) \<Rightarrow>
        let before = checked_before pkg (fst st)
        in if before \<and> \<not> force then retA st
           else let log = (if fst st = Y_undefined then Y_seq [] else fst st)
                in bindA (checkPackage e pkg) (\<lambda>done_now.
                   bindA (liftA (if before then Inr log else yaml_push pkg log)) (\<lambda>log'.
                     retA (log', done_now \<or> snd st))))"

definition installExtraPackages :: "system_env \<Rightarrow> bool start" where
  "installExtraPackages e =
     bindA (getA sf_lock) (\<lambda>lock.
     if lock then thenA (modA (\<lambda>f. f\<lparr>sf_lock := False\<rparr>)) (retA False)
     else bindA (getA sf_config) (\<lambda>config.
       case config of
         None \<Rightarrow> thenA (emitA [Start_error ''Config file not found at /ros2_ws/phntm_bridge_params.yaml'']) (retA False)
       | Some None \<Rightarrow> retA False
       | Some (Some items) \<Rightarrow>
           bindA (getA (\<lambda>f. case sf_log f of None \<Rightarrow> Y_undefined | Some y \<Rightarrow> y)) (\<lambda>log0.
           bindA (forA (check_entry e) items (log0, False)) (\<lambda>(log, changed).
           thenA (ifA (log \<noteq> Y_undefined) (modA (\<lambda>f. f\<lparr>sf_log := Some log\<rparr>)))
           (thenA (ifA changed (modA (\<lambda>f. f\<lparr>sf_lock := True\<rparr>))) (retA changed))))))"

section \<open>The revision\<close>

text \<open>\<open>git\<close>: the output of a command, or the failure of \<open>popen\<close>.\<close>

definition executeGitCommand :: "(string \<Rightarrow> string option) \<Rightarrow> string \<Rightarrow> string \<Rightarrow> string res" where
  "executeGitCommand git command repo_path =
     (case git (''git -C '' @ repo_path @ '' '' @ command) of
        None \<Rightarrow> Inl (Runtime_error ''popen() failed!'') | Some out \<Rightarrow> Inr out)"

definition readGitRepoHead :: "(string \<Rightarrow> string option) \<Rightarrow> string \<Rightarrow> 'j bridge_config \<Rightarrow> 'j bridge_config res" where
  "readGitRepoHead git repo_path c =
     (case bindR (executeGitCommand git ''rev-parse HEAD'' repo_path) (\<lambda>sha.
           bindR (executeGitCommand git ''tag --points-at HEAD'' repo_path) (\<lambda>tags.
             let c = c\<lparr>cf_git_head_sha := trim sha ws_chars\<rparr>; ts = trim tags ws_chars
             in Inr (if ts = [] then c else c\<lparr>cf_latest_git_tag := takeWhile (\<lambda>x. x \<noteq> CHR 0x0A) ts\<rparr>))) of
        Inl err \<Rightarrow> Inl Exit_process
      | Inr c' \<Rightarrow> Inr c')"

section \<open>Launch and shutdown\<close>

datatype log_level = Log_verbose | Log_debug | Log_errors

datatype main_effect =
    Files_eff file_effect
  | Bridge_eff bridge_effect
  | Lights "bool list"
  | Init_logger log_level
  | Spin_some
  | Ros_shutdown

record node =
  nd_bridge :: bridge
  nd_leds :: "leds option"

type_synonym 'a main_act = "(node, main_effect, 'a) act"

definition on_bridge :: "'a bact \<Rightarrow> 'a main_act" where
  "on_bridge m s = (case m (nd_bridge s) of (r, out, b) \<Rightarrow> (r, map Bridge_eff out, s\<lparr>nd_bridge := b\<rparr>))"

definition initLogging :: "'j bridge_config \<Rightarrow> log_level" where
  "initLogging c = (if cf_webrtc_debug c \<and> cf_webrtc_verbose c then Log_verbose else if cf_webrtc_debug c then Log_debug else Log_errors)"

text \<open>The order of \<open>main\<close> after the components were made.\<close>

definition launch :: "world \<Rightarrow> unit main_act" where
  "launch w =
     thenA (on_bridge (on_intro (\<lambda>b. intro_start (intro_graph w b) (br_cfg b))))
     (thenA (on_bridge br_connect)
     (bindA (getA (\<lambda>s. map Files_eff (fx_init (br_cfg (nd_bridge s))) @ [Init_logger (initLogging (br_cfg (nd_bridge s)))])) emitA))"

definition clear_leds :: "bool \<Rightarrow> int \<Rightarrow> unit main_act" where
  "clear_leds ok now =
     bindA (getA (\<lambda>s. leds_clear ok now (nd_leds s))) (\<lambda>r. bindA (liftA r) (\<lambda>(light, inst).
       thenA (modA (\<lambda>s. s\<lparr>nd_leds := inst\<rparr>)) (emitA [Lights light])))"

definition anyPeersConnected :: "bridge \<Rightarrow> bool" where
  "anyPeersConnected b = (br_peers b \<noteq> [])"

text \<open>The end of \<open>main\<close>. \<open>before\<close> and \<open>during\<close> are what the other threads do to the bridge while the socket is shut down. Once
  \<open>sync_close\<close> has returned there is no thread left that changes the table of peers, so waiting for an empty table
  returns only if it is empty.\<close>

definition shut_down :: "world \<Rightarrow> bool \<Rightarrow> int \<Rightarrow> activity list \<Rightarrow> activity list \<Rightarrow> unit main_act" where
  "shut_down w ok now before during =
     thenA (emitA (map Files_eff fx_stop))
     (thenA (on_bridge (on_intro (\<lambda>b. intro_stop (intro_graph w b))))
     (thenA (clear_leds ok now)
     (thenA (on_bridge (br_shutdown w before during))
     (thenA (emitA [Spin_some])
     (bindA (getA (\<lambda>s. anyPeersConnected (nd_bridge s))) (\<lambda>waiting.
       if waiting then liftA (Inl Blocks) else emitA [Ros_shutdown]))))))"

section \<open>Starting again\<close>

lemma check_entry_keeps_files: "frameA (\<lambda>f. f) (check_entry e item st)"
proof -
  have fail: "frameA (\<lambda>f. f) (fail_start t)" for t unfolding fail_start_def by (intro frame_rules)
  have ended: "frameA (\<lambda>f. f) (command_ended cmd st)" for cmd st by (cases st) (simp_all add: fail)
  have run: "frameA (\<lambda>f. f) (runCmd e cmd)" for cmd
    unfolding runCmd_def by (intro frame_rules fail ended)
  have dir: "frameA (\<lambda>f. f) (check_directory e p)" for p
  proof (cases "package_parts (se_load_xml e (path_append p ''package.xml''))")
    case (Inl t)
    then show ?thesis unfolding check_directory_def Let_def by (simp add: fail)
  next
    case (Inr q)
    then show ?thesis
      unfolding check_directory_def Let_def both_def by (cases q) (auto intro!: frame_rules run fail)
  qed
  have pkg: "frameA (\<lambda>f. f) (checkPackage e p)" for p
    unfolding checkPackage_def check_name_def by (intro frame_rules run dir)
  show ?thesis unfolding check_entry_def Let_def by (intro frame_rules pkg)
qed

lemma check_entry_logged:
  assumes "check_entry e item (y, c) f = (Inr (y', c'), out, f')"
  shows "checked_before (fst (package_entry item)) y' \<and> (\<forall>p. checked_before p y \<longrightarrow> checked_before p y') \<and> y' \<noteq> Y_undefined"
proof -
  obtain pkg force where it: "package_entry item = (pkg, force)" by (cases "package_entry item")
  show ?thesis
  proof (cases "checked_before pkg y \<and> \<not> force")
    case True
    with assms it show ?thesis by (auto simp: check_entry_def retA_def checked_before_def split: yaml_list.splits)
  next
    case False
    with assms it obtain r where
      "(if checked_before pkg y then Inr (if y = Y_undefined then Y_seq [] else y)
        else yaml_push pkg (if y = Y_undefined then Y_seq [] else y)) = Inr y'"
      by (auto simp: check_entry_def Let_def bindA_Inr_iff act_Inr_iffs cong: if_cong)
    then show ?thesis using it
      by (auto simp: checked_before_def yaml_push_def split: yaml_list.splits if_splits)
  qed
qed

lemma entries_logged:
  assumes "forA (check_entry e) items (y, c) f = (Inr (y', c'), out, f')"
  shows "(\<forall>item\<in>set items. checked_before (fst (package_entry item)) y') \<and> (\<forall>p. checked_before p y \<longrightarrow> checked_before p y') \<and> f' = f"
  using assms
proof (induction items arbitrary: y c f out)
  case Nil
  then show ?case by (simp add: retA_def)
next
  case (Cons item items)
  from Cons.prems obtain y1 c1 out1 f1 out2 where
    st: "check_entry e item (y, c) f = (Inr (y1, c1), out1, f1)" "forA (check_entry e) items (y1, c1) f1 = (Inr (y', c'), out2, f')"
    by (auto simp: bindA_Inr_iff)
  have "f1 = f" using frameAD [OF check_entry_keeps_files st(1)] .
  with check_entry_logged [OF st(1)] Cons.IH [OF st(2)] show ?case by auto
qed

lemma entries_skipped:
  assumes "\<forall>item\<in>set items. checked_before (fst (package_entry item)) y \<and> \<not> snd (package_entry item)"
  shows "forA (check_entry e) items (y, c) f = (Inr (y, c), [], f)"
  using assms by (induction items) (auto simp: retA_def bindA_def check_entry_def split_beta)

text \<open>C38. A start that changed packages asks for a restart at most once in a row: it leaves the lock file behind, and the next
  start, whatever the configuration and the system are then, runs no command, removes the lock and goes on - also with
  packages whose check is forced on every start.\<close>

theorem no_restart_loop:
  assumes "installExtraPackages e f = (Inr True, out, f')"
  shows "installExtraPackages e' f' = (Inr False, [], f'\<lparr>sf_lock := False\<rparr>)"
proof -
  from assms have "sf_lock f'"
    by (auto simp: installExtraPackages_def bindA_Inr_iff thenA_Inr_iff act_Inr_iffs ifA_def split: if_splits option.splits)
  then show ?thesis by (simp add: installExtraPackages_def bindA_def act_defs)
qed

text \<open>A package is checked once: after a start that looked at the packages of the configuration, a later start with the same
  configuration runs no command and changes nothing, if no check is forced - also for the packages whose installation
  failed, which are logged as checked like the others.\<close>

theorem packages_checked_once:
  assumes "installExtraPackages e f = (Inr changed, out, f')" "\<not> sf_lock f" "sf_config f = Some (Some items)"
    and "\<forall>item\<in>set items. \<not> snd (package_entry item)"
  shows "installExtraPackages e' (f'\<lparr>sf_lock := False\<rparr>) = (Inr False, [], f'\<lparr>sf_lock := False\<rparr>)"
proof -
  let ?y = "case sf_log f of None \<Rightarrow> Y_undefined | Some y \<Rightarrow> y"
  obtain r out1 f1 where run: "forA (check_entry e) items (?y, False) f = (r, out1, f1)" by (metis prod.exhaust)
  with assms(1-3) obtain y c where r: "r = Inr (y, c)"
    by (cases r) (auto simp: installExtraPackages_def bindA_def act_defs)
  note loop = run [unfolded r]
  have f': "f' = (if c then (if y \<noteq> Y_undefined then f1\<lparr>sf_log := Some y\<rparr> else f1)\<lparr>sf_lock := True\<rparr>
                   else (if y \<noteq> Y_undefined then f1\<lparr>sf_log := Some y\<rparr> else f1))"
    using assms(1-3) loop
    by (cases c; cases "y = Y_undefined") (simp_all add: installExtraPackages_def bindA_def act_defs)
  note l = entries_logged [OF loop]
  have y: "(case sf_log (f'\<lparr>sf_lock := False\<rparr>) of None \<Rightarrow> Y_undefined | Some y \<Rightarrow> y) = y \<or> items = [] "
    using f' l by (cases items) (auto simp: checked_before_def split: yaml_list.splits)
  have f2: "sf_config (f'\<lparr>sf_lock := False\<rparr>) = Some (Some items)" using f' l assms(3) by auto
  let ?f = "f'\<lparr>sf_lock := False\<rparr>" and ?y' = "case sf_log f' of None \<Rightarrow> Y_undefined | Some y \<Rightarrow> y"
  have "forA (check_entry e') items (?y', False) ?f = (Inr (?y', False), [], ?f)"
    using y l assms(4) by (intro entries_skipped) auto
  moreover have "?f\<lparr>sf_log := Some ?y'\<rparr> = ?f" if "?y' \<noteq> Y_undefined"
    using that by (cases "sf_log f'") auto
  ultimately show ?thesis using f2
    by (auto simp: installExtraPackages_def bindA_def act_defs)
qed

definition sample_system :: system_env where
  "sample_system = \<lparr>se_run = (\<lambda>c. Some (Exited 0)), se_exists = (\<lambda>p. False), se_load_xml = (\<lambda>p. []), se_distro = Some ''jazzy''\<rparr>"

definition failing_system :: system_env where
  "failing_system = sample_system\<lparr>se_run := (\<lambda>c. Some (Exited 1))\<rparr>"

definition sample_files :: start_files where
  "sample_files = \<lparr>sf_lock = False, sf_log = None, sf_config = Some (Some [''a_b'', ''/d''])\<rparr>"

theorem no_restart_loop_witness:
  "\<exists>out f'. installExtraPackages sample_system sample_files = (Inr True, out, f') \<and>
     installExtraPackages failing_system f' = (Inr False, [], f'\<lparr>sf_lock := False\<rparr>)"
proof -
  have "fst (installExtraPackages sample_system sample_files) = Inr True" by code_simp
  then obtain out f' where i: "installExtraPackages sample_system sample_files = (Inr True, out, f')" by (metis prod.collapse)
  from i no_restart_loop [OF i] show ?thesis by blast
qed

theorem packages_checked_once_witness:
  "\<exists>out f'. installExtraPackages failing_system sample_files = (Inr False, out, f') \<and>
     installExtraPackages sample_system (f'\<lparr>sf_lock := False\<rparr>) = (Inr False, [], f'\<lparr>sf_lock := False\<rparr>)"
proof -
  have "fst (installExtraPackages failing_system sample_files) = Inr False" by code_simp
  then obtain out f' where i: "installExtraPackages failing_system sample_files = (Inr False, out, f')" by (metis prod.collapse)
  have "\<forall>item\<in>set [''a_b'', ''/d'']. \<not> snd (package_entry item)" by code_simp
  with i packages_checked_once [OF i, of "[''a_b'', ''/d'']"] show ?thesis by (simp add: sample_files_def)
qed

section \<open>Stopping\<close>

lemma intro_kept: "on_intro m b = (r, out, b') \<Longrightarrow> bridge_ok b \<Longrightarrow> bridge_ok b' \<and> br_peers b' = br_peers b"
  by (auto simp: on_intro_def bridge_ok_def split: prod.splits)

lemma frame_catch: "frameA g m \<Longrightarrow> frameA g (catchA m)"
  by (auto simp: frameA_def catchA_def final_def split: prod.splits sum.splits) (metis snd_conv)+

lemma next_frames:
  "frameA br_next (br_ack i m)" "frameA br_next (returnError e ev)" "frameA br_next (ack_if_needed ev)"
  "frameA br_next (getConnectedPeer ev)" "frameA br_next (on_object n f)" "frameA br_next (on_intro g)"
  "frameA br_next (peer_leaves w n)" "frameA br_next (subscription_handler h ev)"
proof -
  show a: "frameA br_next (br_ack i m)" for i m unfolding br_ack_def by (intro frame_rules)
  show "frameA br_next (returnError e ev)" unfolding returnError_def by (rule a)
  show k: "frameA br_next (ack_if_needed ev)" unfolding ack_if_needed_def returnSuccess_def by (intro frame_rules a)
  show c: "frameA br_next (getConnectedPeer ev)" unfolding getConnectedPeer_def by (intro frame_rules a)
  show o: "frameA br_next (on_object n f)" for f :: "bridge \<Rightarrow> 'x pact" and n
    by (auto simp: frameA_def on_object_def final_def split: option.splits prod.splits)
  show "frameA br_next (on_intro g)" by (auto simp: frameA_def on_intro_def final_def split: prod.splits)
  show "frameA br_next (peer_leaves w n)"
    unfolding peer_leaves_def by (intro frame_rules o frameA_mod) (simp split: option.splits)
  show "frameA br_next (subscription_handler h ev)" unfolding subscription_handler_def by (intro frame_rules a k c o)
qed

lemma only_connections_make_objects: "k \<noteq> H_peer \<Longrightarrow> frameA br_next (handle w k ev)"
  by (cases k)
    (auto simp: onIceServers_def onPeerWRTCInfo_def onPeerDisconnected_def onIntrospection_def onSubscribeRead_def onUnsubscribeRead_def
      onSubscribeWrite_def onUnsubscribeWrite_def onServiceCall_def onFileRequest_def br_onSDPAnswer_def Let_def
      intro!: frame_rules next_frames frameA_mod)

lemma activity_frame: "(\<And>ev. a \<noteq> A_event H_peer ev) \<Longrightarrow> frameA br_next (act_on w a)"
proof (cases a)
  case (A_event k ev)
  assume "\<And>ev. a \<noteq> A_event H_peer ev"
  with A_event show ?thesis by (auto intro: only_connections_make_objects)
qed (auto simp: run_process_def br_onOfferReply_def onIceStateChange_def onSignalingStateChange_def onInboundMessage_def
    br_onSocketOpen_def br_onDisconnected_def onAllPeersDisconnected_def intro!: frame_catch frame_rules next_frames frameA_mod)

lemma meanwhile_frame: "\<forall>a\<in>set acts. frameA g (act_on w a) \<Longrightarrow> frameA g (meanwhile w acts)"
  unfolding meanwhile_def by (induction acts) auto

text \<open>While no peer connects an empty table stays empty.\<close>

lemma table_stays_empty:
  assumes "bridge_ok b" "br_peers b = []" "meanwhile w acts b = (Inr (), out, b')" "\<forall>ev. A_event H_peer ev \<notin> set acts"
  shows "br_peers b' = []"
proof -
  have "frameA br_next (meanwhile w acts)"
    using assms(4) by (intro meanwhile_frame ballI activity_frame) metis
  from frameAD [OF this assms(3)] have n: "br_next b' = br_next b" .
  note ok = okA_good [OF okA_meanwhile assms(3,1)]
  have "map_of (br_peers b') j = None" for j
  proof (rule ccontr)
    assume "map_of (br_peers b') j \<noteq> None"
    then obtain m where m: "map_of (br_peers b') j = Some m" by blast
    with ok n have "m < br_next b" by (fastforce simp: bridge_ok_def)
    moreover have "m \<in> ran (map_of (br_peers b'))" using m by (rule ranI)
    ultimately have "m \<in> ran (map_of (br_peers b))" using ok by (simp add: since_def)
    with assms(2) show False by simp
  qed
  then show ?thesis by (cases "br_peers b'") (auto split: if_splits, metis option.distinct(1))
qed

lemma socket_shut:
  assumes "br_shutdown w before during b = (Inr (), out, b')" "bridge_ok b"
  shows "\<exists>out1. out = out1 @ [Sync_close]" "map_of (br_peers b) i = Some n \<Longrightarrow> gone i n b'"
    "\<forall>ev. A_event H_peer ev \<notin> set (before @ during) \<Longrightarrow> br_peers b' = []"
proof -
  from assms(1) obtain o1 b1 o2 b2 o3 where st: "onAllPeersDisconnected w (b\<lparr>br_shutting_down := True\<rparr>) = (Inr (), o1, b1)"
    "meanwhile w before b1 = (Inr (), o2, b2)" "meanwhile w during b2 = (Inr (), o3, b')"
    "out = (o1 @ o2 @ [Set_attempts 0, Clear_listeners] @ o3) @ [Sync_close]"
    by (auto simp: br_shutdown_def br_shut_peers_def thenA_Inr_iff act_Inr_iffs)
  have ok: "bridge_ok (b\<lparr>br_shutting_down := True\<rparr>)" using assms(2) by (simp add: bridge_ok_def)
  note g = all_gone [OF ok st(1)]
  have ok1: "bridge_ok b1" by (rule okAD [OF okA_all_leave ok st(1)])
  note s2 = okA_good [OF okA_meanwhile st(2) ok1]
  then have ok2: "bridge_ok b2" ..
  note s3 = okA_good [OF okA_meanwhile st(3) ok2]
  show "\<exists>out1. out = out1 @ [Sync_close]" using st(4) by blast
  show "gone i n b'" if "map_of (br_peers b) i = Some n" using g(3) [of i n] that s2 s3 by (simp add: since_def)
  assume quiet: "\<forall>ev. A_event H_peer ev \<notin> set (before @ during)"
  with table_stays_empty [OF ok1 g(1) st(2)] have "br_peers b2 = []" by simp
  with table_stays_empty [OF ok2 _ st(3)] quiet show "br_peers b' = []" by simp
qed

text \<open>The stages of the shutdown up to the wait.\<close>

lemma shut_down_stages:
  assumes "shut_down w ok now before during s = (r, out, s')" "Spin_some \<in> set out"
  obtains o1 b1 light inst o2 b2 where
    "on_intro (\<lambda>b. intro_stop (intro_graph w b)) (nd_bridge s) = (Inr (), o1, b1)"
    "leds_clear ok now (nd_leds s) = Inr (light, inst)" "br_shutdown w before during b1 = (Inr (), o2, b2)" "nd_bridge s' = b2"
    "if anyPeersConnected b2 then r = Inl Blocks
     else r = Inr () \<and> out = map Files_eff fx_stop @ map Bridge_eff o1 @ [Lights light] @ map Bridge_eff o2 @ [Spin_some, Ros_shutdown]"
proof -
  obtain r1 o1 b1 where i: "on_intro (\<lambda>b. intro_stop (intro_graph w b)) (nd_bridge s) = (r1, o1, b1)" by (metis prod.exhaust)
  have r1: "r1 = Inr ()"
    using assms i by (cases r1) (auto simp: shut_down_def bindA_def act_defs on_bridge_def fx_stop_def)
  obtain light inst where l: "leds_clear ok now (nd_leds s) = Inr (light, inst)"
    using assms i r1
    by (cases "leds_clear ok now (nd_leds s)") (auto simp: shut_down_def bindA_def act_defs on_bridge_def fx_stop_def clear_leds_def)
  obtain r2 o2 b2 where b: "br_shutdown w before during b1 = (r2, o2, b2)" by (metis prod.exhaust)
  have r2: "r2 = Inr ()"
    using assms i r1 l b by (cases r2) (auto simp: shut_down_def bindA_def act_defs on_bridge_def fx_stop_def clear_leds_def)
  show thesis
    by (rule that [OF i [unfolded r1] l b [unfolded r2]])
       (use assms(1) i r1 l b r2 in \<open>auto simp: shut_down_def bindA_def act_defs on_bridge_def clear_leds_def split: if_splits\<close>)
qed

text \<open>C12. When \<open>main\<close> has come to its wait for the table of peers, every peer that was connected when the shutdown began has been
  disconnected. \<open>main\<close> then returns, with the socket closed before ROS is shut down, unless a peer is in the table; and a
  peer can be there only if its connection was handled by the client's thread while the socket was shut down, after the
  peers had been disconnected.\<close>

theorem shutdown_complete:
  assumes "reachable (nd_bridge s, threads)" "shut_down w ok now before during s = (r, out, s')" "Spin_some \<in> set out"
  shows "(\<forall>i n. map_of (br_peers (nd_bridge s)) i = Some n \<longrightarrow>
      (\<exists>p. map_of (br_objs (nd_bridge s')) n = Some p \<and> pe_id p = i \<and> \<not> pe_connected p)) \<and>
    (if br_peers (nd_bridge s') = [] then r = Inr () \<and> (\<exists>o1 o2. out = o1 @ [Bridge_eff Sync_close] @ o2 @ [Ros_shutdown])
     else r = Inl Blocks \<and> (\<exists>ev. A_event H_peer ev \<in> set (before @ during)))"
proof -
  obtain o1 b1 light inst o2 b2 where
    st: "on_intro (\<lambda>b. intro_stop (intro_graph w b)) (nd_bridge s) = (Inr (), o1, b1)"
      "br_shutdown w before during b1 = (Inr (), o2, b2)" "nd_bridge s' = b2"
      "if anyPeersConnected b2 then r = Inl Blocks
       else r = Inr () \<and> out = map Files_eff fx_stop @ map Bridge_eff o1 @ [Lights light] @ map Bridge_eff o2 @ [Spin_some, Ros_shutdown]"
    by (rule shut_down_stages [OF assms(2,3)])
  have "bridge_ok (nd_bridge s)" using reachable_ok [OF assms(1)] by simp
  from intro_kept [OF st(1) this] have b1: "bridge_ok b1" "br_peers b1 = br_peers (nd_bridge s)" by blast+
  note shut = socket_shut [OF st(2) b1(1)]
  from shut(1) obtain out1 where o2: "o2 = out1 @ [Sync_close]" by blast
  have "out = (map Files_eff fx_stop @ map Bridge_eff o1 @ [Lights light] @ map Bridge_eff out1) @ [Bridge_eff Sync_close] @ [Spin_some] @ [Ros_shutdown]"
    if "br_peers b2 = []" using st(4) that by (simp add: anyPeersConnected_def o2)
  then have "\<exists>o1 o2. out = o1 @ [Bridge_eff Sync_close] @ o2 @ [Ros_shutdown]" if "br_peers b2 = []" using that by blast
  moreover have "gone i n b2" if "map_of (br_peers (nd_bridge s)) i = Some n" for i n using shut(2) that b1(2) by simp
  ultimately show ?thesis using st(3,4) shut(3) by (auto simp: gone_def anyPeersConnected_def)
qed

text \<open>C39. Without both LEDs configured \<open>main\<close> crashes while it stops: the null pointer of the missing LED is used before the
  socket is shut down, so the peers stay connected and the socket is not closed.\<close>

theorem shutdown_needs_leds:
  assumes "nd_leds s = Some l" "ls_conn l = None \<or> ls_data l = None" "shut_down w ok now before during s = (r, out, s')"
  shows "r \<noteq> Inr () \<and> br_peers (nd_bridge s') = br_peers (nd_bridge s) \<and> br_shutting_down (nd_bridge s') = br_shutting_down (nd_bridge s)"
proof -
  have l: "leds_clear ok now (nd_leds s) = Inl Null_deref"
    using assms(1,2) by (auto simp: leds_clear_def Let_def split: option.splits prod.splits)
  obtain r1 o1 b1 where i: "on_intro (\<lambda>b. intro_stop (intro_graph w b)) (nd_bridge s) = (r1, o1, b1)" by (metis prod.exhaust)
  then have "br_peers b1 = br_peers (nd_bridge s)" "br_shutting_down b1 = br_shutting_down (nd_bridge s)"
    by (auto simp: on_intro_def split: prod.splits)
  with assms(3) i l show ?thesis
    by (cases r1) (auto simp: shut_down_def bindA_def act_defs on_bridge_def clear_leds_def)
qed

definition sample_leds :: leds where
  "sample_leds = no_leds\<lparr>ls_leds := [snd (new_led ROS 0 0 True 0)], ls_conn := Some 0, ls_data := Some 0\<rparr>"

text \<open>A peer whose connection is handled after the others were disconnected stays in the table: \<open>main\<close> waits for ever.\<close>

definition late_event :: sio_event where
  "late_event = \<lparr>ev_nsp = ''/'', ev_name = ''peer'', ev_msgId = 8,
     ev_messages = [Some (Object_msg [(''id_app'', text_message ''app''), (''id_instance'', text_message ''two'')])], ev_need_ack = True\<rparr>"

lemma late_connection_hangs:
  "fst (shut_down sample_world True 0 [A_event H_peer late_event] [] \<lparr>nd_bridge = one_peer, nd_leds = Some sample_leds\<rparr>) = Inl Blocks"
  by code_simp

theorem shutdown_complete_witness:
  "\<exists>s r out s'. map_of (br_peers (nd_bridge s)) ''one'' = Some 0 \<and>
     shut_down sample_world True 0 [A_event H_file sample_event] [A_dropped] s = (r, out, s') \<and> r = Inr () \<and>
     (\<exists>p. map_of (br_objs (nd_bridge s')) 0 = Some p \<and> \<not> pe_connected p)"
proof -
  let ?s = "\<lparr>nd_bridge = one_peer, nd_leds = Some sample_leds\<rparr>"
  obtain threads where r: "reachable (nd_bridge ?s, threads)" using one_peer_reachable by auto
  obtain r out s' where d: "shut_down sample_world True 0 [A_event H_file sample_event] [A_dropped] ?s = (r, out, s')" by (metis prod.exhaust)
  have "Spin_some \<in> set (fst (snd (shut_down sample_world True 0 [A_event H_file sample_event] [A_dropped] ?s)))" by code_simp
  with d have "Spin_some \<in> set out" by simp
  note c = shutdown_complete [OF r d this]
  have t: "map_of (br_peers (nd_bridge ?s)) ''one'' = Some 0" by code_simp
  from c have "r = Inr ()" by (auto split: if_splits)
  moreover from c t have "\<exists>p. map_of (br_objs (nd_bridge s')) 0 = Some p \<and> \<not> pe_connected p" by blast
  ultimately show ?thesis using d t by (intro exI [of _ ?s] exI) blast
qed

theorem shutdown_needs_leds_witness:
  "fst (shut_down sample_world True 0 [] [] \<lparr>nd_bridge = one_peer, nd_leds = Some no_leds\<rparr>) \<noteq> Inr ()"
proof -
  let ?s = "\<lparr>nd_bridge = one_peer, nd_leds = Some no_leds\<rparr>"
  obtain r out s' where d: "shut_down sample_world True 0 [] [] ?s = (r, out, s')" by (metis prod.exhaust)
  with shutdown_needs_leds [OF _ _ d] show ?thesis by (simp add: no_leds_def)
qed

end
