(* ===== verification/Encoder.thy ===== *)
theory Encoder
  imports Video Act
begin

text \<open>
  \<open>src/ffmpeg_encoder.cpp\<close>: the H.264 encoder behind a video topic. The answers of FFmpeg are inputs; what the code allocates
  and frees is the state, so that leaks show. The pictures themselves are not modelled: \<open>sws_scale\<close> and the
  codec work on buffers that belong to the allocations.
\<close>

section \<open>State\<close>

datatype resource = R_hw_ctx | R_codec_ctx | R_frame | R_sws | R_packet

text \<open>How many of each are allocated.\<close>

type_synonym allocations = "resource \<Rightarrow> nat"

record codec_settings =
  cs_codec :: nat
  cs_width :: int
  cs_height :: int
  cs_time_base :: "int \<times> int"
  cs_framerate :: "int \<times> int"
  cs_gop_size :: int
  cs_max_b_frames :: int
  cs_thread_count :: int
  cs_bit_rate :: int
  cs_hw :: bool
  cs_options :: "(string \<times> string) list"

record ff_encoder =
  fe_width :: int
  fe_height :: int
  fe_src_encoding :: string
  fe_topic :: string
  fe_frame_id :: string
  fe_hw :: bool
  fe_settings :: codec_settings
  fe_callback :: bool

record ff_packet =
  fp_frame_id :: string
  fp_stamp :: int
  fp_encoding :: string
  fp_width :: int
  fp_height :: int
  fp_flags :: int
  fp_pts :: "64 word"
  fp_data :: bytes

datatype ff_effect = Deliver ff_packet | Encoder_log string

type_synonym 'a enc_act = "(allocations, ff_effect, 'a) act"

text \<open>FFmpeg while an encoder is made, and for one frame.\<close>

record ffmpeg =
  ff_device :: "string \<Rightarrow> bool"
  ff_hw_ctx :: bool
  ff_by_name :: "string \<Rightarrow> nat option"
  ff_h264 :: "nat option"
  ff_context :: bool
  ff_open :: "codec_settings \<Rightarrow> bool"
  ff_frame :: bool
  ff_buffer :: bool

datatype received = R_again | R_eof | R_error int | R_data int "64 word" bytes

record ff_answer =
  fa_send :: bool
  fa_packet :: bool
  fa_receive :: received
  fa_now :: int

definition alloc :: "resource \<Rightarrow> unit enc_act" where
  "alloc r = modA (\<lambda>s. s(r := s r + 1))"

definition free :: "resource \<Rightarrow> unit enc_act" where
  "free r = modA (\<lambda>s. s(r := s r - 1))"

definition throw :: "string \<Rightarrow> 'a enc_act" where
  "throw t = liftA (Inl (Runtime_error t))"

definition enc_name :: "string \<Rightarrow> string" where
  "enc_name topic = ''Enc '' @ topic"

definition enc_error :: "string \<Rightarrow> string \<Rightarrow> string" where
  "enc_error topic t = ''['' @ enc_name topic @ ''] '' @ t"

section \<open>Construction\<close>

definition wants_hardware :: "ffmpeg \<Rightarrow> string \<Rightarrow> bool" where
  "wants_hardware f hw_device = ((hw_device = ''cuda'' \<or> hw_device = ''vaapi'') \<and> ff_device f hw_device)"

text \<open>With a hardware device NVIDIA, Intel and AMD in this order; otherwise, or if none of them is there, software.\<close>

definition choose_codec :: "ffmpeg \<Rightarrow> bool \<Rightarrow> nat option" where
  "choose_codec f hw =
     (case (if hw then (case ff_by_name f ''h264_nvenc'' of Some c \<Rightarrow> Some c
                        | None \<Rightarrow> (case ff_by_name f ''h264_vaapi'' of Some c \<Rightarrow> Some c
                                   | None \<Rightarrow> ff_by_name f ''h264_amf'')) else None) of
        Some c \<Rightarrow> Some c
      | None \<Rightarrow> ff_h264 f)"

definition settings_of :: "nat \<Rightarrow> bool \<Rightarrow> int \<Rightarrow> int \<Rightarrow> int \<Rightarrow> int \<Rightarrow> int \<Rightarrow> codec_settings" where
  "settings_of codec hw width height thread_count gop_size bit_rate =
     \<lparr>cs_codec = codec, cs_width = width, cs_height = height, cs_time_base = (1, 30), cs_framerate = (30, 1),
      cs_gop_size = gop_size, cs_max_b_frames = 0, cs_thread_count = thread_count, cs_bit_rate = bit_rate, cs_hw = hw,
      cs_options = [(''preset'', ''fast'')] @ (if hw then [] else [(''tune'', ''zerolatency'')]) @ [(''profile'', ''high'')]\<rparr>"

definition require :: "bool \<Rightarrow> string \<Rightarrow> unit enc_act" where
  "require b t = (if b then retA () else throw t)"

text \<open>A constructor that throws frees nothing: the destructor does not run.\<close>

definition make_encoder ::
    "ffmpeg \<Rightarrow> int \<Rightarrow> int \<Rightarrow> string \<Rightarrow> string \<Rightarrow> string \<Rightarrow> string \<Rightarrow> int \<Rightarrow> int \<Rightarrow> int \<Rightarrow> bool \<Rightarrow> ff_encoder enc_act" where
  "make_encoder f width height src_encoding frame_id topic hw_device thread_count gop_size bit_rate callback =
     (let hw = wants_hardware f hw_device
      in thenA (if hw then thenA (require (ff_hw_ctx f) (enc_error topic (''Failed to create hardware device context for '' @ hw_device)))
                              (alloc R_hw_ctx) else retA ())
         (case choose_codec f hw of
            None \<Rightarrow> throw (enc_error topic (''H.264 encoder not found for '' @ topic))
          | Some codec \<Rightarrow>
              let cs = settings_of codec hw width height thread_count gop_size bit_rate
              in thenA (require (ff_context f) (enc_error topic ''Could not allocate codec context''))
                 (thenA (alloc R_codec_ctx)
                 (thenA (require (ff_open f cs) (enc_error topic (''Could not open codec for '' @ topic)))
                 (thenA (require (ff_frame f) (enc_error topic (''Could not allocate frame for '' @ topic)))
                 (thenA (alloc R_frame)
                 (thenA (require (ff_buffer f) (enc_error topic (''Could not allocate frame data for '' @ topic)))
                 (thenA (alloc R_sws)
                 (retA \<lparr>fe_width = width, fe_height = height, fe_src_encoding = src_encoding, fe_topic = topic,
                        fe_frame_id = frame_id, fe_hw = hw, fe_settings = cs, fe_callback = callback\<rparr>)))))))))"

definition checkCompatibility :: "int \<Rightarrow> int \<Rightarrow> string \<Rightarrow> ff_encoder \<Rightarrow> bool" where
  "checkCompatibility width height src_encoding e \<longleftrightarrow>
     width = fe_width e \<and> height = fe_height e \<and> src_encoding = fe_src_encoding e"

section \<open>Frames\<close>

definition packet_of :: "ff_encoder \<Rightarrow> int \<Rightarrow> int \<Rightarrow> 64 word \<Rightarrow> bytes \<Rightarrow> ff_packet" where
  "packet_of e now flags pts d =
     \<lparr>fp_frame_id = fe_frame_id e, fp_stamp = now, fp_encoding = ''h.264'', fp_width = fe_width e, fp_height = fe_height e,
      fp_flags = flags, fp_pts = pts, fp_data = d\<rparr>"

text \<open>The packet is freed on every path but the one that delivers it, where only its buffer is released
  (\<open>av_packet_unref\<close>).\<close>

definition sendFrameToEncoder :: "ff_answer \<Rightarrow> ff_encoder \<Rightarrow> unit enc_act" where
  "sendFrameToEncoder a e =
     thenA (require (fa_send a) (enc_error (fe_topic e) ''Error sending frame to encoder''))
     (thenA (require (fa_packet a) (enc_error (fe_topic e) ''Could not allocate packet''))
     (thenA (alloc R_packet)
       (case fa_receive a of
          R_again \<Rightarrow> free R_packet
        | R_eof \<Rightarrow> free R_packet
        | R_error n \<Rightarrow> thenA (free R_packet) (emitA [Encoder_log (enc_error (fe_topic e) (''Error during encoding'' @ show_int n))])
        | R_data flags pts d \<Rightarrow> emitA (if fe_callback e then [Deliver (packet_of e (fa_now a) flags pts d)] else []))))"

text \<open>The presentation time given to the codec.\<close>

definition frame_pts :: "32 word \<Rightarrow> 32 word \<Rightarrow> 64 word" where
  "frame_pts sec nanosec = convertToRtpTimestamp sec nanosec"

definition encodeFrame :: "ff_answer \<Rightarrow> bool \<Rightarrow> ff_encoder \<Rightarrow> unit enc_act" where
  "encodeFrame a is_empty e = (if is_empty then liftA (Inl Invalid_argument) else sendFrameToEncoder a e)"

definition flush :: "ff_answer \<Rightarrow> ff_encoder \<Rightarrow> unit enc_act" where
  "flush a e = sendFrameToEncoder a e"

text \<open>An exception that leaves the destructor terminates the process.\<close>

definition destroy_encoder :: "ff_answer \<Rightarrow> ff_encoder \<Rightarrow> unit enc_act" where
  "destroy_encoder a e s =
     (case flush a e s of
        (Inl err, out, s') \<Rightarrow> (Inl Exit_process, out, s')
      | (Inr x, out, s') \<Rightarrow>
          (case thenA (free R_frame) (thenA (free R_codec_ctx) (thenA (if fe_hw e then free R_hw_ctx else retA ()) (free R_sws))) s' of
             (r, out', s'') \<Rightarrow> (r, out @ out', s'')))"

section \<open>What is left\<close>

definition nothing :: allocations where
  "nothing = (\<lambda>_. 0)"

definition delivered :: "ff_effect list \<Rightarrow> nat" where
  "delivered out = length (filter (\<lambda>e. case e of Deliver _ \<Rightarrow> True | _ \<Rightarrow> False) out)"

definition encode_all :: "ff_answer list \<Rightarrow> ff_encoder \<Rightarrow> unit enc_act" where
  "encode_all answers e = forA (\<lambda>a _. encodeFrame a False e) answers ()"

definition whole_life ::
    "ffmpeg \<Rightarrow> int \<Rightarrow> int \<Rightarrow> string \<Rightarrow> string \<Rightarrow> string \<Rightarrow> string \<Rightarrow> int \<Rightarrow> int \<Rightarrow> int \<Rightarrow> ff_answer list \<Rightarrow> ff_answer \<Rightarrow> unit enc_act" where
  "whole_life f width height src_encoding frame_id topic hw_device thread_count gop_size bit_rate answers last_answer =
     bindA (make_encoder f width height src_encoding frame_id topic hw_device thread_count gop_size bit_rate True) (\<lambda>e.
       thenA (encode_all answers e) (destroy_encoder last_answer e))"

lemma made_encoder:
  assumes "make_encoder f width height src_encoding frame_id topic hw_device thread_count gop_size bit_rate callback s = (Inr e, out, s')"
  shows "fe_callback e = callback \<and> out = [] \<and>
    s' = s(R_hw_ctx := s R_hw_ctx + (if fe_hw e then 1 else 0), R_codec_ctx := s R_codec_ctx + 1, R_frame := s R_frame + 1, R_sws := s R_sws + 1)"
proof -
  from assms obtain codec where "choose_codec f (wants_hardware f hw_device) = Some codec"
    by (auto simp: make_encoder_def Let_def thenA_Inr_iff act_Inr_iffs throw_def split: option.splits)
  with assms show ?thesis
    by (cases "wants_hardware f hw_device")
       (auto simp: make_encoder_def Let_def thenA_Inr_iff act_Inr_iffs alloc_def require_def throw_def fun_eq_iff split: if_splits)
qed

lemma sent_frame:
  assumes "sendFrameToEncoder a e s = (Inr (), out, s')" "fe_callback e"
  shows "s' = s(R_packet := s R_packet + delivered out)"
  using assms
  by (cases "fa_receive a")
     (auto simp: sendFrameToEncoder_def thenA_Inr_iff act_Inr_iffs alloc_def free_def require_def throw_def delivered_def fun_eq_iff split: if_splits)

lemma delivered_append: "delivered (xs @ ys) = delivered xs + delivered ys"
  by (simp add: delivered_def)

lemma encoded_frames:
  assumes "forA (\<lambda>a _. encodeFrame a False e) answers u s = (Inr (), out, s')" "fe_callback e"
  shows "s' = s(R_packet := s R_packet + delivered out)"
  using assms(1)
proof (induction answers arbitrary: u s out)
  case Nil
  then show ?case by (auto simp: retA_def delivered_def)
next
  case (Cons a answers)
  from Cons.prems obtain o1 s1 o2 where st: "sendFrameToEncoder a e s = (Inr (), o1, s1)"
    "forA (\<lambda>a _. encodeFrame a False e) answers () s1 = (Inr (), o2, s')" "out = o1 @ o2"
    by (auto simp: bindA_Inr_iff encodeFrame_def)
  from sent_frame [OF st(1) assms(2)] Cons.IH [OF st(2)] st(3) show ?case by (simp add: delivered_append fun_eq_iff)
qed

text \<open>C40. An encoder that was made, has encoded any number of frames and was destroyed has freed all it allocated except one
  packet for every packet it delivered: the memory of a video topic grows with every frame.\<close>

theorem encoder_leaks_packets:
  assumes "whole_life f width height src_encoding frame_id topic hw_device thread_count gop_size bit_rate answers last_answer nothing =
    (Inr (), out, s')"
  shows "s' = nothing(R_packet := delivered out)"
proof -
  from assms obtain e o1 s1 o2 s2 o3 where
    st: "make_encoder f width height src_encoding frame_id topic hw_device thread_count gop_size bit_rate True nothing = (Inr e, o1, s1)"
      "encode_all answers e s1 = (Inr (), o2, s2)" "destroy_encoder last_answer e s2 = (Inr (), o3, s')" "out = o1 @ o2 @ o3"
    by (auto simp: whole_life_def bindA_Inr_iff thenA_Inr_iff)
  note made = made_encoder [OF st(1)]
  then have cb: "fe_callback e" by simp
  from encoded_frames [OF st(2) [unfolded encode_all_def] cb] have s2: "s2 = s1(R_packet := s1 R_packet + delivered o2)" .
  obtain r o4 s4 where fl: "flush last_answer e s2 = (r, o4, s4)" by (metis prod.exhaust)
  with st(3) have r: "r = Inr ()" by (cases r) (simp_all add: destroy_encoder_def)
  from sent_frame [OF fl [unfolded flush_def r] cb] have s4: "s4 = s2(R_packet := s2 R_packet + delivered o4)" .
  have "o3 = o4" and s': "s' = (if fe_hw e then s4(R_frame := s4 R_frame - 1, R_codec_ctx := s4 R_codec_ctx - 1,
        R_hw_ctx := s4 R_hw_ctx - 1, R_sws := s4 R_sws - 1)
      else s4(R_frame := s4 R_frame - 1, R_codec_ctx := s4 R_codec_ctx - 1, R_sws := s4 R_sws - 1))"
    using st(3) by (simp_all add: destroy_encoder_def fl r free_def thenA_def bindA_def act_defs split: if_splits)
  have "s' x = (nothing(R_packet := delivered out)) x" for x
    unfolding s' s4 s2 using made \<open>o3 = o4\<close> st(4)
    by (cases x) (simp_all add: nothing_def delivered_append)
  then show ?thesis by (rule ext)
qed

definition software :: ffmpeg where
  "software = \<lparr>ff_device = (\<lambda>_. False), ff_hw_ctx = False, ff_by_name = (\<lambda>_. None), ff_h264 = Some 1, ff_context = True,
     ff_open = (\<lambda>_. True), ff_frame = True, ff_buffer = True\<rparr>"

definition one_packet :: ff_answer where
  "one_packet = \<lparr>fa_send = True, fa_packet = True, fa_receive = R_data 1 2 [3], fa_now = 4\<rparr>"

theorem encoder_leaks_packets_witness:
  "snd (snd (whole_life software 4 2 ''rgb8'' ''cam'' ''/c'' ''cpu'' 1 60 9 [one_packet, one_packet] (one_packet\<lparr>fa_receive := R_eof\<rparr>) nothing)) R_packet = 2"
proof -
  let ?life = "whole_life software 4 2 ''rgb8'' ''cam'' ''/c'' ''cpu'' 1 60 9 [one_packet, one_packet] (one_packet\<lparr>fa_receive := R_eof\<rparr>) nothing"
  obtain r out s' where l: "?life = (r, out, s')" by (metis prod.exhaust)
  have "fst ?life = Inr ()" by code_simp
  moreover have "delivered (fst (snd ?life)) = 2" by code_simp
  ultimately have "r = Inr ()" "delivered out = 2" using l by simp_all
  with encoder_leaks_packets [OF l [unfolded \<open>r = Inr ()\<close>]] l show ?thesis by simp
qed

text \<open>A constructor that fails late leaves what it had allocated; an empty picture throws what the caller does not catch
  (\<open>topic_reader_h264.cpp\<close> catches \<open>std::runtime_error\<close>).\<close>

lemma failed_constructor_leaks:
  "snd (snd (make_encoder (software\<lparr>ff_buffer := False\<rparr>) w h enc frame_id topic ''cpu'' t g b True nothing)) R_codec_ctx = 1"
  by (simp add: make_encoder_def Let_def software_def choose_codec_def wants_hardware_def require_def throw_def alloc_def
      thenA_def bindA_def act_defs nothing_def)

lemma empty_picture_uncaught: "encodeFrame a True e s = (Inl Invalid_argument, [], s)"
  by (simp add: encodeFrame_def liftA_def)

end
