(* ===== verification/Client.thy ===== *)
theory Client
  imports Socket
begin

text \<open>
  \<open>sioclient/internal/sio_client_impl.cpp\<close> and \<open>.h\<close>: the connection, its reconnection, the ping
  timer and the table of namespaces. The websocket library is outside: what the client asks of it is
  an effect, what it reports is a call. \<open>asio::dispatch\<close> without an executor runs its function before
  it returns, so a dispatched function is called in place. Joining the network thread is the point
  where the call goes on; what ran before is earlier in the sequence of calls.
\<close>

section \<open>State, effects and environment\<close>

datatype con_state = con_opening | con_opened | con_closing | con_closed

datatype con_listener =
    open_listener | fail_listener | reconnect_listener | disconnect_listener | reconnecting_listener
  | close_listener | socket_open_listener | socket_close_listener

datatype close_reason = close_reason_normal | close_reason_drop

datatype cl_effect =
    Ws_connect string "(string \<times> string) list"
  | Ws_close nat string
  | Ws_send bool string
  | No_session
  | L_open | L_fail | L_reconnect nat nat | L_disconnect | L_reconnecting | L_close close_reason
  | L_socket_open string | L_socket_close string
  | App sk_effect

datatype cl_task = Timeout_ping bool | Timeout_reconnect bool

text \<open>
  What is outside: the JSON text, the parts of a URI, the clock, whether TLS was built in, and whether
  the websocket library accepts a URL, a proxy and its credentials.
\<close>

record sio_env =
  e_jwrite :: "json \<Rightarrow> string"
  e_jparse :: "string \<Rightarrow> json"
  e_host :: "string \<Rightarrow> string"
  e_port :: "string \<Rightarrow> string"
  e_resource :: "string \<Rightarrow> string"
  e_time :: nat
  e_tls :: bool
  e_get_connection :: "string \<Rightarrow> bool"
  e_set_proxy :: "string \<Rightarrow> bool"
  e_set_proxy_auth :: "string \<Rightarrow> string \<Rightarrow> bool"

record client =
  cl_con :: bool
  cl_sid :: string
  cl_base_url :: string
  cl_query_string :: string
  cl_http_headers :: "(string, string) omap"
  cl_auth :: msg_ptr
  cl_proxy_base_url :: string
  cl_proxy_username :: string
  cl_proxy_password :: string
  cl_ping_interval :: "32 word"
  cl_ping_timeout :: "32 word"
  cl_thread :: bool
  cl_partial :: "packet option"
  cl_ping_timer :: "32 word option"
  cl_reconn_timer :: "nat option"
  cl_state :: con_state
  cl_listeners :: "con_listener list"
  cl_sockets :: "(string, socket) omap"
  cl_gid :: "32 word"
  cl_reconn_delay :: nat
  cl_reconn_delay_max :: nat
  cl_reconn_attempts :: nat
  cl_reconn_made :: nat
  cl_abort_retries :: bool
  cl_posted :: "cl_task list"

definition new_client :: client where
  "new_client = \<lparr>cl_con = False, cl_sid = [], cl_base_url = [], cl_query_string = [], cl_http_headers = [],
     cl_auth = None, cl_proxy_base_url = [], cl_proxy_username = [], cl_proxy_password = [],
     cl_ping_interval = 0, cl_ping_timeout = 0, cl_thread = False, cl_partial = None,
     cl_ping_timer = None, cl_reconn_timer = None, cl_state = con_closed, cl_listeners = [],
     cl_sockets = [], cl_gid = 1, cl_reconn_delay = 5000, cl_reconn_delay_max = 25000,
     cl_reconn_attempts = 0xFFFFFFFF, cl_reconn_made = 0, cl_abort_retries = False, cl_posted = []\<rparr>"

type_synonym cl_out = "(cl_effect list \<times> client) res"

definition andThen :: "cl_out \<Rightarrow> (client \<Rightarrow> cl_out) \<Rightarrow> cl_out" where
  "andThen r f = bindR r (\<lambda>(out, c). bindR (f c) (\<lambda>(out', c'). Inr (out @ out', c')))"

definition notify :: "con_listener \<Rightarrow> cl_effect \<Rightarrow> client \<Rightarrow> cl_effect list" where
  "notify l e c = (if l \<in> set (cl_listeners c) then [e] else [])"

section \<open>Setters\<close>

definition set_listener :: "con_listener \<Rightarrow> client \<Rightarrow> client" where
  "set_listener l c = c\<lparr>cl_listeners := l # cl_listeners c\<rparr>"

definition clear_con_listeners :: "client \<Rightarrow> client" where
  "clear_con_listeners c = c\<lparr>cl_listeners :=
     filter (\<lambda>l. l = socket_open_listener \<or> l = socket_close_listener) (cl_listeners c)\<rparr>"

definition clear_socket_listeners :: "client \<Rightarrow> client" where
  "clear_socket_listeners c = c\<lparr>cl_listeners :=
     filter (\<lambda>l. \<not> (l = socket_open_listener \<or> l = socket_close_listener)) (cl_listeners c)\<rparr>"

definition set_reconnect_attempts :: "nat \<Rightarrow> client \<Rightarrow> client" where
  "set_reconnect_attempts attempts c = c\<lparr>cl_reconn_attempts := attempts\<rparr>"

definition set_reconnect_delay :: "nat \<Rightarrow> client \<Rightarrow> client" where
  "set_reconnect_delay millis c =
     c\<lparr>cl_reconn_delay := millis,
       cl_reconn_delay_max := (if cl_reconn_delay_max c < millis then millis else cl_reconn_delay_max c)\<rparr>"

definition set_reconnect_delay_max :: "nat \<Rightarrow> client \<Rightarrow> client" where
  "set_reconnect_delay_max millis c =
     c\<lparr>cl_reconn_delay_max := millis,
       cl_reconn_delay := (if cl_reconn_delay c > millis then millis else cl_reconn_delay c)\<rparr>"

definition set_proxy_basic_auth :: "string \<Rightarrow> string \<Rightarrow> string \<Rightarrow> client \<Rightarrow> client" where
  "set_proxy_basic_auth uri username password c =
     c\<lparr>cl_proxy_base_url := uri, cl_proxy_username := username, cl_proxy_password := password\<rparr>"

section \<open>Query strings and delays\<close>

text \<open>\<open>setw(2)\<close> pads with the stream's fill character, a space.\<close>

definition hex_upper :: "nat \<Rightarrow> char" where
  "hex_upper n = ''0123456789ABCDEF'' ! n"

definition encode_char :: "char \<Rightarrow> string" where
  "encode_char c =
     (let n = of_char c :: nat
      in if (97 \<le> n \<and> n \<le> 122) \<or> (65 \<le> n \<and> n \<le> 90) \<or> (48 \<le> n \<and> n \<le> 57) then [c]
         else ''%'' @ (if n < 16 then ['' '' ! 0, hex_upper n] else [hex_upper (n div 16), hex_upper (n mod 16)]))"

definition encode_query_string :: "string \<Rightarrow> string" where
  "encode_query_string query = concat (map encode_char query)"

text \<open>
  The product \<open>m_reconn_delay * 1.5 ^ n\<close>, cut at the maximum and to an integer. \<open>1.5 ^ n\<close> is exact
  in a double for \<open>n \<le> 32\<close>; the product is taken as exact.
\<close>

definition next_delay :: "client \<Rightarrow> nat" where
  "next_delay c =
     (let n = min (cl_reconn_made c) 32
      in min (cl_reconn_delay c * 3 ^ n div 2 ^ n) (cl_reconn_delay_max c))"

section \<open>Timers\<close>

definition cancel_reconn :: "client \<Rightarrow> client" where
  "cancel_reconn c =
     (case cl_reconn_timer c of None \<Rightarrow> c
      | Some _ \<Rightarrow> c\<lparr>cl_reconn_timer := None, cl_posted := cl_posted c @ [Timeout_reconnect True]\<rparr>)"

definition start_reconn :: "nat \<Rightarrow> client \<Rightarrow> client" where
  "start_reconn delay c = (cancel_reconn c)\<lparr>cl_reconn_timer := Some delay\<rparr>"

definition clear_timers :: "client \<Rightarrow> client" where
  "clear_timers c =
     (case cl_ping_timer c of None \<Rightarrow> c
      | Some _ \<Rightarrow> c\<lparr>cl_ping_timer := None, cl_posted := cl_posted c @ [Timeout_ping True]\<rparr>)"

definition update_ping_timeout_timer :: "client \<Rightarrow> client" where
  "update_ping_timeout_timer c =
     (clear_timers c)\<lparr>cl_ping_timer := Some (cl_ping_interval c + cl_ping_timeout c)\<rparr>"

definition reset_states :: "client \<Rightarrow> client" where
  "reset_states c = c\<lparr>cl_sid := [], cl_partial := pm_reset (cl_partial c)\<rparr>"

section \<open>Sending\<close>

definition send_impl :: "client \<Rightarrow> bool \<times> string \<Rightarrow> cl_effect list" where
  "send_impl c call = (if cl_state c = con_opened then [Ws_send (fst call) (snd call)] else [])"

text \<open>\<open>client_impl::send\<close>: encode, and \<open>on_encode\<close> for every part.\<close>

definition cl_send :: "sio_env \<Rightarrow> packet \<Rightarrow> client \<Rightarrow> cl_effect list res" where
  "cl_send env p c = bindR (pm_encode (e_jwrite env) p) (\<lambda>(_, calls). Inr (concat (map (send_impl c) calls)))"

text \<open>What a socket does to its client.\<close>

fun cl_absorb :: "sio_env \<Rightarrow> sk_effect list \<Rightarrow> client \<Rightarrow> cl_out" where
  "cl_absorb env [] c = Inr ([], c)"
| "cl_absorb env (e # es) c =
     (case e of
        Send p \<Rightarrow> andThen (bindR (cl_send env p c) (\<lambda>out. Inr (out, c))) (cl_absorb env es)
      | Socket_opened n \<Rightarrow> andThen (Inr (notify socket_open_listener (L_socket_open n) c, c)) (cl_absorb env es)
      | Socket_closed n \<Rightarrow> andThen (Inr (notify socket_close_listener (L_socket_close n) c, c)) (cl_absorb env es)
      | Remove_socket n \<Rightarrow> cl_absorb env es (c\<lparr>cl_sockets := mdel n (cl_sockets c)\<rparr>)
      | _ \<Rightarrow> andThen (Inr ([App e], c)) (cl_absorb env es))"

definition on_socket :: "sio_env \<Rightarrow> (socket \<Rightarrow> sk_effect list \<times> socket) \<Rightarrow> string \<Rightarrow> client \<Rightarrow> cl_out" where
  "on_socket env fn nsp c =
     (case map_of (cl_sockets c) nsp of None \<Rightarrow> Inr ([], c)
      | Some s \<Rightarrow> let (out, s') = fn s in cl_absorb env out (c\<lparr>cl_sockets := mput nsp s' (cl_sockets c)\<rparr>))"

fun invoke_all :: "sio_env \<Rightarrow> (socket \<Rightarrow> sk_effect list \<times> socket) \<Rightarrow> string list \<Rightarrow> client \<Rightarrow> cl_out" where
  "invoke_all env fn [] c = Inr ([], c)"
| "invoke_all env fn (n # ns) c = andThen (on_socket env fn n c) (invoke_all env fn ns)"

definition sockets_invoke_void :: "sio_env \<Rightarrow> (socket \<Rightarrow> sk_effect list \<times> socket) \<Rightarrow> client \<Rightarrow> cl_out" where
  "sockets_invoke_void env fn c = invoke_all env fn (map fst (cl_sockets c)) c"

text \<open>\<open>client_impl::socket\<close>: the name is completed with a slash; a new socket connects if we are connected.\<close>

definition socket_name :: "string \<Rightarrow> string" where
  "socket_name nsp = (if nsp = [] then ''/'' else if hd nsp \<noteq> CHR ''/'' then ''/'' @ nsp else nsp)"

definition cl_socket :: "sio_env \<Rightarrow> string \<Rightarrow> client \<Rightarrow> cl_out" where
  "cl_socket env nsp c =
     (let aux = socket_name nsp
      in if mhas (cl_sockets c) aux then Inr ([], c)
         else let (out, s) = new_socket True (cl_state c = con_opened) aux (cl_auth c)
              in cl_absorb env out (c\<lparr>cl_sockets := memplace aux s (cl_sockets c)\<rparr>))"

section \<open>Opening and closing\<close>

definition connect_url :: "sio_env \<Rightarrow> string \<Rightarrow> string \<Rightarrow> client \<Rightarrow> string" where
  "connect_url env uri query c =
     (let host = e_host env uri;
          path = (if e_resource env uri = ''/'' then ''/socket.io/'' else e_resource env uri)
      in (if e_tls env then ''wss://'' else ''ws://'') @
         (if CHR '':'' \<in> set host then ''['' @ host @ '']'' else host) @
         '':'' @ e_port env uri @ path @ ''?EIO=4&transport=websocket'' @
         (if cl_sid c \<noteq> [] then ''&sid='' @ cl_sid c else []) @
         ''&t='' @ show_nat (e_time env) @ query)"

definition connect_impl :: "sio_env \<Rightarrow> string \<Rightarrow> string \<Rightarrow> client \<Rightarrow> cl_effect list" where
  "connect_impl env uri query c =
     (let url = connect_url env uri query c
      in if e_get_connection env url \<and>
            (cl_proxy_base_url c = [] \<or>
             (e_set_proxy env (cl_proxy_base_url c) \<and>
              (cl_proxy_username c = [] \<or> e_set_proxy_auth env (cl_proxy_username c) (cl_proxy_password c))))
         then [Ws_connect url (cl_http_headers c)]
         else notify fail_listener L_fail c)"

definition close_impl :: "nat \<Rightarrow> string \<Rightarrow> client \<Rightarrow> cl_effect list \<times> client" where
  "close_impl code reason c =
     (if cl_con c then [Ws_close code reason] else [No_session], cancel_reconn c)"

definition query_text :: "(string, string) omap \<Rightarrow> string" where
  "query_text query = concat (map (\<lambda>(k, v). ''&'' @ k @ ''='' @ encode_query_string v) query)"

definition cl_connect ::
  "sio_env \<Rightarrow> string \<Rightarrow> (string, string) omap \<Rightarrow> (string, string) omap \<Rightarrow> msg_ptr \<Rightarrow> client \<Rightarrow> cl_effect list \<times> client" where
  "cl_connect env uri query headers auth c =
     (let c = cancel_reconn c
      in if cl_thread c \<and> cl_state c \<noteq> con_closing \<and> cl_state c \<noteq> con_closed then ([], c)
         else let c = reset_states (c\<lparr>cl_state := con_opening, cl_base_url := uri, cl_reconn_made := 0,
                        cl_query_string := query_text query, cl_http_headers := headers, cl_auth := auth\<rparr>);
                  c = c\<lparr>cl_abort_retries := False\<rparr>
              in (connect_impl env uri (cl_query_string c) c, c\<lparr>cl_thread := True\<rparr>))"

definition cl_close :: "sio_env \<Rightarrow> client \<Rightarrow> cl_out" where
  "cl_close env c =
     andThen (sockets_invoke_void env sk_close (c\<lparr>cl_state := con_closing, cl_abort_retries := True\<rparr>))
       (\<lambda>c. Inr (close_impl 1000 ''End by user'' c))"

definition sync_close :: "sio_env \<Rightarrow> client \<Rightarrow> cl_out" where
  "sync_close env c = andThen (cl_close env c) (\<lambda>c. Inr ([], c\<lparr>cl_thread := False\<rparr>))"

definition destroy_client :: "sio_env \<Rightarrow> client \<Rightarrow> cl_out" where
  "destroy_client env c = andThen (sockets_invoke_void env sk_on_close c) (sync_close env)"

text \<open>Scheduling the next attempt, common to a failed and a dropped connection.\<close>

definition may_reconnect :: "client \<Rightarrow> bool" where
  "may_reconnect c = (cl_reconn_made c < cl_reconn_attempts c \<and> \<not> cl_abort_retries c)"

definition schedule_reconnect :: "client \<Rightarrow> cl_out" where
  "schedule_reconnect c =
     Inr (notify reconnect_listener (L_reconnect (cl_reconn_made c) (next_delay c)) c, start_reconn (next_delay c) c)"

definition cl_on_fail :: "sio_env \<Rightarrow> client \<Rightarrow> cl_out" where
  "cl_on_fail env c =
     (if cl_state c = con_closing then cl_close env c
      else andThen (sockets_invoke_void env sk_on_disconnect (c\<lparr>cl_con := False, cl_state := con_closed\<rparr>))
        (\<lambda>c. if may_reconnect c then schedule_reconnect c
             else Inr (notify fail_listener L_fail c, c)))"

definition cl_on_open :: "sio_env \<Rightarrow> client \<Rightarrow> cl_out" where
  "cl_on_open env c =
     (if cl_state c = con_closing then cl_close env c
      else andThen (sockets_invoke_void env sk_on_open (c\<lparr>cl_state := con_opened, cl_con := True, cl_reconn_made := 0\<rparr>))
        (\<lambda>c. andThen (cl_socket env [] c) (\<lambda>c. Inr (notify open_listener L_open c, c))))"

text \<open>\<open>code\<close>: the local close code of the connection, if the library still has it.\<close>

definition cl_on_close :: "sio_env \<Rightarrow> nat option \<Rightarrow> client \<Rightarrow> cl_out" where
  "cl_on_close env local_code c =
     (let was = cl_state c;
          code = (case local_code of None \<Rightarrow> 1000 | Some n \<Rightarrow> n);
          c = clear_timers (c\<lparr>cl_state := con_closed, cl_con := False\<rparr>)
      in andThen (Inr (notify disconnect_listener L_disconnect c, c)) (\<lambda>c.
         andThen (sockets_invoke_void env sk_on_disconnect c) (\<lambda>c.
           if code = 1000 \<or> was = con_closing
           then Inr (notify close_listener (L_close close_reason_normal) c, c)
           else if may_reconnect c then schedule_reconnect c
           else Inr (notify close_listener (L_close close_reason_drop) c, c))))"

definition timeout_ping :: "bool \<Rightarrow> client \<Rightarrow> cl_effect list \<times> client" where
  "timeout_ping ec c = (if ec then ([], c) else close_impl 1008 ''Ping timeout'' c)"

text \<open>\<open>m_reconn_made\<close> is an \<open>unsigned\<close>.\<close>

definition timeout_reconnect :: "sio_env \<Rightarrow> bool \<Rightarrow> client \<Rightarrow> cl_effect list \<times> client" where
  "timeout_reconnect env ec c =
     (if \<not> ec \<and> cl_state c = con_closed
      then let c = reset_states (c\<lparr>cl_state := con_opening, cl_reconn_made := (cl_reconn_made c + 1) mod 2 ^ 32\<rparr>)
           in (notify reconnecting_listener L_reconnecting c @ connect_impl env (cl_base_url c) (cl_query_string c) c, c)
      else ([], c))"

section \<open>What the server sends\<close>

text \<open>The \<open>sid\<close> member, read as a string without testing the flag.\<close>

definition sid_of :: "(string, msg_ptr) omap \<Rightarrow> string option res" where
  "sid_of values =
     (case map_of values ''sid'' of None \<Rightarrow> Inr None
      | Some p \<Rightarrow> bindR (deref p) (\<lambda>m. bindR (get_string m) (\<lambda>s. Inr (Some s))))"

text \<open>An integer member, cast to \<open>unsigned\<close>, or the default.\<close>

definition unsigned_of :: "(string, msg_ptr) omap \<Rightarrow> string \<Rightarrow> 32 word \<Rightarrow> 32 word res" where
  "unsigned_of values key dflt =
     (case map_of values key of None \<Rightarrow> Inr dflt
      | Some p \<Rightarrow> bindR (deref p) (\<lambda>m. Inr (case m of Int_msg v \<Rightarrow> ucast v | _ \<Rightarrow> dflt)))"

definition handshake_failed :: "client \<Rightarrow> cl_out" where
  "handshake_failed c = Inr (close_impl 1008 ''Handshake error'' c)"

definition on_handshake :: "msg_ptr \<Rightarrow> client \<Rightarrow> cl_out" where
  "on_handshake message c =
     (case message of
        Some (Object_msg values) \<Rightarrow>
          bindR (sid_of values) (\<lambda>sid.
            case sid of None \<Rightarrow> handshake_failed c
            | Some sid \<Rightarrow>
                bindR (unsigned_of values ''pingInterval'' 25000) (\<lambda>interval.
                bindR (unsigned_of values ''pingTimeout'' 60000) (\<lambda>timeout.
                  Inr ([], update_ping_timeout_timer
                         (c\<lparr>cl_sid := sid, cl_ping_interval := interval, cl_ping_timeout := timeout\<rparr>)))))
      | _ \<Rightarrow> handshake_failed c)"

text \<open>The pong is sent past \<open>send_impl\<close>; the library throws if there is no connection.\<close>

definition on_ping :: "sio_env \<Rightarrow> client \<Rightarrow> cl_out" where
  "on_ping env c =
     bindR (pm_encode (e_jwrite env) (frame_packet frame_pong)) (\<lambda>(_, calls).
       if cl_con c then Inr (map (\<lambda>(_, payload). Ws_send False payload) calls, update_ping_timeout_timer c)
       else Inl (Runtime_error ''Bad Connection''))"

text \<open>A connect packet also carries the session id.\<close>

definition sync_sid :: "packet \<Rightarrow> client \<Rightarrow> client res" where
  "sync_sid p c =
     bindR (get_type p) (\<lambda>t.
       if t = type_connect then
         (case pk_message p of
            Some (Object_msg values) \<Rightarrow>
              bindR (sid_of values) (\<lambda>sid. Inr (case sid of None \<Rightarrow> c | Some i \<Rightarrow> c\<lparr>cl_sid := i\<rparr>))
          | _ \<Rightarrow> Inr c)
       else Inr c)"

definition on_decode :: "sio_env \<Rightarrow> packet \<Rightarrow> client \<Rightarrow> cl_out" where
  "on_decode env p c =
     (if pk_frame p = frame_message then
        bindR (sync_sid p c) (\<lambda>c.
          case map_of (cl_sockets c) (pk_nsp p) of None \<Rightarrow> Inr ([], c)
          | Some s \<Rightarrow> bindR (on_message_packet p s) (\<lambda>(out, s').
              cl_absorb env out (c\<lparr>cl_sockets := mput (pk_nsp p) s' (cl_sockets c)\<rparr>)))
      else if pk_frame p = frame_open then on_handshake (pk_message p) c
      else if pk_frame p = frame_close then Inr (close_impl 1006 ''End by server'' c)
      else if pk_frame p = frame_ping then on_ping env c
      else Inr ([], c))"

definition cl_on_message :: "sio_env \<Rightarrow> string \<Rightarrow> client \<Rightarrow> cl_out" where
  "cl_on_message env payload c =
     bindR (put_payload (e_jparse env) payload (cl_partial c)) (\<lambda>(partial, decoded).
       let c = c\<lparr>cl_partial := partial\<rparr>
       in case decoded of None \<Rightarrow> Inr ([], c) | Some p \<Rightarrow> on_decode env p c)"

section \<open>The client as a machine\<close>

datatype cl_call =
    Cl_connect string "(string, string) omap" "(string, string) omap" msg_ptr
  | Cl_close | Cl_sync_close
  | Cl_socket string
  | Cl_sock string sk_call
  | Cl_on_fail | Cl_on_open | Cl_on_close "nat option"
  | Cl_message string
  | Cl_reconn_expires | Cl_ping_expires
  | Cl_run_handler

definition reconn_expires :: "client \<Rightarrow> client" where
  "reconn_expires c =
     (case cl_reconn_timer c of None \<Rightarrow> c
      | Some _ \<Rightarrow> c\<lparr>cl_reconn_timer := None, cl_posted := cl_posted c @ [Timeout_reconnect False]\<rparr>)"

definition ping_expires :: "client \<Rightarrow> client" where
  "ping_expires c =
     (case cl_ping_timer c of None \<Rightarrow> c
      | Some _ \<Rightarrow> c\<lparr>cl_ping_timer := None, cl_posted := cl_posted c @ [Timeout_ping False]\<rparr>)"

definition cl_run_handler :: "sio_env \<Rightarrow> client \<Rightarrow> cl_effect list \<times> client" where
  "cl_run_handler env c =
     (case cl_posted c of [] \<Rightarrow> ([], c)
      | t # rest \<Rightarrow> let c = c\<lparr>cl_posted := rest\<rparr>
          in (case t of Timeout_ping ec \<Rightarrow> timeout_ping ec c | Timeout_reconnect ec \<Rightarrow> timeout_reconnect env ec c))"

text \<open>A call on one of the sockets; the static event counter is shared by all of them.\<close>

definition on_sock_call :: "sio_env \<Rightarrow> string \<Rightarrow> sk_call \<Rightarrow> client \<Rightarrow> cl_out" where
  "on_sock_call env nsp call c =
     (case map_of (cl_sockets c) nsp of None \<Rightarrow> Inr ([], c)
      | Some s \<Rightarrow> bindR (sk_step call (cl_gid c, s)) (\<lambda>(out, g, s').
          cl_absorb env out (c\<lparr>cl_gid := g, cl_sockets := mput nsp s' (cl_sockets c)\<rparr>)))"

fun cl_step :: "sio_env \<Rightarrow> cl_call \<Rightarrow> client \<Rightarrow> cl_out" where
  "cl_step env (Cl_connect uri q h a) c = Inr (cl_connect env uri q h a c)"
| "cl_step env Cl_close c = cl_close env c"
| "cl_step env Cl_sync_close c = sync_close env c"
| "cl_step env (Cl_socket nsp) c = cl_socket env nsp c"
| "cl_step env (Cl_sock nsp call) c = on_sock_call env nsp call c"
| "cl_step env Cl_on_fail c = cl_on_fail env c"
| "cl_step env Cl_on_open c = cl_on_open env c"
| "cl_step env (Cl_on_close code) c = cl_on_close env code c"
| "cl_step env (Cl_message payload) c = cl_on_message env payload c"
| "cl_step env Cl_reconn_expires c = Inr ([], reconn_expires c)"
| "cl_step env Cl_ping_expires c = Inr ([], ping_expires c)"
| "cl_step env Cl_run_handler c = Inr (cl_run_handler env c)"

section \<open>Nothing but \<open>connect\<close> ends a close\<close>

text \<open>
  The fields the reconnection depends on. After a close they say that no attempt is begun any more: retries
  are aborted and no timer runs. A handler whose timer had expired before is still due.
\<close>

definition no_retry :: "client \<Rightarrow> bool" where
  "no_retry c = (cl_abort_retries c \<and> cl_reconn_timer c = None)"

definition due :: "client \<Rightarrow> nat" where
  "due c = length (filter (\<lambda>t. t = Timeout_reconnect False) (cl_posted c))"

definition connects :: "cl_effect list \<Rightarrow> nat" where
  "connects out = length (filter (\<lambda>e. case e of Ws_connect _ _ \<Rightarrow> True | _ \<Rightarrow> False) out)"

lemma connects_simps [simp]:
  "connects [] = 0" "connects (xs @ ys) = connects xs + connects ys"
  "connects (Ws_connect u h # xs) = Suc (connects xs)" "connects (Ws_close n r # xs) = connects xs"
  "connects (Ws_send b p # xs) = connects xs" "connects (No_session # xs) = connects xs"
  "connects (L_open # xs) = connects xs" "connects (L_fail # xs) = connects xs"
  "connects (L_reconnect m d # xs) = connects xs" "connects (L_disconnect # xs) = connects xs"
  "connects (L_reconnecting # xs) = connects xs" "connects (L_close why # xs) = connects xs"
  "connects (L_socket_open ns # xs) = connects xs" "connects (L_socket_close ns # xs) = connects xs"
  "connects (App x # xs) = connects xs"
  by (simp_all add: connects_def)

text \<open>
  A quiet operation opens no connection and leaves alone what the reconnection depends on.
\<close>

definition same_retry :: "client \<Rightarrow> client \<Rightarrow> bool" where
  "same_retry c c' = (cl_abort_retries c' = cl_abort_retries c \<and> cl_reconn_timer c' = cl_reconn_timer c \<and>
     cl_posted c' = cl_posted c \<and> cl_state c' = cl_state c)"

definition quiet :: "client \<Rightarrow> cl_out \<Rightarrow> bool" where
  "quiet c r = (\<forall>out c'. r = Inr (out, c') \<longrightarrow> connects out = 0 \<and> same_retry c c')"

lemma andThen_InrE:
  assumes "andThen r f = Inr (out, c'')"
  obtains out1 c' out2 where "r = Inr (out1, c')" "f c' = Inr (out2, c'')" "out = out1 @ out2"
  using assms by (auto simp: andThen_def res_simps)

lemma quiet_Inr: "connects out = 0 \<Longrightarrow> same_retry c c' \<Longrightarrow> quiet c (Inr (out, c'))"
  by (simp add: quiet_def)

lemma quiet_andThen:
  assumes "quiet c r" "\<And>c'. same_retry c c' \<Longrightarrow> quiet c' (f c')"
  shows "quiet c (andThen r f)"
  unfolding quiet_def
proof (intro allI impI)
  fix out c'' assume "andThen r f = Inr (out, c'')"
  then obtain out1 c' out2 where st: "r = Inr (out1, c')" "f c' = Inr (out2, c'')" "out = out1 @ out2"
    by (rule andThen_InrE)
  from assms(1) st(1) have a: "connects out1 = 0" "same_retry c c'" by (auto simp: quiet_def)
  from assms(2) [OF a(2)] st(2) have "connects out2 = 0" "same_retry c' c''" by (auto simp: quiet_def)
  with a st(3) show "connects out = 0 \<and> same_retry c c''" by (simp add: same_retry_def)
qed

lemma same_retry_refl [simp]: "same_retry c c"
  by (simp add: same_retry_def)

lemma same_retry_sockets [simp]: "same_retry c (c'\<lparr>cl_sockets := x\<rparr>) = same_retry c c'"
  "same_retry (c'\<lparr>cl_sockets := x\<rparr>) c = same_retry c' c"
  "same_retry c (c'\<lparr>cl_gid := y\<rparr>) = same_retry c c'" "same_retry (c'\<lparr>cl_gid := y\<rparr>) c = same_retry c' c"
  by (simp_all add: same_retry_def)

lemma quiet_cong: "same_retry c d \<Longrightarrow> quiet d r \<Longrightarrow> quiet c r"
  by (force simp: quiet_def same_retry_def)

lemma notify_connects [simp]: "connects (notify l L_open c) = 0" "connects (notify l L_fail c) = 0"
  "connects (notify l (L_reconnect a b) c) = 0" "connects (notify l L_disconnect c) = 0"
  "connects (notify l L_reconnecting c) = 0" "connects (notify l (L_close r) c) = 0"
  "connects (notify l (L_socket_open n) c) = 0" "connects (notify l (L_socket_close n) c) = 0"
  by (simp_all add: notify_def)

lemma connects_sends: "connects (concat (map (send_impl c) calls)) = 0"
  by (induction calls) (simp_all add: send_impl_def)

lemma cl_send_quiet: "quiet c (bindR (cl_send env p c) (\<lambda>out. Inr (out, c)))"
  by (auto simp: quiet_def cl_send_def res_simps connects_sends)

lemma cl_absorb_quiet: "quiet c (cl_absorb env es c)"
proof (induction es arbitrary: c)
  case Nil
  then show ?case by (simp add: quiet_def)
next
  case (Cons e es)
  show ?case
  proof (cases e)
    case (Send p)
    then show ?thesis using Cons.IH by (simp add: quiet_andThen cl_send_quiet)
  next
    case (Remove_socket n)
    have "quiet c (cl_absorb env es (c\<lparr>cl_sockets := mdel n (cl_sockets c)\<rparr>))"
      by (rule quiet_cong [OF _ Cons.IH]) simp
    then show ?thesis using Remove_socket by simp
  qed (use Cons.IH in \<open>auto intro!: quiet_andThen quiet_Inr\<close>)
qed

lemma on_socket_quiet: "quiet c (on_socket env fn n c)"
proof (cases "map_of (cl_sockets c) n")
  case None
  then show ?thesis by (simp add: on_socket_def quiet_def)
next
  case (Some s)
  obtain out s' where f: "fn s = (out, s')" by (cases "fn s")
  have "quiet c (cl_absorb env out (c\<lparr>cl_sockets := mput n s' (cl_sockets c)\<rparr>))"
    by (rule quiet_cong [OF _ cl_absorb_quiet]) simp
  then show ?thesis by (simp add: on_socket_def Some f)
qed

lemma sockets_invoke_quiet: "quiet c (sockets_invoke_void env fn c)"
proof -
  have "quiet d (invoke_all env fn ns d)" for ns d
    by (induction ns arbitrary: d) (simp_all add: quiet_andThen on_socket_quiet quiet_Inr)
  then show ?thesis by (simp add: sockets_invoke_void_def)
qed

lemma no_retry_same: "same_retry c c' \<Longrightarrow> no_retry c \<Longrightarrow> no_retry c'"
  by (simp add: no_retry_def same_retry_def)

lemma quietD: "quiet c r \<Longrightarrow> r = Inr (out, c') \<Longrightarrow> connects out = 0 \<and> same_retry c c'"
  by (simp add: quiet_def)

lemma due_same: "same_retry c c' \<Longrightarrow> due c' = due c"
  by (simp add: due_def same_retry_def)

text \<open>Every connection opened uses up one of \<open>n\<close> due handlers.\<close>

definition shut :: "nat \<Rightarrow> cl_out \<Rightarrow> bool" where
  "shut n r = (\<forall>out c'. r = Inr (out, c') \<longrightarrow> connects out + due c' \<le> n \<and> no_retry c')"

lemma shut_Inr: "connects out + due c' \<le> n \<Longrightarrow> no_retry c' \<Longrightarrow> shut n (Inr (out, c'))"
  by (simp add: shut_def)

lemma shut_quiet: "quiet c r \<Longrightarrow> no_retry c \<Longrightarrow> due c \<le> n \<Longrightarrow> shut n r"
  using no_retry_same due_same by (auto simp: quiet_def shut_def)

lemma shut_andThen:
  assumes "shut n r" "\<And>c. no_retry c \<Longrightarrow> shut (due c) (f c)"
  shows "shut n (andThen r f)"
  unfolding shut_def
proof (intro allI impI)
  fix out c'' assume "andThen r f = Inr (out, c'')"
  then obtain out1 c' out2 where st: "r = Inr (out1, c')" "f c' = Inr (out2, c'')" "out = out1 @ out2"
    by (rule andThen_InrE)
  from assms(1) st(1) have 1: "connects out1 + due c' \<le> n" "no_retry c'" by (auto simp: shut_def)
  from assms(2) [OF 1(2)] st(2) have "connects out2 + due c'' \<le> due c'" "no_retry c''" by (auto simp: shut_def)
  with 1(1) st(3) show "connects out + due c'' \<le> n \<and> no_retry c''" by simp
qed

lemma shut_bindR: "(\<And>x. r = Inr x \<Longrightarrow> shut n (f x)) \<Longrightarrow> shut n (bindR r f)"
  by (cases r) (auto simp: shut_def)

lemma shut_mono: "shut m r \<Longrightarrow> m \<le> n \<Longrightarrow> shut n r"
  by (auto simp: shut_def)

lemma due_timers [simp]: "due (cancel_reconn c) = due c" "due (clear_timers c) = due c"
  "due (ping_expires c) = due c" "due (update_ping_timeout_timer c) = due c" "no_retry c \<Longrightarrow> due (reconn_expires c) = due c"
  by (auto simp: due_def cancel_reconn_def clear_timers_def ping_expires_def reconn_expires_def no_retry_def
      update_ping_timeout_timer_def split: option.splits)

lemma due_fields [simp]:
  "due (c\<lparr>cl_con := a\<rparr>) = due c" "due (c\<lparr>cl_state := st\<rparr>) = due c" "due (c\<lparr>cl_abort_retries := a\<rparr>) = due c"
  "due (c\<lparr>cl_thread := a\<rparr>) = due c" "due (c\<lparr>cl_partial := pa\<rparr>) = due c"
  "due (c\<lparr>cl_reconn_made := m\<rparr>) = due c" "due (c\<lparr>cl_sid := t\<rparr>) = due c"
  "due (c\<lparr>cl_sockets := so\<rparr>) = due c" "due (c\<lparr>cl_gid := g\<rparr>) = due c"
  "due (c\<lparr>cl_ping_interval := i\<rparr>) = due c" "due (c\<lparr>cl_ping_timeout := i\<rparr>) = due c"
  by (simp_all add: due_def)

lemma no_retry_timers [simp]: "no_retry c \<Longrightarrow> no_retry (cancel_reconn c)" "no_retry c \<Longrightarrow> no_retry (clear_timers c)"
  "no_retry c \<Longrightarrow> no_retry (ping_expires c)" "no_retry c \<Longrightarrow> no_retry (reconn_expires c)"
  "no_retry c \<Longrightarrow> no_retry (update_ping_timeout_timer c)"
  by (auto simp: no_retry_def cancel_reconn_def clear_timers_def ping_expires_def reconn_expires_def
      update_ping_timeout_timer_def split: option.splits)

lemma no_retry_fields [simp]:
  "no_retry (c\<lparr>cl_con := a\<rparr>) = no_retry c" "no_retry (c\<lparr>cl_state := st\<rparr>) = no_retry c"
  "no_retry (c\<lparr>cl_thread := a\<rparr>) = no_retry c" "no_retry (c\<lparr>cl_partial := pa\<rparr>) = no_retry c"
  "no_retry (c\<lparr>cl_reconn_made := m\<rparr>) = no_retry c" "no_retry (c\<lparr>cl_sid := t\<rparr>) = no_retry c"
  "no_retry (c\<lparr>cl_sockets := so\<rparr>) = no_retry c" "no_retry (c\<lparr>cl_gid := g\<rparr>) = no_retry c"
  "no_retry (c\<lparr>cl_ping_interval := i\<rparr>) = no_retry c" "no_retry (c\<lparr>cl_ping_timeout := i\<rparr>) = no_retry c"
  by (simp_all add: no_retry_def)

lemma no_retry_made: "no_retry c \<Longrightarrow> \<not> may_reconnect c"
  by (simp add: no_retry_def may_reconnect_def)

lemma close_impl_shut: "no_retry c \<Longrightarrow> shut (due c) (Inr (close_impl n r c))"
  by (simp add: close_impl_def shut_Inr)

lemma cl_socket_quiet: "quiet c (cl_socket env nsp c)"
  by (auto simp: cl_socket_def Let_def quiet_Inr intro: quiet_cong [OF _ cl_absorb_quiet] split: prod.splits)

lemma cl_close_shut: "no_retry c \<Longrightarrow> shut (due c) (cl_close env c)"
proof -
  assume "no_retry c"
  then have "no_retry (c\<lparr>cl_state := con_closing, cl_abort_retries := True\<rparr>)" by (simp add: no_retry_def)
  from shut_quiet [OF sockets_invoke_quiet this] have
    "shut (due c) (sockets_invoke_void env sk_close (c\<lparr>cl_state := con_closing, cl_abort_retries := True\<rparr>))" by simp
  then show ?thesis unfolding cl_close_def by (intro shut_andThen) (auto intro: close_impl_shut)
qed

lemma on_decode_shut: "no_retry c \<Longrightarrow> shut (due c) (on_decode env p c)"
proof -
  assume nr: "no_retry c"
  have hf: "shut (due c) (handshake_failed c)" using nr by (simp add: handshake_failed_def close_impl_shut)
  have h: "shut (due c) (on_handshake m c)" for m
    using hf nr
    by (auto simp: on_handshake_def intro!: shut_bindR shut_Inr split: option.splits message.splits)
  have p: "shut (due c) (on_ping env c)"
    using nr by (auto simp: on_ping_def shut_def res_simps pm_encode_def connects_def split: if_splits)
  have s: "no_retry c' \<and> due c' = due c" if "sync_sid p c = Inr c'" for c'
    using that nr by (auto simp: sync_sid_def res_simps split: if_splits option.split_asm message.split_asm)
  have a: "shut (due c') (cl_absorb env out (c'\<lparr>cl_sockets := so\<rparr>))" if "no_retry c'" for out c' so
    using that by (intro shut_quiet [OF cl_absorb_quiet]) simp_all
  have g: "shut (due c) (case map_of (cl_sockets c') n of None \<Rightarrow> Inr ([], c')
      | Some s \<Rightarrow> bindR (on_message_packet p s) (\<lambda>(out, s').
          cl_absorb env out (c'\<lparr>cl_sockets := mput n s' (cl_sockets c')\<rparr>)))" if "no_retry c'" "due c' = due c" for c' n
    using that(1) a [OF that(1), unfolded that(2)] that(2) by (auto intro!: shut_Inr shut_bindR split: option.splits)
  show ?thesis
    unfolding on_decode_def using h p s g nr close_impl_shut
    by (auto intro!: shut_bindR shut_Inr)
qed

definition is_connect :: "cl_call \<Rightarrow> bool" where
  "is_connect c = (case c of Cl_connect _ _ _ _ \<Rightarrow> True | _ \<Rightarrow> False)"

lemma cl_step_shut:
  assumes nr: "no_retry c" and k: "\<not> is_connect call"
  shows "shut (due c) (cl_step env call c)"
proof (cases call)
  case Cl_sync_close
  then show ?thesis using cl_close_shut [OF nr]
    by (auto simp: sync_close_def intro!: shut_andThen shut_Inr)
next
  case (Cl_sock nsp k)
  show ?thesis
  proof (cases "map_of (cl_sockets c) nsp")
    case None
    then show ?thesis using nr by (simp add: Cl_sock on_sock_call_def shut_Inr)
  next
    case (Some s)
    then show ?thesis using nr
      by (auto simp: Cl_sock on_sock_call_def intro!: shut_bindR shut_quiet [OF cl_absorb_quiet])
  qed
next
  case Cl_on_fail
  have "shut (due c') (if may_reconnect c' then schedule_reconnect c' else Inr (notify fail_listener L_fail c', c'))"
    if "no_retry c'" for c'
    using that no_retry_made by (simp add: shut_Inr)
  then show ?thesis using nr cl_close_shut [OF nr]
    by (auto simp: Cl_on_fail cl_on_fail_def intro!: shut_andThen shut_quiet [OF sockets_invoke_quiet])
next
  case Cl_on_open
  then show ?thesis using nr cl_close_shut [OF nr]
    by (auto simp: cl_on_open_def intro!: shut_andThen shut_quiet [OF sockets_invoke_quiet] shut_quiet [OF cl_socket_quiet] shut_Inr)
next
  case (Cl_on_close code)
  have "shut (due c') (if b then Inr (notify close_listener (L_close close_reason_normal) c', c')
      else if may_reconnect c' then schedule_reconnect c'
      else Inr (notify close_listener (L_close close_reason_drop) c', c'))" if "no_retry c'" for c' b
    using that no_retry_made by (simp add: shut_Inr)
  then show ?thesis using nr
    by (auto simp: Cl_on_close cl_on_close_def Let_def simp del: if_split intro!: shut_andThen shut_quiet [OF sockets_invoke_quiet] shut_Inr)
next
  case (Cl_message payload)
  have "no_retry c' \<Longrightarrow> due c' \<le> due c \<Longrightarrow> shut (due c) (on_decode env p c')" for p c'
    by (rule shut_mono [OF on_decode_shut])
  with Cl_message nr show ?thesis
    by (auto simp: cl_on_message_def Let_def intro!: shut_bindR shut_Inr split: option.splits)
next
  case Cl_run_handler
  show ?thesis
  proof (cases "cl_posted c")
    case Nil
    then show ?thesis using nr by (simp add: Cl_run_handler cl_run_handler_def shut_Inr)
  next
    case (Cons t rest)
    let ?c = "c\<lparr>cl_posted := rest\<rparr>"
    have n: "no_retry ?c" using nr by (simp add: no_retry_def)
    have d: "due c = (if t = Timeout_reconnect False then Suc (due ?c) else due ?c)" by (simp add: due_def Cons)
    have one: "connects (connect_impl env u q d) \<le> 1" for u q d by (simp add: connect_impl_def Let_def)
    show ?thesis
    proof (cases t)
      case (Timeout_ping ec)
      with n d show ?thesis using close_impl_shut [OF n]
        by (auto simp: Cl_run_handler cl_run_handler_def Cons timeout_ping_def Let_def intro: shut_Inr)
    next
      case (Timeout_reconnect ec)
      with n d one show ?thesis
        by (auto simp: Cl_run_handler cl_run_handler_def Cons timeout_reconnect_def reset_states_def Let_def intro!: shut_Inr)
    qed
  qed
qed (use nr k cl_close_shut in \<open>auto simp: is_connect_def intro: shut_Inr shut_quiet [OF cl_socket_quiet]\<close>)

lemma restricted_shut: "no_retry c \<Longrightarrow> shut (due c) (restrict_calls (\<lambda>k. \<not> is_connect k) (cl_step env) k c)"
  by (cases "is_connect k") (simp_all add: restrict_calls_def cl_step_shut shut_Inr)

interpretation cl_shut: budget_machine "restrict_calls (\<lambda>k. \<not> is_connect k) (cl_step env)" no_retry connects
  due "\<lambda>_. 0" for env
proof
  fix c k out c'
  assume a: "no_retry c" "restrict_calls (\<lambda>k. \<not> is_connect k) (cl_step env) k c = Inr (out, c')"
  have "connects out + due c' \<le> due c \<and> no_retry c'"
    using restricted_shut [OF a(1), of env k] unfolding a(2) shut_def by blast
  then show "no_retry c'" "connects out + due c' \<le> due c + 0" by auto
qed simp_all

text \<open>C14. After \<open>close\<close> the client opens at most as many connections as handlers of the reconnection timer were due
  when it was called, so none if none was, in whatever order the websocket library then reports failures, openings and
  closings, messages arrive and timers expire, until \<open>connect\<close> is called. A due handler does not test the abort
  flag.\<close>

theorem no_reconnect_after_close:
  assumes "cl_close env c = Inr (out, c1)"
    and "run_calls (cl_step env) cs c1 = Inr (out', c2)" "list_all (\<lambda>k. \<not> is_connect k) cs"
  shows "connects (out @ out') \<le> due c"
proof -
  let ?c = "c\<lparr>cl_state := con_closing, cl_abort_retries := True\<rparr>"
  from assms(1) obtain o1 c' o2 where s: "sockets_invoke_void env sk_close ?c = Inr (o1, c')"
    and c2: "Inr (close_impl 1000 ''End by user'' c') = (Inr (o2, c1) :: cl_out)" and o: "out = o1 @ o2"
    unfolding cl_close_def by (rule andThen_InrE)
  from c2 o have c1: "out = o1 @ fst (close_impl 1000 ''End by user'' c')" "c1 = snd (close_impl 1000 ''End by user'' c')"
    by simp_all
  from quietD [OF sockets_invoke_quiet s] have q: "connects o1 = 0" "same_retry ?c c'" by auto
  have n: "no_retry c1" using q(2) c1(2)
    by (auto simp: close_impl_def no_retry_def same_retry_def cancel_reconn_def split: option.splits)
  have "due c1 = due c" using due_same [OF q(2)] c1(2) by (simp add: close_impl_def)
  moreover have "run_calls (restrict_calls (\<lambda>k. \<not> is_connect k) (cl_step env)) cs c1 = Inr (out', c2)"
    using assms(2,3) by (simp add: run_restrict)
  ultimately have "connects out' \<le> due c" using cl_shut.run_budget [OF n] by fastforce
  with q(1) c1(1) show ?thesis by (simp add: close_impl_def)
qed

text \<open>With a due handler the connection is opened although the client was closed.\<close>

lemma due_handler_connects:
  assumes "cl_abort_retries c" "cl_state c = con_closed" "cl_posted c = Timeout_reconnect False # rest"
    and "\<And>url. e_get_connection env url" "cl_proxy_base_url c = []"
  shows "\<exists>out c'. cl_step env Cl_run_handler c = Inr (out, c') \<and> connects out = 1"
  using assms by (auto simp: cl_run_handler_def timeout_reconnect_def connect_impl_def reset_states_def Let_def)

text \<open>An environment for the examples: it accepts every connection.\<close>

definition sample_env :: sio_env where
  "sample_env = \<lparr>e_jwrite = (\<lambda>_. ''[]''), e_jparse = (\<lambda>_. JArray []), e_host = (\<lambda>u. u), e_port = (\<lambda>_. ''443''),
     e_resource = (\<lambda>_. ''/''), e_time = 0, e_tls = True, e_get_connection = (\<lambda>_. True), e_set_proxy = (\<lambda>_. True),
     e_set_proxy_auth = (\<lambda>_ _. True)\<rparr>"

theorem no_reconnect_after_close_witness:
  "\<exists>out c1 out' c2. cl_close sample_env (snd (cl_connect sample_env ''h'' [] [] None new_client)) = Inr (out, c1) \<and>
     run_calls (cl_step sample_env) [Cl_on_close (Some 1006), Cl_reconn_expires, Cl_run_handler] c1 = Inr (out', c2) \<and>
     connects (out @ out') = 0"
proof -
  let ?c = "snd (cl_connect sample_env ''h'' [] [] None new_client)"
  let ?cs = "[Cl_on_close (Some 1006), Cl_reconn_expires, Cl_run_handler]"
  have cl: "cl_connect sample_env ''h'' [] [] None new_client =
      (fst (cl_connect sample_env ''h'' [] [] None new_client),
       new_client\<lparr>cl_state := con_opening, cl_base_url := ''h'', cl_thread := True\<rparr>)"
    by (simp add: cl_connect_def new_client_def cancel_reconn_def reset_states_def query_text_def pm_reset_def)
  have st: "?c = new_client\<lparr>cl_state := con_opening, cl_base_url := ''h'', cl_thread := True\<rparr>"
    by (subst cl) simp
  have "\<exists>out c1. cl_close sample_env ?c = Inr (out, c1) \<and> cl_sockets c1 = [] \<and> cl_posted c1 = [] \<and> cl_state c1 = con_closing \<and>
      cl_reconn_timer c1 = None \<and> cl_ping_timer c1 = None"
    unfolding st by (simp add: cl_close_def new_client_def sockets_invoke_void_def andThen_def close_impl_def cancel_reconn_def)
  then obtain out c1 where c1: "cl_close sample_env ?c = Inr (out, c1)" "cl_sockets c1 = []" "cl_posted c1 = []"
    "cl_state c1 = con_closing" "cl_reconn_timer c1 = None" "cl_ping_timer c1 = None" by blast
  obtain out' c2 where r: "run_calls (cl_step sample_env) ?cs c1 = Inr (out', c2)"
    using c1(2-6) by (simp add: cl_on_close_def sockets_invoke_void_def andThen_def clear_timers_def reconn_expires_def
        cl_run_handler_def Let_def)
  have "due ?c = 0" unfolding st by (simp add: new_client_def due_def)
  with no_reconnect_after_close [OF c1(1) r] c1(1) r show ?thesis by (auto simp: is_connect_def)
qed

section \<open>The delay between attempts\<close>

lemma next_delay_step:
  "d * 3 ^ n div 2 ^ n \<le> d * 3 ^ Suc n div 2 ^ Suc n" for d n :: nat
proof -
  have "d * 3 ^ n div 2 ^ n = (d * 3 ^ n * 2) div (2 ^ n * 2)" by (rule div_mult_mult2 [symmetric]) simp
  also have "\<dots> \<le> (d * 3 ^ n * 3) div (2 ^ n * 2)" by (rule div_le_mono) simp
  finally show ?thesis by (simp add: mult.commute mult.left_commute)
qed

text \<open>C31. The delay before an attempt starts at the configured delay, never shrinks as attempts are made, and
  never exceeds the configured maximum; with equal delay and maximum, as the bridge sets them, it is constant.\<close>

theorem next_delay_bounds:
  "next_delay c \<le> cl_reconn_delay_max c \<and>
   next_delay (c\<lparr>cl_reconn_made := 0\<rparr>) = min (cl_reconn_delay c) (cl_reconn_delay_max c) \<and>
   next_delay (c\<lparr>cl_reconn_made := n\<rparr>) \<le> next_delay (c\<lparr>cl_reconn_made := n + k\<rparr>) \<and>
   next_delay (set_reconnect_delay_max ms (set_reconnect_delay ms c)) = ms"
proof -
  have up: "d * 3 ^ a div 2 ^ a \<le> d * 3 ^ (a + b) div 2 ^ (a + b)" for a b d :: nat
  proof (induction b)
    case (Suc b)
    then show ?case using next_delay_step [of d "a + b"] by simp
  qed simp
  have mono: "next_delay (c\<lparr>cl_reconn_made := n\<rparr>) \<le> next_delay (c\<lparr>cl_reconn_made := n + k\<rparr>)"
  proof -
    obtain b where b: "min (n + k) 32 = min n 32 + b"
      by (metis le_add1 le_iff_add min.mono order_refl)
    show ?thesis using up [of "cl_reconn_delay c" "min n 32" b] by (auto simp: next_delay_def Let_def b)
  qed
  have const: "ms \<le> ms * 3 ^ a div 2 ^ a" for a :: nat using up [of ms 0 a] by simp
  have le: "next_delay c \<le> cl_reconn_delay_max c" by (simp add: next_delay_def Let_def)
  have zero: "next_delay (c\<lparr>cl_reconn_made := 0\<rparr>) = min (cl_reconn_delay c) (cl_reconn_delay_max c)"
    by (simp add: next_delay_def)
  have "next_delay (set_reconnect_delay_max ms (set_reconnect_delay ms c)) = ms"
    using min_absorb2 [OF const] by (simp add: next_delay_def set_reconnect_delay_def set_reconnect_delay_max_def Let_def)
  with mono le zero show ?thesis by blast
qed

section \<open>Percent encoding\<close>

text \<open>How a server reads the query back: \<open>%\<close> and two hexadecimal digits.\<close>

definition unhex :: "char \<Rightarrow> nat" where
  "unhex c = (let n = of_char c in if n \<ge> 65 then n - 55 else n - 48)"

fun percent_decode :: "string \<Rightarrow> string" where
  "percent_decode [] = []"
| "percent_decode [a] = [a]"
| "percent_decode [a, b] = [a, b]"
| "percent_decode (a # b # c # r) =
     (if a = CHR ''%'' then char_of (16 * unhex b + unhex c) # percent_decode r
      else a # percent_decode (b # c # r))"

lemma percent_decode_plain: "a \<noteq> CHR ''%'' \<Longrightarrow> percent_decode (a # r) = a # percent_decode r"
proof (cases r)
  case (Cons b r')
  then show "a \<noteq> CHR ''%'' \<Longrightarrow> ?thesis" by (cases r') auto
qed simp

lemma unhex_hex_upper: "n < 16 \<Longrightarrow> unhex (hex_upper n) = n"
  by (simp add: less_Suc_eq numeral_eq_Suc, elim disjE) (simp_all add: unhex_def hex_upper_def Let_def)

text \<open>The query encoding is read back by percent decoding if no byte is below 16; a byte below 16 is
  written with a space in place of the leading zero.\<close>

theorem encode_query_decodes:
  assumes "\<forall>c\<in>set q. 16 \<le> (of_char c :: nat)"
  shows "percent_decode (encode_query_string q) = q"
  using assms
proof (induction q)
  case Nil
  then show ?case by (simp add: encode_query_string_def)
next
  case (Cons c q)
  let ?n = "of_char c :: nat"
  have IH: "percent_decode (encode_query_string q) = q" using Cons by simp
  have split: "encode_query_string (c # q) = encode_char c @ encode_query_string q"
    by (simp add: encode_query_string_def)
  show ?case
  proof (cases "(97 \<le> ?n \<and> ?n \<le> 122) \<or> (65 \<le> ?n \<and> ?n \<le> 90) \<or> (48 \<le> ?n \<and> ?n \<le> 57)")
    case True
    then have "c \<noteq> CHR ''%''" by auto
    with True IH split show ?thesis by (simp add: encode_char_def Let_def percent_decode_plain)
  next
    case False
    have b: "?n < 256" by simp
    then have d: "?n div 16 < 16" "?n mod 16 < 16" using b by (simp_all add: div_less_iff_less_mult)
    have "16 * unhex (hex_upper (?n div 16)) + unhex (hex_upper (?n mod 16)) = ?n"
      using d by (simp add: unhex_hex_upper)
    moreover have "encode_char c = [CHR ''%'', hex_upper (?n div 16), hex_upper (?n mod 16)]"
      using False Cons.prems by (simp add: encode_char_def Let_def)
    ultimately show ?thesis using IH split by simp
  qed
qed

theorem encode_query_decodes_witness:
  "percent_decode (encode_query_string ''a&b=1 2'') = ''a&b=1 2''"
  by (rule encode_query_decodes) simp

lemma encode_query_newline: "encode_query_string [CHR 0x0A] = ''% A''"
  by (simp add: encode_query_string_def encode_char_def hex_upper_def)

section \<open>The table of sockets\<close>

definition removed :: "sk_effect list \<Rightarrow> string list" where
  "removed out = concat (map (\<lambda>e. case e of Remove_socket n \<Rightarrow> [n] | _ \<Rightarrow> []) out)"

lemma removed_simps [simp]:
  "removed [] = []" "removed (xs @ ys) = removed xs @ removed ys" "removed (Send p # xs) = removed xs"
  "removed (map Send q) = []" "removed (Socket_opened n # xs) = removed xs"
  "removed (Socket_closed n # xs) = removed xs" "removed (Remove_socket n # xs) = n # removed xs"
  "removed (Call_ack l v # xs) = removed xs" "removed (Call_event l ev # xs) = removed xs"
  "removed (Call_error l m # xs) = removed xs"
  by (simp_all add: removed_def)

lemma removed_calls: "\<forall>e\<in>set out. \<exists>l ev m. e = Call_event l ev \<or> e = Call_error l m \<Longrightarrow> removed out = []"
  by (induction out) auto

text \<open>A step of a live socket removes it from the table exactly if the step ends its life.\<close>

definition life :: "socket \<Rightarrow> sk_effect list \<Rightarrow> socket \<Rightarrow> bool" where
  "life s out s' = (sk_nsp s' = sk_nsp s \<and> removed out = (if sk_client s' then [] else [sk_nsp s]))"

lemma life_send_packet: "sk_client s \<Longrightarrow> life s (fst (send_packet p s)) (snd (send_packet p s))"
  by (simp add: life_def send_packet_def)

lemma life_on_close: "sk_client s \<Longrightarrow> life s (fst (sk_on_close s)) (snd (sk_on_close s))"
  by (simp add: life_def sk_on_close_def)

lemma life_on_connected: "sk_client s \<Longrightarrow> life s (fst (sk_on_connected s)) (snd (sk_on_connected s))"
  by (simp add: life_def sk_on_connected_def Let_def)

lemma life_nsp: "sk_nsp t = sk_nsp s \<Longrightarrow> life t out s' \<Longrightarrow> life s out s'"
  by (simp add: life_def)

lemma sk_step_life:
  assumes al: "sk_client s" and st: "sk_step c (g, s) = Inr (out, g', s')"
  shows "life s out s'"
proof (cases c)
  case (C_emit n ms a)
  then have e: "sk_emit n ms a g s = Inr (g', out, s')" using st by (auto simp: res_simps)
  from sk_emit_cases [OF e] al obtain p s1 where p: "(out, s') = send_packet p s1"
    "case a of None \<Rightarrow> s1 = s | Some l \<Rightarrow> s1 = s\<lparr>sk_acks := mput (to_u32 (sint g)) l (sk_acks s)\<rparr>" by auto
  then have "sk_client s1" "sk_nsp s1 = sk_nsp s" using al by (auto split: option.splits)
  with life_send_packet [of s1 p] p(1) show ?thesis by (auto simp: pair_eq_fst_snd intro: life_nsp)
next
  case (C_ack i ms)
  then have "sk_ack i ms s = Inr (out, s')" using st by (auto simp: res_simps)
  from sk_ack_cases [OF this] life_send_packet [OF al] show ?thesis by (auto simp: pair_eq_fst_snd)
next
  case (C_packet p)
  then have "on_message_packet p s = Inr (out, s')" using st by (auto simp: res_simps)
  from packet_step_cases [OF this] show ?thesis
  proof (elim disjE exE conjE)
    fix i m assume "(out, s') = on_socketio_ack i m s"
    then show ?thesis using al by (auto simp: life_def on_socketio_ack_def split: option.splits)
  qed (use al life_on_close life_on_connected in \<open>auto simp: life_def removed_calls pair_eq_fst_snd\<close>)
next
  case Run_handler
  show ?thesis
  proof (cases "sk_posted s")
    case Nil
    with Run_handler st al show ?thesis by (simp add: run_handler_def life_def)
  next
    case (Cons x rest)
    obtain w ec where x: "x = (w, ec)" by (cases x)
    have "sk_client (s\<lparr>sk_posted := rest\<rparr>)" "sk_client (reset_timer (s\<lparr>sk_posted := rest\<rparr>))" using al by simp_all
    then have "life s (fst (sk_on_close (s\<lparr>sk_posted := rest\<rparr>))) (snd (sk_on_close (s\<lparr>sk_posted := rest\<rparr>)))"
      "life s (fst (sk_on_close (reset_timer (s\<lparr>sk_posted := rest\<rparr>)))) (snd (sk_on_close (reset_timer (s\<lparr>sk_posted := rest\<rparr>))))"
      using life_on_close [of "s\<lparr>sk_posted := rest\<rparr>"] life_on_close [of "reset_timer (s\<lparr>sk_posted := rest\<rparr>)"]
      by (auto intro: life_nsp [rotated])
    moreover have "life s [] (s\<lparr>sk_posted := rest\<rparr>)" using al by (simp add: life_def)
    moreover have "(out, s') = run_handler s" using Run_handler st by (simp split: prod.splits)
    then have "(out, s') = ([], s\<lparr>sk_posted := rest\<rparr>) \<or> (out, s') = sk_on_close (s\<lparr>sk_posted := rest\<rparr>) \<or>
        (out, s') = sk_on_close (reset_timer (s\<lparr>sk_posted := rest\<rparr>))"
      by (cases w) (auto simp: run_handler_def Cons x timeout_connection_def Let_def)
    ultimately show ?thesis by (metis fst_conv snd_conv)
  qed
next
  case C_close
  have "(out, s') = sk_close s" using C_close st by (simp split: prod.splits)
  moreover have "life s (fst (sk_close s)) (snd (sk_close s))"
    using al by (simp add: sk_close_def life_def send_packet_def)
  ultimately show ?thesis by (simp add: pair_eq_fst_snd)
qed (use st al in \<open>auto simp: life_def socket_ops timer_fires_def start_wait_def cancel_waits_def reset_timer_def
       split: option.splits if_splits\<close>)

definition table_ok :: "(string, socket) omap \<Rightarrow> bool" where
  "table_ok t = (omap_ok t \<and> (\<forall>n s. map_of t n = Some s \<longrightarrow>
     sk_nsp s = n \<and> sk_client s \<and> sk_inv (0, s) \<and> n \<noteq> [] \<and> hd n = CHR ''/''))"

lemma sk_inv_gid: "sk_inv (g, s) = sk_inv (g', s)"
  by (simp add: sk_inv_def)

lemma cl_absorb_sockets:
  "cl_absorb env es c = Inr (out, c') \<Longrightarrow> cl_sockets c' = fold mdel (removed es) (cl_sockets c)"
proof (induction es arbitrary: c out)
  case Nil
  then show ?case by simp
next
  case (Cons e es)
  show ?case
  proof (cases e)
    case (Remove_socket n)
    with Cons show ?thesis by auto
  next
    case (Send p)
    with Cons.prems obtain out1 c1 out2 where
      "bindR (cl_send env p c) (\<lambda>out. Inr (out, c)) = Inr (out1, c1)" "cl_absorb env es c1 = Inr (out2, c')"
      by (auto elim: andThen_InrE)
    then have "c1 = c" "cl_absorb env es c1 = Inr (out2, c')" by (auto simp: res_simps)
    with Cons.IH Send show ?thesis by simp
  qed (use Cons in \<open>force elim!: andThen_InrE\<close>)+
qed

lemma table_step:
  assumes t: "table_ok (cl_sockets c)" "map_of (cl_sockets c) n = Some s"
    and st: "sk_step call (g, s) = Inr (es, g', s')"
    and ab: "cl_absorb env es d = Inr (out, c')" "cl_sockets d = mput n s' (cl_sockets c)"
  shows "table_ok (cl_sockets c')"
proof -
  from t have s: "sk_nsp s = n" "sk_client s" "sk_inv (g, s)" "n \<noteq> [] \<and> hd n = CHR ''/''" and o: "omap_ok (cl_sockets c)"
    unfolding table_ok_def using sk_inv_gid by blast+
  have l: "life s es s'" using s(2) st by (rule sk_step_life)
  have i: "sk_inv (0, s')" using sk_step_inv [OF s(3) st] sk_inv_gid by blast
  have m: "cl_sockets c' = fold mdel (removed es) (mput n s' (cl_sockets c))"
    using cl_absorb_sockets [OF ab(1)] ab(2) by simp
  show ?thesis
  proof (cases "sk_client s'")
    case True
    with l m have "cl_sockets c' = mput n s' (cl_sockets c)" by (simp add: life_def)
    with t(1) o i l s True show ?thesis unfolding table_ok_def life_def by auto
  next
    case False
    with l m s(1) have "cl_sockets c' = mdel n (mput n s' (cl_sockets c))" by (simp add: life_def)
    with t(1) o show ?thesis unfolding table_ok_def by auto
  qed
qed

definition cl_ok :: "cl_out \<Rightarrow> bool" where
  "cl_ok r = (\<forall>out c'. r = Inr (out, c') \<longrightarrow> table_ok (cl_sockets c'))"

lemma cl_ok_Inr: "table_ok (cl_sockets c') \<Longrightarrow> cl_ok (Inr (out, c'))"
  by (simp add: cl_ok_def)

lemma cl_ok_pair: "table_ok (cl_sockets (snd x)) \<Longrightarrow> cl_ok (Inr x)"
  by (cases x) (simp add: cl_ok_def)

lemma cl_ok_andThen:
  assumes "cl_ok r" "\<And>c. table_ok (cl_sockets c) \<Longrightarrow> cl_ok (f c)"
  shows "cl_ok (andThen r f)"
  unfolding cl_ok_def
proof (intro allI impI)
  fix out c'' assume "andThen r f = Inr (out, c'')"
  then obtain out1 c' out2 where st: "r = Inr (out1, c')" "f c' = Inr (out2, c'')" "out = out1 @ out2"
    by (rule andThen_InrE)
  with assms show "table_ok (cl_sockets c'')" by (auto simp: cl_ok_def)
qed

lemma cl_ok_bindR: "(\<And>x. r = Inr x \<Longrightarrow> cl_ok (f x)) \<Longrightarrow> cl_ok (bindR r f)"
  by (cases r) (auto simp: cl_ok_def)

text \<open>The functions \<open>sockets_invoke_void\<close> is called with are steps of the socket.\<close>

definition socket_fn :: "(socket \<Rightarrow> sk_effect list \<times> socket) \<Rightarrow> bool" where
  "socket_fn fn = (\<exists>call. \<forall>s. sk_step call (0, s) = Inr (fst (fn s), 0, snd (fn s)))"

lemma socket_fns: "socket_fn sk_close" "socket_fn sk_on_close" "socket_fn sk_on_open" "socket_fn sk_on_disconnect"
proof -
  show "socket_fn sk_close" unfolding socket_fn_def by (rule exI [of _ C_close]) (simp add: split_beta Let_def)
  show "socket_fn sk_on_close" unfolding socket_fn_def by (rule exI [of _ C_on_close]) (simp add: split_beta Let_def)
  show "socket_fn sk_on_open" unfolding socket_fn_def by (rule exI [of _ C_on_open]) (simp add: split_beta Let_def)
  show "socket_fn sk_on_disconnect" unfolding socket_fn_def
    by (rule exI [of _ C_on_disconnect]) (simp add: split_beta Let_def)
qed

lemma on_socket_ok:
  assumes "socket_fn fn" "table_ok (cl_sockets c)"
  shows "cl_ok (on_socket env fn n c)"
proof (cases "map_of (cl_sockets c) n")
  case None
  with assms show ?thesis by (simp add: on_socket_def cl_ok_Inr)
next
  case (Some s)
  from assms(1) obtain call where st: "sk_step call (0, s) = Inr (fst (fn s), 0, snd (fn s))"
    by (auto simp: socket_fn_def)
  show ?thesis
    using table_step [OF assms(2) Some st] by (auto simp: cl_ok_def on_socket_def Some split_beta Let_def)
qed

lemma sockets_invoke_ok:
  assumes "socket_fn fn" "table_ok (cl_sockets c)"
  shows "cl_ok (sockets_invoke_void env fn c)"
proof -
  have "table_ok (cl_sockets d) \<Longrightarrow> cl_ok (invoke_all env fn ns d)" for ns d
    by (induction ns arbitrary: d) (simp_all add: cl_ok_andThen on_socket_ok assms(1) cl_ok_Inr)
  with assms(2) show ?thesis by (simp add: sockets_invoke_void_def)
qed

lemma cl_socket_ok:
  assumes "table_ok (cl_sockets c)"
  shows "cl_ok (cl_socket env nsp c)"
proof (cases "mhas (cl_sockets c) (socket_name nsp)")
  case True
  with assms show ?thesis by (simp add: cl_socket_def Let_def cl_ok_Inr)
next
  case False
  let ?n = "socket_name nsp"
  let ?w = "new_socket True (cl_state c = con_opened) ?n (cl_auth c)"
  have nw: "sk_nsp (snd ?w) = ?n" "sk_client (snd ?w)" "removed (fst ?w) = []" "sk_inv (0, snd ?w)"
    by (auto simp: new_socket_def send_connect_def sk_inv_def start_wait_def reset_timer_def cancel_waits_def Let_def)
  have "?n \<noteq> [] \<and> hd ?n = CHR ''/''" by (simp add: socket_name_def)
  with assms nw False have t: "table_ok (memplace ?n (snd ?w) (cl_sockets c))"
    unfolding table_ok_def by (auto simp: map_of_memplace)
  have "table_ok (cl_sockets c')"
    if "cl_absorb env (fst ?w) (c\<lparr>cl_sockets := memplace ?n (snd ?w) (cl_sockets c)\<rparr>) = Inr (out, c')" for out c'
    using cl_absorb_sockets [OF that] nw(3) t by simp
  then show ?thesis using False by (auto simp: cl_socket_def Let_def cl_ok_def split_beta)
qed

lemma cl_close_ok: "table_ok (cl_sockets c) \<Longrightarrow> cl_ok (cl_close env c)"
  unfolding cl_close_def
  by (intro cl_ok_andThen sockets_invoke_ok socket_fns)
    (auto intro!: cl_ok_pair simp: close_impl_def cancel_reconn_def split: option.splits)

lemma timer_sockets [simp]: "cl_sockets (cancel_reconn c) = cl_sockets c" "cl_sockets (clear_timers c) = cl_sockets c"
  "cl_sockets (start_reconn d c) = cl_sockets c" "cl_sockets (update_ping_timeout_timer c) = cl_sockets c"
  "cl_sockets (ping_expires c) = cl_sockets c" "cl_sockets (reconn_expires c) = cl_sockets c"
  "cl_sockets (reset_states c) = cl_sockets c" "cl_sockets (snd (close_impl n r c)) = cl_sockets c"
  by (auto simp: cancel_reconn_def clear_timers_def start_reconn_def update_ping_timeout_timer_def ping_expires_def
      reconn_expires_def reset_states_def close_impl_def split: option.splits)

lemma schedule_ok: "table_ok (cl_sockets c) \<Longrightarrow> cl_ok (schedule_reconnect c)"
  by (simp add: schedule_reconnect_def cl_ok_Inr)

lemma on_decode_ok:
  assumes t: "table_ok (cl_sockets c)"
  shows "cl_ok (on_decode env p c)"
proof -
  have h: "cl_ok (on_handshake m c)" for m
    using t by (auto simp: on_handshake_def handshake_failed_def intro!: cl_ok_bindR cl_ok_Inr cl_ok_pair
        split: option.splits message.splits)
  have q: "cl_ok (on_ping env c)"
    using t by (auto simp: on_ping_def cl_ok_def res_simps split: if_splits)
  have s: "cl_sockets c' = cl_sockets c" if "sync_sid p c = Inr c'" for c'
    using that by (auto simp: sync_sid_def res_simps split: if_splits option.split_asm message.split_asm)
  have g: "cl_ok (case map_of (cl_sockets c') (pk_nsp p) of None \<Rightarrow> Inr ([], c')
      | Some s \<Rightarrow> bindR (on_message_packet p s) (\<lambda>(out, s').
          cl_absorb env out (c'\<lparr>cl_sockets := mput (pk_nsp p) s' (cl_sockets c')\<rparr>)))"
    if t': "table_ok (cl_sockets c')" for c'
  proof (cases "map_of (cl_sockets c') (pk_nsp p)")
    case None
    with t' show ?thesis by (simp add: cl_ok_Inr)
  next
    case (Some s)
    have "table_ok (cl_sockets d)" if "on_message_packet p s = Inr (out, s')"
      "cl_absorb env out (c'\<lparr>cl_sockets := mput (pk_nsp p) s' (cl_sockets c')\<rparr>) = Inr (o2, d)" for out s' o2 d
    proof -
      have "sk_step (C_packet p) (0, s) = Inr (out, 0, s')" using that(1) by simp
      from table_step [OF t' Some this that(2)] show ?thesis by simp
    qed
    then show ?thesis by (auto simp: Some cl_ok_def res_simps)
  qed
  show ?thesis
  proof (cases "pk_frame p = frame_message")
    case True
    have "cl_ok (bindR (sync_sid p c) (\<lambda>c.
          case map_of (cl_sockets c) (pk_nsp p) of None \<Rightarrow> Inr ([], c)
          | Some s \<Rightarrow> bindR (on_message_packet p s) (\<lambda>(out, s').
              cl_absorb env out (c\<lparr>cl_sockets := mput (pk_nsp p) s' (cl_sockets c)\<rparr>))))"
      by (rule cl_ok_bindR, rule g) (use s t in simp)
    with True show ?thesis by (simp add: on_decode_def)
  next
    case False
    then show ?thesis unfolding on_decode_def using h q t by (auto intro!: cl_ok_Inr cl_ok_pair)
  qed
qed

lemma cl_step_ok:
  assumes t: "table_ok (cl_sockets c)"
  shows "cl_ok (cl_step env call c)"
proof (cases call)
  case (Cl_connect uri q h a)
  then show ?thesis using t by (auto simp: cl_connect_def Let_def intro!: cl_ok_pair)
next
  case Cl_sync_close
  then show ?thesis using cl_close_ok [OF t] by (auto simp: sync_close_def intro!: cl_ok_andThen cl_ok_Inr)
next
  case (Cl_sock nsp k)
  show ?thesis
  proof (cases "map_of (cl_sockets c) nsp")
    case None
    then show ?thesis using t by (simp add: Cl_sock on_sock_call_def cl_ok_Inr)
  next
    case (Some s)
    have "table_ok (cl_sockets d)" if "sk_step k (cl_gid c, s) = Inr (out, g, s')"
      "cl_absorb env out (c\<lparr>cl_gid := g, cl_sockets := mput nsp s' (cl_sockets c)\<rparr>) = Inr (o2, d)" for out g s' o2 d
      using table_step [OF t Some that] by simp
    then show ?thesis by (auto simp: Cl_sock on_sock_call_def Some cl_ok_def res_simps)
  qed
next
  case Cl_on_fail
  then show ?thesis using t cl_close_ok [OF t]
    by (auto simp: cl_on_fail_def intro!: cl_ok_andThen sockets_invoke_ok socket_fns schedule_ok cl_ok_Inr)
next
  case Cl_on_open
  then show ?thesis using t cl_close_ok [OF t]
    by (auto simp: cl_on_open_def intro!: cl_ok_andThen sockets_invoke_ok socket_fns cl_socket_ok cl_ok_Inr)
next
  case (Cl_on_close code)
  have "cl_ok (if b then Inr (notify close_listener (L_close close_reason_normal) c', c')
      else if may_reconnect c' then schedule_reconnect c'
      else Inr (notify close_listener (L_close close_reason_drop) c', c'))" if "table_ok (cl_sockets c')" for c' b
    using that schedule_ok by (simp add: cl_ok_Inr)
  then show ?thesis using t
    by (auto simp: Cl_on_close cl_on_close_def Let_def simp del: if_split
        intro!: cl_ok_andThen sockets_invoke_ok socket_fns cl_ok_Inr)
next
  case (Cl_message payload)
  then show ?thesis using t on_decode_ok
    by (auto simp: cl_on_message_def Let_def intro!: cl_ok_bindR cl_ok_Inr split: option.splits)
next
  case Cl_run_handler
  then show ?thesis using t
    by (auto simp: cl_run_handler_def timeout_ping_def timeout_reconnect_def Let_def intro!: cl_ok_pair
        split: list.splits cl_task.splits)
qed (use t cl_close_ok cl_socket_ok in \<open>auto intro: cl_ok_Inr\<close>)

interpretation cl_table: event_machine "cl_step env" "\<lambda>c. table_ok (cl_sockets c)" for env
proof
  fix c k out c' assume "table_ok (cl_sockets c)" "cl_step env k c = Inr (out, c')"
  from cl_step_ok [OF this(1), of env k, unfolded this(2)] show "table_ok (cl_sockets c')"
    by (simp add: cl_ok_def)
qed

text \<open>C30. Whatever happens to the client, its table of sockets holds only live sockets, each under its own
  namespace that starts with a slash, and a socket that is connected has nothing queued.\<close>

theorem socket_table_invariant:
  assumes "run_calls (cl_step env) cs new_client = Inr (out, c)" "map_of (cl_sockets c) n = Some s"
  shows "sk_nsp s = n \<and> hd n = CHR ''/'' \<and> sk_client s \<and> (sk_connected s \<longrightarrow> sk_queue s = [])"
proof -
  have "table_ok (cl_sockets new_client)" by (simp add: table_ok_def new_client_def)
  from cl_table.run_inv [OF this assms(1)] assms(2) have "sk_nsp s = n \<and> hd n = CHR ''/'' \<and> sk_client s \<and> sk_inv (0, s)"
    unfolding table_ok_def by blast
  then show ?thesis by (simp add: sk_inv_def Let_def)
qed

theorem socket_table_invariant_witness:
  "\<exists>out c s. run_calls (cl_step sample_env) [Cl_connect ''h'' [] [] None, Cl_socket ''a''] new_client = Inr (out, c) \<and>
     map_of (cl_sockets c) ''/a'' = Some s \<and> sk_nsp s = ''/a''"
proof -
  let ?cs = "[Cl_connect ''h'' [] [] None, Cl_socket ''a'']"
  have "\<exists>out c s. run_calls (cl_step sample_env) ?cs new_client = Inr (out, c) \<and> map_of (cl_sockets c) ''/a'' = Some s"
    by (simp add: cl_connect_def new_client_def cancel_reconn_def reset_states_def cl_socket_def socket_name_def
        new_socket_def memplace_def mhas_def query_text_def pm_reset_def Let_def)
  then show ?thesis using socket_table_invariant by blast
qed

end
