(* ===== verification/Wire.thy ===== *)
theory Wire
  imports BridgeLaws
begin

text \<open>
  The bridge on its socket: the listeners that \<open>BridgeSocket::onConnected\<close> of \<open>src/sio.cpp\<close> registers are called by the
  socket, and what the handlers emit and acknowledge goes out through it. The theorems follow an event from its
  packet to the packets that answer it.
\<close>

section \<open>Handlers as listeners\<close>

text \<open>The number of a listener: the place of its handler in the table; then the listeners of the other events and of
  errors, and one per peer for the reply to its offer.\<close>

abbreviation other_listener :: listener where "other_listener \<equiv> 12"
abbreviation error_listener :: listener where "error_listener \<equiv> 13"
abbreviation first_reply_listener :: listener where "first_reply_listener \<equiv> 14"

definition listener_of :: "handler \<Rightarrow> listener" where
  "listener_of h = length (takeWhile (\<lambda>(k, h'). h' \<noteq> h) handler_table)"

definition handler_at :: "listener \<Rightarrow> handler option" where
  "handler_at l = (if l < length handler_table then Some (snd (handler_table ! l)) else None)"

lemma handler_at_listener_of: "handler_at (listener_of h) = Some h"
  by (cases h) (simp_all add: handler_at_def listener_of_def handler_table_def)

text \<open>What an effect of the bridge asks of the socket. The reply to the offer of a peer has a listener, a report of
  Introspection has none.\<close>

fun socket_calls :: "bridge_effect \<Rightarrow> sk_call list" where
  "socket_calls (Listen k h) = [C_on k (Some (listener_of h))]"
| "socket_calls Listen_any = [C_on_any (Some other_listener)]"
| "socket_calls Listen_error = [C_on_error (Some error_listener)]"
| "socket_calls Off_all = [C_off_all]"
| "socket_calls Off_error = [C_off_error]"
| "socket_calls (Ack i m) = [C_ack i [Some m]]"
| "socket_calls (Peer_eff n (Sio_emit k m)) = [C_emit k [Some m] (Some (first_reply_listener + n))]"
| "socket_calls (Peer_eff n (Sio_ack i m)) = [C_ack i [Some m]]"
| "socket_calls (Intro_eff (Intro_emit k m)) = [C_emit k [m] None]"
| "socket_calls _ = []"

section \<open>The wired system\<close>

type_synonym wired = "bridge \<times> 32 word \<times> socket"
type_synonym 'a wact = "(wired, sk_effect, 'a) act"

definition on_socket :: "sk_call \<Rightarrow> sk_effect list wact" where
  "on_socket c s = (case s of (b, w) \<Rightarrow>
     (case sk_step c w of Inl e \<Rightarrow> (Inl e, [], s) | Inr (out, w') \<Rightarrow> (Inr out, out, (b, w'))))"

definition call_sockets :: "sk_call list \<Rightarrow> unit wact" where
  "call_sockets cs = forA (\<lambda>c _. bindA (on_socket c) (\<lambda>_. retA ())) cs ()"

text \<open>A handler with all it does to the socket. A failed assertion of the socket ends the program, so what the handler did
  to the bridge after it is of no account.\<close>

definition on_bridge :: "'a bact \<Rightarrow> 'a wact" where
  "on_bridge m s = (case s of (b, w) \<Rightarrow> (case m b of (r, out, b') \<Rightarrow>
     thenA (call_sockets (concat (map socket_calls out))) (liftA r) (b', w)))"

text \<open>What the bridge does when the socket calls it. Other events and errors are only logged.\<close>

definition react :: "world \<Rightarrow> sk_effect \<Rightarrow> unit bact" where
  "react w e =
     (case e of
        Call_event l ev \<Rightarrow> (case handler_at l of Some h \<Rightarrow> handle w h ev | None \<Rightarrow> retA ())
      | Call_ack l reply \<Rightarrow>
          if first_reply_listener \<le> l then br_onOfferReply w (l - first_reply_listener) reply else retA ()
      | Socket_opened nsp \<Rightarrow> br_onSocketOpen w
      | _ \<Rightarrow> retA ())"

definition receive :: "world \<Rightarrow> packet \<Rightarrow> unit wact" where
  "receive w p = bindA (on_socket (C_packet p)) (\<lambda>out. forA (\<lambda>e _. on_bridge (react w e)) out ())"

definition wired_connect :: "unit wact" where
  "wired_connect = thenA (on_bridge br_connect) (on_bridge br_onConnected)"


section \<open>Every handler answers its own event\<close>

text \<open>What a peer emits: an acknowledgement only if the processing was given an id to acknowledge.\<close>

definition acks_only :: "int \<Rightarrow> peer_effect \<Rightarrow> bool" where
  "acks_only i e = (case e of Sio_ack j m \<Rightarrow> j = i \<and> 0 \<le> i | _ \<Rightarrow> True)"

lemma acks_only_simps [simp]:
  "acks_only i (Sio_ack j m) \<longleftrightarrow> j = i \<and> 0 \<le> i" "acks_only i (Rd_eff x)" "acks_only i (Wr_eff y)" "acks_only i (Vd_eff z)"
  "acks_only i (New_pc n c)" "acks_only i (Close_pc n)" "acks_only i (Open_dc n d t ty ch u mt)" "acks_only i (Close_dc n)"
  "acks_only i (Open_track n tk k)" "acks_only i (Set_remote sdp)" "acks_only i (Sio_emit k m)"
  by (simp_all add: acks_only_def)

abbreviation quiet :: "int \<Rightarrow> 'a pact \<Rightarrow> bool" where
  "quiet i m \<equiv> emitsA (acks_only i) m"

lemma quiet_calm: "calm m \<Longrightarrow> quiet i m"
  by (erule emitsA_mono) (auto simp: acks_only_def says_def split: peer_effect.splits)

lemma quiet_reply: "quiet i (send_reply env i again r)"
proof -
  have emit: "quiet i (sio_emit env k m)" for k m by (simp add: sio_emit_def emitsA_emit)
  have get: "quiet i (get_peer f)" for f by (simp add: quiet_calm)
  have close: "quiet i removePeerConnection" by (simp add: quiet_calm)
  show ?thesis
  proof (cases "i < 0")
    case True
    then show ?thesis unfolding send_reply_def by (simp only: if_True) (intro emit_rules emit get close)
  next
    case False
    then have "quiet i (sio_ack env i (Object_msg r))" by (simp add: sio_ack_def emitsA_emit)
    with False show ?thesis unfolding send_reply_def by (simp only: if_False) (intro emit_rules get close)
  qed
qed

lemma quiet_process: "quiet i (processSubscriptionsSync env cfg i ack)"
  unfolding processSubscriptionsSync_def Let_def by (intro emit_rules quiet_reply quiet_calm calm_basic calm_update calm_stages)

lemma quiet_gone: "quiet i (onDisconnected env cfg)"
proof -
  have "quiet (- 1) (onDisconnected env cfg)"
    unfolding onDisconnected_def by (intro emit_rules quiet_process quiet_calm calm_basic)
  then show ?thesis by (rule emitsA_mono) (simp add: acks_only_def split: peer_effect.splits)
qed

lemma quiet_requests [simp, intro]:
  "quiet i (read_request f v)" "quiet i (write_request strict v)" "quiet i (initial_requests m)"
  "quiet i (construct env cfg)" "quiet i (onWRTCInfo m)" "quiet i (onSDPAnswer env m)"
  by (intro quiet_calm calm_requests)+

text \<open>The effects of a handler for an event with id \<open>i\<close>: an acknowledgement has this id, whether the handler sends it or
  the thread it starts.\<close>

definition answers :: "int \<Rightarrow> bridge_effect \<Rightarrow> bool" where
  "answers i e =
     (case e of Ack j m \<Rightarrow> j = i | Process n j ack \<Rightarrow> j = i \<or> j = - 1 | Peer_eff n p \<Rightarrow> acks_only i p | _ \<Rightarrow> True)"

lemma answers_simps [simp]:
  "answers i (Ack j m) \<longleftrightarrow> j = i" "answers i (Process n j ack) \<longleftrightarrow> j = i \<or> j = - 1" "answers i (Peer_eff n p) \<longleftrightarrow> acks_only i p"
  "answers i (Intro_eff x)" "answers i (Call_service s t ev)" "answers i (Upload u j)" "answers i (Conn_led c)" "answers i (Data_led c)"
  by (simp_all add: answers_def)

abbreviation answering :: "int \<Rightarrow> 'a bact \<Rightarrow> bool" where
  "answering i m \<equiv> emitsA (answers i) m"

lemma answering_object:
  assumes "\<And>b. quiet i (m b)"
  shows "answering i (on_object n m)"
  unfolding emitsA_def
proof
  fix b
  show "list_all (answers i) (effects (on_object n m b))"
  proof (cases "map_of (br_objs b) n")
    case None
    then show ?thesis by (simp add: on_object_def)
  next
    case (Some p)
    obtain r out p' h' where m: "m b (p, br_hub b) = (r, out, p', h')" by (metis prod_cases4)
    from assms this have "list_all (acks_only i) out" by (rule emitsAD)
    with Some m show ?thesis by (simp add: on_object_def list_all_iff)
  qed
qed

lemma answering_intro: "answering i (on_intro m)"
proof -
  have "answers i e" if "e \<in> set (intro_effects b out)" for e b out
    using that by (auto simp: intro_effects_def processAllPeerSubscriptions_def split: if_splits)
  then show ?thesis by (auto simp: emitsA_def on_intro_def list_all_iff split: prod.split)
qed

lemma answering_ack [simp, intro]:
  "answering i (br_ack i m)" "answering (ev_msgId ev) (ack_if_needed ev)" "answering (ev_msgId ev) (returnError x ev)"
  "answering (ev_msgId ev) (getConnectedPeer ev)"
proof -
  show a: "answering i (br_ack i m)" for i m
    by (auto simp: br_ack_def emitsA_def bindA_def getA_def emitA_def)
  show "answering (ev_msgId ev) (ack_if_needed ev)" by (auto simp: ack_if_needed_def returnSuccess_def intro!: emit_rules a)
  show "answering (ev_msgId ev) (returnError x ev)" by (auto simp: returnError_def intro!: a)
  show "answering (ev_msgId ev) (getConnectedPeer ev)" by (auto simp: getConnectedPeer_def intro!: emit_rules a)
qed

lemma answering_get: "(\<And>b. list_all (answers i) (f b)) \<Longrightarrow> answering i (bindA (getA f) emitA)"
  by (simp add: emitsA_def bindA_def getA_def emitA_def)

lemma answering_leaves: "answering i (peer_leaves w n)"
  by (auto simp: peer_leaves_def intro!: emit_rules answering_object quiet_gone)

lemma answering_connect: "answering (ev_msgId ev) (connect_peer w j ev)"
  unfolding connect_peer_def new_object_def by (intro emit_rules answering_object answering_get) auto

lemma answering_subscription: "(\<And>v. quiet (ev_msgId ev) (f v)) \<Longrightarrow> answering (ev_msgId ev) (subscription_handler f ev)"
  unfolding subscription_handler_def by (intro emit_rules answering_object answering_ack) auto

lemma answering_handle: "answering (ev_msgId ev) (handle w k ev)"
proof (cases k)
  case H_introspection
  have "answering (ev_msgId ev) (bindA (getA f) (\<lambda>running. emitA [Ack (ev_msgId ev) (g running)]))" for f :: "bridge \<Rightarrow> bool" and g
    by (intro emit_rules) simp
  with H_introspection show ?thesis
    by (auto simp: onIntrospection_def intro!: emit_rules answering_intro)
next
  case H_peer
  then show ?thesis by (auto simp: br_onPeerConnected_def intro!: emit_rules answering_connect)
qed (auto simp: onIceServers_def onPeerWRTCInfo_def onPeerDisconnected_def onSubscribeRead_def onUnsubscribeRead_def
      onSubscribeWrite_def onUnsubscribeWrite_def onServiceCall_def onFileRequest_def br_onSDPAnswer_def Let_def returnSuccess_def
      intro!: emit_rules answering_leaves answering_object answering_subscription)


section \<open>From the packet to the answer\<close>

text \<open>What may go out for an event with id \<open>i\<close>: what was queued before, events, and acknowledgements of this id.\<close>

definition wire_ok :: "int \<Rightarrow> string \<Rightarrow> packet list \<Rightarrow> packet \<Rightarrow> bool" where
  "wire_ok i nsp old q \<longleftrightarrow> q \<in> set old \<or> (pk_type q = 19 \<longrightarrow> pk_pack_id q = i \<and> 0 \<le> i \<and> pk_nsp q = nsp)"

definition sends_ok :: "int \<Rightarrow> string \<Rightarrow> packet list \<Rightarrow> sk_effect \<Rightarrow> bool" where
  "sends_ok i nsp old e = (case e of Send q \<Rightarrow> wire_ok i nsp old q | _ \<Rightarrow> True)"

definition queue_ok :: "int \<Rightarrow> string \<Rightarrow> packet list \<Rightarrow> wired \<Rightarrow> bool" where
  "queue_ok i nsp old s = (case s of (b, g, k) \<Rightarrow> sk_nsp k = nsp \<and> list_all (wire_ok i nsp old) (sk_queue k))"

abbreviation wire_safe :: "int \<Rightarrow> string \<Rightarrow> packet list \<Rightarrow> 'a wact \<Rightarrow> bool" where
  "wire_safe i nsp old \<equiv> safeA (queue_ok i nsp old) (sends_ok i nsp old)"

text \<open>The calls that a handler makes for an event with id \<open>i\<close>.\<close>

fun reply_call :: "int \<Rightarrow> sk_call \<Rightarrow> bool" where
  "reply_call i (C_ack j v) = (j = i)"
| "reply_call i (C_emit k v a) = True"
| "reply_call i (C_on k f) = True"
| "reply_call i (C_on_any f) = True"
| "reply_call i (C_on_error f) = True"
| "reply_call i C_off_all = True"
| "reply_call i C_off_error = True"
| "reply_call i c = False"

lemma answers_reply: "answers i e \<Longrightarrow> list_all (reply_call i) (socket_calls e)"
proof (induction e rule: socket_calls.induct)
qed (auto simp: answers_def acks_only_def)

lemma answers_replies: "list_all (answers i) out \<Longrightarrow> list_all (reply_call i) (concat (map socket_calls out))"
  using answers_reply by (fastforce simp: list_all_iff)

lemma send_packet_safe:
  assumes "queue_ok i nsp old (b, g, k)" "wire_ok i nsp old p" "send_packet p k = (out, k')"
  shows "queue_ok i nsp old (b, g', k') \<and> list_all (sends_ok i nsp old) out"
  using assms by (auto simp: send_packet_def queue_ok_def sends_ok_def list_all_iff split: if_splits)

lemma ack_packet_ok: "message_packet nsp m i True = Inr p \<Longrightarrow> wire_ok i nsp old p"
  by (auto simp: message_packet_def wire_ok_def split: if_splits)

lemma event_packet_ok: "message_packet nsp m j False = Inr p \<Longrightarrow> wire_ok i nsp old p"
  by (auto simp: message_packet_def wire_ok_def)

lemma sk_ack_safe:
  assumes "queue_ok i nsp old (b, g, k)" "sk_ack i v k = Inr (out, k')"
  shows "queue_ok i nsp old (b, g, k') \<and> list_all (sends_ok i nsp old) out"
proof -
  from assms(1) have n: "sk_nsp k = nsp" by (simp add: queue_ok_def)
  from assms(2) obtain p where p: "message_packet nsp (Some (to_array_message v)) i True = Inr p" "send_packet p k = (out, k')"
    by (auto simp: sk_ack_def n res_simps)
  from send_packet_safe [OF assms(1) ack_packet_ok [OF p(1)] p(2)] show ?thesis .
qed

lemma sk_emit_safe:
  assumes q: "queue_ok i nsp old (b, g, k)" and e: "sk_emit n v a g k = Inr (g', out, k')"
  shows "queue_ok i nsp old (b, g', k') \<and> list_all (sends_ok i nsp old) out"
proof (cases "sk_client k")
  case False
  with e q show ?thesis by (auto simp: sk_emit_def queue_ok_def)
next
  case True
  let ?k = "case a of None \<Rightarrow> k | Some l \<Rightarrow> k\<lparr>sk_acks := mput (to_u32 (sint g)) l (sk_acks k)\<rparr>"
  from q have "sk_nsp k = nsp" by (simp add: queue_ok_def)
  with e True obtain p j where p: "message_packet nsp (Some (to_array_message_named n v)) j False = Inr p"
      "send_packet p ?k = (out, k')"
    by (cases a) (auto simp: sk_emit_def res_simps Let_def)
  have "queue_ok i nsp old (b, g, ?k)" using q by (cases a) (simp_all add: queue_ok_def)
  from send_packet_safe [OF this event_packet_ok [OF p(1)] p(2)] show ?thesis .
qed

lemma on_socket_safe: "reply_call i c \<Longrightarrow> wire_safe i nsp old (on_socket c)"
proof (rule safeAI)
  fix s r out t assume c: "reply_call i c" and q: "queue_ok i nsp old s" and m: "on_socket c s = (r, out, t)"
  obtain b g k where s: "s = (b, g, k)" by (cases s)
  show "queue_ok i nsp old t \<and> list_all (sends_ok i nsp old) out"
  proof (cases "sk_step c (g, k)")
    case (Inl e)
    with m q show ?thesis by (auto simp: on_socket_def s)
  next
    case (Inr x)
    obtain out1 g' k' where x: "x = (out1, g', k')" by (cases x)
    with m Inr have t: "t = (b, g', k')" "out = out1" by (auto simp: on_socket_def s)
    show ?thesis
    proof (cases c)
      case (C_ack j v)
      with c Inr x have "sk_ack i v k = Inr (out1, k')" "g' = g" by (auto simp: res_simps)
      with sk_ack_safe q show ?thesis by (auto simp: t s)
    next
      case (C_emit n v a)
      with Inr x have "sk_emit n v a g k = Inr (g', out1, k')" by (auto simp: res_simps)
      with sk_emit_safe q show ?thesis by (auto simp: t s)
    qed (use c Inr x q in \<open>auto simp: t s res_simps queue_ok_def sk_on_def sk_on_any_def sk_on_error_def sk_off_all_def
          sk_off_error_def\<close>)
  qed
qed

lemma call_sockets_safe: "list_all (reply_call i) cs \<Longrightarrow> wire_safe i nsp old (call_sockets cs)"
  unfolding call_sockets_def by (rule safeA_for) (auto simp: list_all_iff intro!: safeA_bind on_socket_safe)

lemma on_bridge_safe:
  assumes "answering i m"
  shows "wire_safe i nsp old (on_bridge m)"
proof (rule safeAI)
  fix s r out t assume q: "queue_ok i nsp old s" and o: "on_bridge m s = (r, out, t)"
  obtain b w where s: "s = (b, w)" by (cases s)
  obtain r1 out1 b1 where m: "m b = (r1, out1, b1)" by (cases "m b")
  let ?m = "thenA (call_sockets (concat (map socket_calls out1))) (liftA r1)"
  from q have q1: "queue_ok i nsp old (b1, w)" by (simp add: queue_ok_def s split: prod.splits)
  have "wire_safe i nsp old ?m"
    by (intro safeA_then safeA_basic call_sockets_safe answers_replies emitsAD [OF assms m])
  from safeAD [OF this q1] o show "queue_ok i nsp old t \<and> list_all (sends_ok i nsp old) out"
    by (simp add: on_bridge_def s m)
qed


lemma event_calls:
  assumes "get_type p = Inr t" "t = type_event \<or> t = type_binary_event" "sk_step (C_packet p) (g, k) = Inr (out, g', k')"
  shows "g' = g \<and> k' = k \<and> (\<forall>e \<in> set out. \<exists>l ev. e = Call_event l ev \<and> ev_msgId ev = to_i32 (to_u32 (pk_pack_id p)))"
proof (cases "\<not> sk_client k \<or> pk_nsp p \<noteq> sk_nsp k")
  case True
  with assms(3) show ?thesis by (auto simp: on_message_packet_def)
next
  case False
  with assms have e: "on_event_packet p k = Inr (out, k')" "g' = g" by (auto simp: on_message_packet_def res_simps)
  from e(1) obtain m where m: "pk_message p = Some m" by (cases "pk_message p") (simp_all add: on_event_packet_def)
  have ev: "\<exists>l ev. e = Call_event l ev \<and> ev_msgId ev = i" if "e \<in> set (on_socketio_event nsp i name v k)" for e nsp i name v
    using that by (auto simp: on_socketio_event_def Let_def split: option.splits)
  show ?thesis
  proof (cases "\<exists>n xs. m = Array_msg (Some (String_msg n) # xs)")
    case True
    with e m ev show ?thesis by (auto simp: on_event_packet_def)
  next
    case False
    have "out = [] \<and> k' = k"
    proof (cases "\<exists>n xs. m = Array_msg (Some n # xs)")
      case True
      then obtain n xs where n: "m = Array_msg (Some n # xs)" by blast
      with False e(1) m show ?thesis by (cases n) (auto simp: on_event_packet_def)
    next
      case False
      with e(1) m show ?thesis
        by (cases m) (auto simp: on_event_packet_def deref_def split: list.split_asm option.split_asm)
    qed
    with e(2) show ?thesis by simp
  qed
qed

lemma answering_react:
  assumes "e = Call_event l ev" "ev_msgId ev = i"
  shows "answering i (react w e)"
  using assms answering_handle [of ev w] by (auto simp: react_def split: option.split)

lemma call_sockets_assert:
  assumes "list_all (reply_call i) cs" "C_ack i v \<in> set cs" "i < 0"
  shows "result (call_sockets cs s) = Inl Assert_fail"
  using assms(1,2)
proof (induction cs arbitrary: s)
  case Nil
  then show ?case by simp
next
  case (Cons c cs)
  obtain b g k where s: "s = (b, g, k)" by (cases s)
  show ?case
  proof (cases "\<exists>u. c = C_ack i u")
    case True
    with assms(3) show ?thesis
      by (auto simp: call_sockets_def on_socket_def bindA_def s sk_ack_def message_packet_def)
  next
    case False
    with Cons.prems(1) have "\<exists>x. sk_step c (g, k) = Inr x"
      by (cases c) (auto simp: sk_emit_def message_packet_def Let_def split: option.split prod.split)
    then obtain out w where "sk_step c (g, k) = Inr (out, w)" by auto
    moreover from False Cons.prems have "list_all (reply_call i) cs" "C_ack i v \<in> set cs" by auto
    ultimately show ?thesis using Cons.IH [of "(b, w)"]
      by (auto simp: call_sockets_def on_socket_def bindA_def s retA_def split: prod.split)
  qed
qed

text \<open>The event that the socket makes of a packet.\<close>

definition packet_event :: "packet \<Rightarrow> string \<Rightarrow> msg_ptr list \<Rightarrow> sio_event" where
  "packet_event p name args =
     \<lparr>ev_nsp = pk_nsp p, ev_name = name, ev_msgId = pk_pack_id p, ev_messages = fold (\<lambda>x. mlist_push (Ptr x)) args [],
      ev_need_ack = (pk_pack_id p \<ge> 0)\<rparr>"

lemma event_is_called:
  assumes "sk_client k" "pk_nsp p = sk_nsp k" "get_type p = Inr t" "t = type_event \<or> t = type_binary_event"
    and "pk_message p = Some (Array_msg (Some (String_msg name) # args))" "get_bind_listener name k = Some l"
    and "- (2 ^ 31) \<le> pk_pack_id p" "pk_pack_id p < 2 ^ 31"
  shows "\<exists>more. sk_step (C_packet p) (g, k) = Inr (Call_event l (packet_event p name args) # more, g, k)"
  using assms to_i32_to_u32 [OF assms(7,8)]
  by (auto simp: on_message_packet_def on_event_packet_def on_socketio_event_def packet_event_def Let_def)

text \<open>C8. Whatever the bridge does while it handles an event from the socket, an acknowledgement that goes out or is
  queued has the id of this event and the namespace of the socket. An event without an id is not acknowledged.\<close>

theorem answers_carry_the_id:
  assumes "get_type p = Inr t" "t = type_event \<or> t = type_binary_event" "- (2 ^ 31) \<le> pk_pack_id p" "pk_pack_id p < 2 ^ 31"
    and r: "receive w p (b, g, k) = (r, out, (b', g', k'))"
    and q: "Send q \<in> set out \<or> q \<in> set (sk_queue k')" "q \<notin> set (sk_queue k)" "pk_type q = 19"
  shows "pk_pack_id q = pk_pack_id p \<and> 0 \<le> pk_pack_id p \<and> pk_nsp q = sk_nsp k"
proof -
  let ?i = "pk_pack_id p" and ?old = "sk_queue k"
  have start: "queue_ok ?i (sk_nsp k) ?old (b, g, k)" by (simp add: queue_ok_def wire_ok_def list_all_iff)
  have "queue_ok ?i (sk_nsp k) ?old (b', g', k') \<and> list_all (sends_ok ?i (sk_nsp k) ?old) out"
  proof (cases "sk_step (C_packet p) (g, k)")
    case (Inl e)
    with r start show ?thesis by (auto simp: receive_def on_socket_def bindA_def)
  next
    case (Inr x)
    then obtain calls where x: "sk_step (C_packet p) (g, k) = Inr (calls, g, k)"
      and calls: "\<forall>e \<in> set calls. \<exists>l ev. e = Call_event l ev \<and> ev_msgId ev = ?i"
      using event_calls [OF assms(1,2)] to_i32_to_u32 [OF assms(3,4)] by (metis prod_cases3)
    let ?m = "forA (\<lambda>e _. on_bridge (react w e)) calls ()"
    have safe: "wire_safe ?i (sk_nsp k) ?old ?m"
      using calls answering_react by (intro safeA_for on_bridge_safe) metis
    have quiet: "list_all (sends_ok ?i (sk_nsp k) ?old) calls"
      using calls by (auto simp: list_all_iff sends_ok_def)
    obtain out2 where m: "?m (b, g, k) = (r, out2, (b', g', k'))" "out = calls @ out2"
      using r x by (auto simp: receive_def on_socket_def bindA_def split: prod.splits)
    from safeAD [OF safe start m(1)] quiet show ?thesis by (simp add: m(2))
  qed
  with q have "wire_ok ?i (sk_nsp k) ?old q" by (auto simp: queue_ok_def sends_ok_def list_all_iff)
  with q show ?thesis by (simp add: wire_ok_def)
qed

text \<open>C27. A handler that acknowledges an event which did not ask for it fails an assertion of the packet.\<close>

theorem unasked_answer_asserts:
  assumes "sk_client k" "pk_nsp p = sk_nsp k" "get_type p = Inr t" "t = type_event \<or> t = type_binary_event"
    and "pk_message p = Some (Array_msg (Some (String_msg name) # args))" "get_bind_listener name k = Some (listener_of h)"
    and "- (2 ^ 31) \<le> pk_pack_id p" "pk_pack_id p < 0"
    and h: "handle w h (packet_event p name args) b = (r, out, b')" "Ack i m \<in> set out"
  shows "result (receive w p (b, g, k)) = Inl Assert_fail"
proof -
  have "pk_pack_id p < 2 ^ 31" using assms(8) by simp
  from event_is_called [OF assms(1-7) this] obtain more where
    s: "sk_step (C_packet p) (g, k) = Inr (Call_event (listener_of h) (packet_event p name args) # more, g, k)" by blast
  have ev: "ev_msgId (packet_event p name args) = pk_pack_id p" by (simp add: packet_event_def)
  from emitsAD [OF answering_handle h(1)] have a: "list_all (answers (pk_pack_id p)) out" by (simp add: ev)
  with h(2) have i: "i = pk_pack_id p" by (auto simp: list_all_iff)
  from h(2) have c: "C_ack i [Some m] \<in> set (concat (map socket_calls out))" by force
  have "result (call_sockets (concat (map socket_calls out)) (b', g, k)) = Inl Assert_fail"
    by (rule call_sockets_assert [OF answers_replies [OF a] c [unfolded i] assms(8)])
  then have "result (on_bridge (handle w h (packet_event p name args)) (b, g, k)) = Inl Assert_fail"
    by (auto simp: on_bridge_def h(1) thenA_def bindA_def split: prod.split)
  then obtain o2 t2 where b: "on_bridge (handle w h (packet_event p name args)) (b, g, k) = (Inl Assert_fail, o2, t2)"
    by (cases "on_bridge (handle w h (packet_event p name args)) (b, g, k)") simp
  have "on_socket (C_packet p) (b, g, k) = (Inr (Call_event (listener_of h) (packet_event p name args) # more),
      Call_event (listener_of h) (packet_event p name args) # more, (b, g, k))"
    by (simp only: on_socket_def s prod.case sum.case)
  then show ?thesis by (simp add: receive_def bindA_def react_def handler_at_listener_of b)
qed


section \<open>The listeners are in place\<close>

lemma install_listeners:
  "call_sockets (map (\<lambda>(n, h). C_on n (Some (listener_of h))) xs @ cs) (b, g, k) =
     call_sockets cs (b, g, fold (\<lambda>(n, h). sk_on n (Some (listener_of h))) xs k)"
proof (induction xs arbitrary: k)
  case (Cons x xs)
  then show ?case by (cases x) (simp add: call_sockets_def bindA_def on_socket_def retA_def)
qed simp

abbreviation event_table :: "(string, handler) omap" where
  "event_table \<equiv> fold (\<lambda>(n, h). memplace n h) handler_table []"

abbreviation bind_listener :: "string \<times> handler \<Rightarrow> socket \<Rightarrow> socket" where
  "bind_listener \<equiv> \<lambda>(n, h). sk_on n (Some (listener_of h))"

lemma listen_calls:
  "concat (map socket_calls (map (\<lambda>(n, h). Listen n h) xs)) = map (\<lambda>(n, h). C_on n (Some (listener_of h))) xs"
  by (induction xs) auto

lemma bound_listener:
  assumes "distinct (map fst xs)" "map_of xs n = Some h"
  shows "get_bind_listener n (fold bind_listener xs k) = Some (listener_of h)"
proof -
  have on: "get_bind_listener n (sk_on m f k) = (if n = m then f else get_bind_listener n k)" for m f k
    by (simp add: sk_on_def get_bind_listener_def)
  have keep: "n \<notin> fst ` set xs \<Longrightarrow> get_bind_listener n (fold bind_listener xs k) = get_bind_listener n k" for xs k
    by (induction xs arbitrary: k) (auto simp: on)
  show ?thesis using assms
    by (induction xs arbitrary: k) (auto simp: keep on split: if_splits)
qed

lemma bound_fields:
  "sk_client (fold bind_listener xs k) = sk_client k" "sk_connected (fold bind_listener xs k) = sk_connected k"
  "sk_nsp (fold bind_listener xs k) = sk_nsp k" "sk_queue (fold bind_listener xs k) = sk_queue k"
  by (induction xs arbitrary: k) (auto simp: sk_on_def)

lemma event_table_ok: "distinct (map fst event_table) \<and> list_all (\<lambda>(n, h). map_of event_table n = Some h) handler_table"
  by code_simp

lemma connect_listens:
  assumes "br_events b = []"
  shows "\<exists>b'. br_connected b' = br_connected b \<and> wired_connect (b, g, k) = (Inr (), [], (b', g,
    sk_on_error (Some error_listener) (sk_on_any (Some other_listener) (fold bind_listener event_table k))))"
proof -
  obtain b1 url auth where b1: "br_connect b = (Inr (), [Client_connect url auth], b1)" and ev: "br_events b1 = event_table"
      and co: "br_connected b1 = br_connected b"
    using assms by (simp add: br_connect_def thenA_def bindA_def modA_def getA_def emitA_def)
  have on1: "on_bridge br_connect (b, g, k) = (Inr (), [], (b1, g, k))"
    by (simp add: on_bridge_def b1 call_sockets_def retA_def liftA_def thenA_def bindA_def)
  have c: "br_onConnected b1 = (Inr (), map (\<lambda>(n, h). Listen n h) event_table @ [Listen_any, Listen_error], b1)"
    by (simp only: br_onConnected_def bindA_def getA_def emitA_def ev prod.case sum.case) simp
  have "concat (map socket_calls (map (\<lambda>(n, h). Listen n h) event_table @ [Listen_any, Listen_error])) =
      map (\<lambda>(n, h). C_on n (Some (listener_of h))) event_table @ [C_on_any (Some other_listener), C_on_error (Some error_listener)]"
    unfolding map_append concat_append listen_calls by simp
  then have "on_bridge br_onConnected (b1, g, k) = (Inr (), [], (b1, g,
    sk_on_error (Some error_listener) (sk_on_any (Some other_listener) (fold bind_listener event_table k))))"
    by (simp only: on_bridge_def prod.case c thenA_def bindA_def install_listeners)
       (simp add: call_sockets_def on_socket_def bindA_def retA_def liftA_def)
  then show ?thesis using co by (simp add: wired_connect_def thenA_def bindA_def on1)
qed

text \<open>After the connection the listener of every event of the table is its handler.\<close>

theorem handlers_installed:
  assumes "br_events b = []" "(name, h) \<in> set handler_table"
  shows "\<exists>b' k'. wired_connect (b, g, k) = (Inr (), [], (b', g, k')) \<and> get_bind_listener name k' = Some (listener_of h)"
proof -
  obtain b' where w: "wired_connect (b, g, k) = (Inr (), [], (b', g,
    sk_on_error (Some error_listener) (sk_on_any (Some other_listener) (fold bind_listener event_table k))))"
    using connect_listens [OF assms(1)] by blast
  have "map_of event_table name = Some h" using event_table_ok assms(2) by (auto simp: list_all_iff)
  with event_table_ok have "get_bind_listener name (fold bind_listener event_table k) = Some (listener_of h)"
    by (intro bound_listener) auto
  then show ?thesis using w by (simp add: get_bind_listener_def sk_on_error_def sk_on_any_def)
qed

section \<open>Witnesses\<close>

definition linked :: wired where
  "linked = final (wired_connect (sample_bridge\<lparr>br_connected := True\<rparr>, 0,
     (snd (new_socket True False ''/'' None))\<lparr>sk_connected := True\<rparr>))"

text \<open>A request for a file without a path.\<close>

definition file_packet :: "int \<Rightarrow> packet" where
  "file_packet i = empty_packet\<lparr>pk_frame := frame_message, pk_type := type_event, pk_nsp := ''/'', pk_pack_id := i,
     pk_message := Some (Array_msg [Some (String_msg ''file''), Some (String_msg [])])\<rparr>"

lemma file_packet_fields:
  "get_type (file_packet i) = Inr 2" "pk_pack_id (file_packet i) = i" "pk_nsp (file_packet i) = ''/''"
  "pk_message (file_packet i) = Some (Array_msg (Some (String_msg ''file'') # [Some (String_msg [])]))"
  by (simp_all add: file_packet_def get_type_def empty_packet_def)

lemma file_handled:
  assumes "br_connected b"
  shows "handle sample_world H_file (packet_event (file_packet i) ''file'' [Some (String_msg [])]) b =
    (Inr (), [Ack i (err_message ''File path not provided'')], b)"
  using assms by (simp add: packet_event_def onFileRequest_def get_message_def returnError_def br_ack_def bindA_def liftA_def
      getA_def emitA_def file_packet_fields mlist_push_def)

lemma linked_fields:
  "\<exists>b k. linked = (b, 0, k) \<and> br_connected b \<and> sk_client k \<and> sk_connected k \<and> sk_nsp k = ''/'' \<and> sk_queue k = [] \<and>
     get_bind_listener ''file'' k = Some (listener_of H_file)"
proof -
  let ?k = "(snd (new_socket True False ''/'' None))\<lparr>sk_connected := True\<rparr>"
  let ?t = "fold bind_listener event_table ?k"
  have e: "br_events (sample_bridge\<lparr>br_connected := True\<rparr>) = []" by (simp add: sample_bridge_def construct_bridge_def Let_def)
  obtain b where w: "br_connected b" "wired_connect (sample_bridge\<lparr>br_connected := True\<rparr>, 0, ?k) = (Inr (), [], (b, 0,
      sk_on_error (Some error_listener) (sk_on_any (Some other_listener) ?t)))"
    using connect_listens [OF e] by auto
  have "map_of event_table ''file'' = Some H_file" using event_table_ok by (auto simp: list_all_iff handler_table_def)
  then have "get_bind_listener ''file'' ?t = Some (listener_of H_file)" using event_table_ok by (intro bound_listener) auto
  with w bound_fields show ?thesis
    by (simp add: linked_def get_bind_listener_def sk_on_error_def sk_on_any_def new_socket_def)
qed

theorem handlers_installed_witness:
  "\<exists>b' k'. wired_connect (sample_bridge, 0, snd (new_socket True False ''/'' None)) = (Inr (), [], (b', 0, k')) \<and>
     get_bind_listener ''service'' k' = Some 9"
proof -
  have e: "br_events sample_bridge = []" by (simp add: sample_bridge_def construct_bridge_def Let_def)
  have "(''service'', H_service) \<in> set handler_table" by (simp add: handler_table_def)
  moreover have "listener_of H_service = 9" by (simp add: listener_of_def handler_table_def)
  ultimately show ?thesis using handlers_installed [OF e, of "''service''" H_service] by metis
qed

theorem answers_carry_the_id_witness:
  "\<exists>q. Send q \<in> set (effects (receive sample_world (file_packet 7) linked)) \<and> pk_type q = 19 \<and> pk_pack_id q = 7 \<and> pk_nsp q = ''/''"
proof -
  obtain b k where s: "linked = (b, 0, k)" "br_connected b" "sk_client k" "sk_connected k" "sk_nsp k = ''/''" "sk_queue k = []"
      "get_bind_listener ''file'' k = Some (listener_of H_file)" using linked_fields by blast
  obtain more where step: "sk_step (C_packet (file_packet 7)) (0, k) =
      Inr (Call_event (listener_of H_file) (packet_event (file_packet 7) ''file'' [Some (String_msg [])]) # more, 0, k)"
    using event_is_called [OF s(3) _ file_packet_fields(1) _ file_packet_fields(4) s(7), of 7 0] file_packet_fields s(5) by auto
  obtain r out b' g' k' where r: "receive sample_world (file_packet 7) (b, 0, k) = (r, out, (b', g', k'))" by (metis prod_cases3)
  have "\<exists>q. Send q \<in> set out \<and> pk_type q = 19"
  proof -
    have "on_bridge (react sample_world (Call_event (listener_of H_file) (packet_event (file_packet 7) ''file'' [Some (String_msg [])]))) (b, 0, k) =
        (Inr (), [Send (empty_packet\<lparr>pk_frame := frame_message, pk_type := 19, pk_nsp := ''/'', pk_pack_id := 7,
           pk_message := Some (Array_msg [Some (err_message ''File path not provided'')])\<rparr>)], (b, 0, k))"
      using s(2-) by (simp add: on_bridge_def react_def handler_at_listener_of file_handled [unfolded handle.simps] call_sockets_def on_socket_def sk_ack_def
          message_packet_def send_packet_def to_array_message_def bindA_def thenA_def liftA_def retA_def)
    moreover have "on_socket (C_packet (file_packet 7)) (b, 0, k) =
        (Inr (Call_event (listener_of H_file) (packet_event (file_packet 7) ''file'' [Some (String_msg [])]) # more),
         Call_event (listener_of H_file) (packet_event (file_packet 7) ''file'' [Some (String_msg [])]) # more, (b, 0, k))"
      by (simp only: on_socket_def step prod.case sum.case)
    ultimately show ?thesis using r by (auto simp: receive_def bindA_def split: prod.splits sum.splits)
  qed
  then obtain q where q: "Send q \<in> set out" "pk_type q = 19" by blast
  from answers_carry_the_id [OF file_packet_fields(1) _ _ _ r, of q] q s file_packet_fields(2)
  have "pk_pack_id q = 7 \<and> pk_nsp q = ''/''" by simp
  with q r show ?thesis by (auto simp: s(1))
qed

theorem unasked_answer_asserts_witness:
  "result (receive sample_world (file_packet (- 1)) linked) = Inl Assert_fail"
proof -
  obtain b k where s: "linked = (b, 0, k)" "br_connected b" "sk_client k" "sk_nsp k = ''/''"
      "get_bind_listener ''file'' k = Some (listener_of H_file)" using linked_fields by blast
  from unasked_answer_asserts [OF s(3) _ file_packet_fields(1) _ file_packet_fields(4) s(5) _ _ file_handled [OF s(2)], of "- 1"]
  show ?thesis by (simp add: s(1,4) file_packet_fields)
qed

end
