(* ===== verification/SocketThreads.thy ===== *)
theory SocketThreads
  imports Socket "HOL-Library.Multiset"
begin

text \<open>
  The queue of a socket between threads (\<open>sioclient/sio_socket.cpp\<close>: \<open>send_packet\<close>, \<open>on_connected\<close>, \<open>on_disconnect\<close> and \<open>on_close\<close>).
  The threads of the program send packets while the client's thread reports on the connection. The queue has a mutex, which is
  not held while a packet is sent; the pointer to the client and the connected flag are read and written without it. Here a
  thread is the point it has reached in its call, and one step is what it does up to the next such access.
\<close>

section \<open>Threads and their steps\<close>

text \<open>\<open>Guard\<close> is at the null test of \<open>send_packet\<close>, \<open>Tested\<close> at the test of the connected flag, \<open>Drain\<close> at the lock in the loop that
  empties the queue, \<open>Hold\<close> has taken a packet and given the mutex back, \<open>Final\<close> is at the sending of its own packet and
  \<open>Push\<close> at the lock before the queue takes it. The loop is that of \<open>send_packet\<close> with a packet of its own, or without one
  that of \<open>on_connected\<close>, which begins at \<open>Opening\<close>. \<open>Leaving\<close> begins \<open>on_disconnect\<close>, \<open>Closing\<close> \<open>on_close\<close>.\<close>

datatype phase =
    Guard packet
  | Tested packet
  | Drain "packet option"
  | Hold packet "packet option"
  | Final packet
  | Push packet
  | Opening
  | Opened
  | Leaving
  | Closing
  | Closed
  | Clear

text \<open>What the threads share, with what has been sent to the server and what was given up.\<close>

record link =
  lk_client :: bool
  lk_connected :: bool
  lk_queue :: "packet list"
  lk_sent :: "packet list"
  lk_dropped :: "packet list"

definition transmit :: "packet \<Rightarrow> phase option \<Rightarrow> link \<Rightarrow> (phase option \<times> link) res" where
  "transmit p next_phase l =
     (if lk_client l then Inr (next_phase, l\<lparr>lk_sent := lk_sent l @ [p]\<rparr>) else Inl Null_deref)"

fun advance :: "phase \<Rightarrow> link \<Rightarrow> (phase option \<times> link) res" where
  "advance (Guard p) l =
     Inr (if lk_client l then (Some (Tested p), l) else (None, l\<lparr>lk_dropped := lk_dropped l @ [p]\<rparr>))"
| "advance (Tested p) l = Inr (Some (if lk_connected l then Drain (Some p) else Push p), l)"
| "advance (Drain own) l =
     Inr (case lk_queue l of [] \<Rightarrow> (map_option Final own, l) | q # qs \<Rightarrow> (Some (Hold q own), l\<lparr>lk_queue := qs\<rparr>))"
| "advance (Hold q own) l = transmit q (Some (Drain own)) l"
| "advance (Final p) l = transmit p None l"
| "advance (Push p) l = Inr (None, l\<lparr>lk_queue := lk_queue l @ [p]\<rparr>)"
| "advance Opening l = Inr (if lk_connected l then (None, l) else (Some Opened, l\<lparr>lk_connected := True\<rparr>))"
| "advance Opened l = (if lk_client l then Inr (Some (Drain None), l) else Inl Null_deref)"
| "advance Leaving l =
     Inr (if lk_client l \<and> lk_connected l then (Some Clear, l\<lparr>lk_connected := False\<rparr>) else (None, l))"
| "advance Closing l = Inr (if lk_client l then (Some Closed, l\<lparr>lk_client := False\<rparr>) else (None, l))"
| "advance Closed l = Inr (Some Clear, l\<lparr>lk_connected := False\<rparr>)"
| "advance Clear l = Inr (None, l\<lparr>lk_queue := [], lk_dropped := lk_dropped l @ lk_queue l\<rparr>)"

text \<open>A thread enters a call, or the thread at a position goes one step.\<close>

datatype move = Call_send packet | Call_connected | Call_disconnect | Call_close | Go nat

fun move_step :: "move \<Rightarrow> link \<times> phase list \<Rightarrow> (link \<times> phase list) res" where
  "move_step (Call_send p) (l, ts) = Inr (l, ts @ [Guard p])"
| "move_step Call_connected (l, ts) = Inr (l, ts @ [Opening])"
| "move_step Call_disconnect (l, ts) = Inr (l, ts @ [Leaving])"
| "move_step Call_close (l, ts) = Inr (l, ts @ [Closing])"
| "move_step (Go i) (l, ts) =
     (if i < length ts
      then bindR (advance (ts ! i) l) (\<lambda>(np, l').
             Inr (l', take i ts @ (case np of None \<Rightarrow> [] | Some ph \<Rightarrow> [ph]) @ drop (Suc i) ts))
      else Inr (l, ts))"

fun run_moves :: "move list \<Rightarrow> link \<times> phase list \<Rightarrow> (link \<times> phase list) res" where
  "run_moves [] s = Inr s"
| "run_moves (m # ms) s = bindR (move_step m s) (run_moves ms)"

definition new_link :: link where
  "new_link = \<lparr>lk_client = True, lk_connected = False, lk_queue = [], lk_sent = [], lk_dropped = []\<rparr>"

section \<open>No packet is lost or doubled\<close>

definition asked :: "move \<Rightarrow> packet multiset" where
  "asked m = (case m of Call_send p \<Rightarrow> {#p#} | _ \<Rightarrow> {#})"

fun in_hand :: "phase \<Rightarrow> packet multiset" where
  "in_hand (Guard p) = {#p#}"
| "in_hand (Tested p) = {#p#}"
| "in_hand (Drain own) = (case own of None \<Rightarrow> {#} | Some p \<Rightarrow> {#p#})"
| "in_hand (Hold q own) = add_mset q (case own of None \<Rightarrow> {#} | Some p \<Rightarrow> {#p#})"
| "in_hand (Final p) = {#p#}"
| "in_hand (Push p) = {#p#}"
| "in_hand _ = {#}"

definition in_hands :: "phase list \<Rightarrow> packet multiset" where
  "in_hands ts = sum_list (map in_hand ts)"

definition held :: "link \<Rightarrow> packet multiset" where
  "held l = mset (lk_sent l) + mset (lk_queue l) + mset (lk_dropped l)"

lemma in_hands_simps [simp]:
  "in_hands [] = {#}" "in_hands (ph # ts) = in_hand ph + in_hands ts" "in_hands (ts @ us) = in_hands ts + in_hands us"
  by (simp_all add: in_hands_def)

lemma advance_conserves:
  "advance ph l = Inr (np, l') \<Longrightarrow> held l' + (case np of None \<Rightarrow> {#} | Some q \<Rightarrow> in_hand q) = held l + in_hand ph"
  by (cases ph) (auto simp: held_def transmit_def split: if_splits list.splits option.splits)

lemma move_conserves:
  assumes "move_step m (l, ts) = Inr (l', ts')"
  shows "held l' + in_hands ts' = held l + in_hands ts + asked m"
proof (cases m)
  case (Go i)
  show ?thesis
  proof (cases "i < length ts")
    case True
    with assms Go obtain np where a: "advance (ts ! i) l = Inr (np, l')"
      "ts' = take i ts @ (case np of None \<Rightarrow> [] | Some ph \<Rightarrow> [ph]) @ drop (Suc i) ts"
      by (auto simp: bindR_def split: sum.splits)
    have "in_hands ts = in_hands (take i ts) + in_hand (ts ! i) + in_hands (drop (Suc i) ts)"
      using True by (subst id_take_nth_drop [OF True]) simp
    with advance_conserves [OF a(1)] a(2) Go show ?thesis
      by (cases np) (simp_all add: asked_def ac_simps)
  next
    case False
    with assms Go show ?thesis by (simp add: asked_def)
  qed
qed (use assms in \<open>auto simp: asked_def\<close>)

lemma run_conserves:
  "run_moves ms (l, ts) = Inr (l', ts') \<Longrightarrow> held l' + in_hands ts' = held l + in_hands ts + sum_list (map asked ms)"
proof (induction ms arbitrary: l ts)
  case Nil
  then show ?case by simp
next
  case (Cons m ms)
  from Cons.prems obtain l1 ts1 where st: "move_step m (l, ts) = Inr (l1, ts1)" "run_moves ms (l1, ts1) = Inr (l', ts')"
    by (auto simp: bindR_def split: sum.splits)
  from Cons.IH [OF st(2)] move_conserves [OF st(1)] show ?case by (simp add: ac_simps)
qed

text \<open>Only the end of a connection gives packets up.\<close>

definition keeping :: "phase \<Rightarrow> bool" where
  "keeping ph = (ph \<notin> {Leaving, Closing, Closed, Clear})"

definition kept :: "link \<times> phase list \<Rightarrow> bool" where
  "kept s = (lk_client (fst s) \<and> lk_dropped (fst s) = [] \<and> list_all keeping (snd s))"

lemma advance_keeps:
  "advance ph l = Inr (np, l') \<Longrightarrow> keeping ph \<Longrightarrow> lk_client l \<Longrightarrow>
     lk_client l' \<and> lk_dropped l' = lk_dropped l \<and> (case np of None \<Rightarrow> True | Some q \<Rightarrow> keeping q)"
  by (cases ph) (auto simp: keeping_def transmit_def split: if_splits list.splits option.splits)

lemma move_keeps:
  assumes "move_step m s = Inr s'" "kept s" "m \<notin> {Call_disconnect, Call_close}"
  shows "kept s'"
proof -
  obtain l ts where s: "s = (l, ts)" by (cases s)
  show ?thesis
  proof (cases m)
    case (Go i)
    show ?thesis
    proof (cases "i < length ts")
      case True
      with assms(1) Go s obtain np l' where a: "advance (ts ! i) l = Inr (np, l')"
        "s' = (l', take i ts @ (case np of None \<Rightarrow> [] | Some ph \<Rightarrow> [ph]) @ drop (Suc i) ts)"
        by (auto simp: bindR_def split: sum.splits)
      have k: "keeping (ts ! i)" "lk_client l" using assms(2) True by (simp_all add: kept_def s list_all_length)
      have "list_all keeping (take i ts) \<and> list_all keeping (drop (Suc i) ts)"
        using assms(2) by (auto simp: kept_def s list_all_iff dest: in_set_takeD in_set_dropD)
      with advance_keeps [OF a(1) k] assms(2) a(2) show ?thesis
        by (cases np) (simp_all add: kept_def s)
    next
      case False
      with assms Go s show ?thesis by simp
    qed
  qed (use assms s in \<open>auto simp: kept_def keeping_def\<close>)
qed

lemma run_keeps:
  "run_moves ms s = Inr s' \<Longrightarrow> kept s \<Longrightarrow> Call_disconnect \<notin> set ms \<Longrightarrow> Call_close \<notin> set ms \<Longrightarrow> kept s'"
  by (induction ms arbitrary: s) (auto simp: bindR_def split: sum.splits dest: move_keeps)

text \<open>C35. However the threads are interleaved that send packets and the client's thread that reports on the connection, every
  packet is sent once, is queued once, is still in the hands of one thread, or was given up once by a disconnection
  or a close; without those none is given up. (The order is not kept: see below.)\<close>

theorem packets_conserved:
  assumes "run_moves ms (new_link, []) = Inr (l, ts)"
  shows "sum_list (map asked ms) = mset (lk_sent l) + mset (lk_queue l) + mset (lk_dropped l) + in_hands ts \<and>
    (Call_disconnect \<notin> set ms \<and> Call_close \<notin> set ms \<longrightarrow> lk_dropped l = [])"
proof -
  have "held l + in_hands ts = sum_list (map asked ms)"
    using run_conserves [OF assms] by (simp add: held_def new_link_def)
  moreover have "kept (new_link, [])" by (simp add: kept_def new_link_def)
  then have "lk_dropped l = []" if "Call_disconnect \<notin> set ms" "Call_close \<notin> set ms"
    using run_keeps [OF assms _ that] by (simp add: kept_def)
  ultimately show ?thesis by (simp add: held_def)
qed

section \<open>A call that runs alone\<close>

lemma bindR_Inr: "bindR (Inr x) f = f x"
  by (simp add: bindR_def)

definition link_of :: "socket \<Rightarrow> link" where
  "link_of s = \<lparr>lk_client = sk_client s, lk_connected = sk_connected s, lk_queue = sk_queue s, lk_sent = [], lk_dropped = []\<rparr>"

lemma run_append: "run_moves (ms @ ns) s = bindR (run_moves ms s) (run_moves ns)"
  by (induction ms arbitrary: s) (auto simp: bindR_def split: sum.splits)

lemma drain_alone:
  "lk_client l \<Longrightarrow> run_moves (replicate (2 * length (lk_queue l)) (Go 0)) (l, [Drain own]) =
     Inr (l\<lparr>lk_queue := [], lk_sent := lk_sent l @ lk_queue l\<rparr>, [Drain own])"
proof (induction "lk_queue l" arbitrary: l)
  case Nil
  then show ?case by simp
next
  case (Cons q qs)
  let ?l = "l\<lparr>lk_queue := qs, lk_sent := lk_sent l @ [q]\<rparr>"
  have "run_moves (replicate (2 * length (lk_queue l)) (Go 0)) (l, [Drain own]) =
      run_moves (replicate (2 * length (lk_queue ?l)) (Go 0)) (?l, [Drain own])"
    using Cons.prems by (simp add: Cons.hyps(2) [symmetric] bindR_def transmit_def)
  with Cons.hyps(1) [of ?l] Cons.prems show ?case by (simp add: Cons.hyps(2) [symmetric])
qed

text \<open>\<open>send_packet\<close> and \<open>sk_on_connected\<close> are what a call does that no other interleaves with.\<close>

lemma send_packet_alone:
  assumes "send_packet p s = (out, s')"
  shows "\<exists>ms l. set ms \<subseteq> {Go 0} \<and> run_moves (Call_send p # ms) (link_of s, []) = Inr (l, []) \<and>
    map Send (lk_sent l) = out \<and> lk_queue l = sk_queue s' \<and> lk_client l = sk_client s' \<and> lk_connected l = sk_connected s'"
proof (cases "sk_client s \<and> sk_connected s")
  case True
  let ?drain = "replicate (2 * length (sk_queue s)) (Go 0)" and ?ls = "link_of s"
  let ?ms = "[Go 0, Go 0] @ ?drain @ [Go 0, Go 0]"
  let ?l = "?ls\<lparr>lk_queue := [], lk_sent := sk_queue s\<rparr>"
  have start: "run_moves (Call_send p # [Go 0, Go 0]) (?ls, []) = Inr (?ls, [Drain (Some p)])"
    using True by (simp add: link_of_def bindR_def)
  have mid: "run_moves ?drain (?ls, [Drain (Some p)]) = Inr (?l, [Drain (Some p)])"
    using drain_alone [of ?ls "Some p"] True by (simp add: link_of_def)
  have last: "run_moves [Go 0, Go 0] (?l, [Drain (Some p)]) = Inr (?l\<lparr>lk_sent := sk_queue s @ [p]\<rparr>, [])"
    using True by (simp add: link_of_def bindR_def transmit_def)
  have "run_moves (Call_send p # ?ms) (?ls, []) = run_moves ((Call_send p # [Go 0, Go 0]) @ (?drain @ [Go 0, Go 0])) (?ls, [])" by simp
  also have "\<dots> = Inr (?l\<lparr>lk_sent := sk_queue s @ [p]\<rparr>, [])"
    by (simp only: run_append start mid last bindR_Inr)
  finally show ?thesis using assms True
    by (intro exI [of _ ?ms] exI [of _ "?l\<lparr>lk_sent := sk_queue s @ [p]\<rparr>"]) (auto simp: send_packet_def link_of_def)
next
  case False
  let ?l = "if sk_client s then (link_of s)\<lparr>lk_queue := sk_queue s @ [p]\<rparr> else (link_of s)\<lparr>lk_dropped := [p]\<rparr>"
  have "run_moves (Call_send p # [Go 0, Go 0, Go 0]) (link_of s, []) = Inr (?l, [])"
    using False by (simp add: link_of_def bindR_def)
  with assms False show ?thesis
    by (intro exI [of _ "[Go 0, Go 0, Go 0]"] exI [of _ ?l]) (auto simp: send_packet_def link_of_def split: if_splits)
qed

lemma on_connected_alone:
  assumes "sk_client s" "sk_on_connected s = (out, s')"
  shows "\<exists>ms l. set ms \<subseteq> {Go 0} \<and> run_moves (Call_connected # ms) (link_of s, []) = Inr (l, []) \<and>
    (if sk_connected s then out = [] \<and> lk_sent l = [] else out = Socket_opened (sk_nsp s) # map Send (lk_sent l)) \<and>
    lk_queue l = sk_queue s' \<and> lk_connected l = sk_connected s'"
proof (cases "sk_connected s")
  case True
  with assms(2) show ?thesis
    by (intro exI [of _ "[Go 0]"] exI [of _ "link_of s"]) (auto simp: sk_on_connected_def link_of_def bindR_def Let_def)
next
  case False
  let ?drain = "replicate (2 * length (sk_queue s)) (Go 0)" and ?ls = "link_of s"
  let ?ms = "[Go 0, Go 0] @ ?drain @ [Go 0]"
  let ?c = "?ls\<lparr>lk_connected := True\<rparr>"
  let ?l = "?c\<lparr>lk_queue := [], lk_sent := sk_queue s\<rparr>"
  have start: "run_moves (Call_connected # [Go 0, Go 0]) (?ls, []) = Inr (?c, [Drain None])"
    using False assms(1) by (simp add: link_of_def bindR_def)
  have mid: "run_moves ?drain (?c, [Drain None]) = Inr (?l, [Drain None])"
    using drain_alone [of ?c None] assms(1) by (simp add: link_of_def)
  have last: "run_moves [Go 0] (?l, [Drain None]) = Inr (?l, [])"
    by (simp add: bindR_def)
  have "run_moves (Call_connected # ?ms) (?ls, []) = run_moves ((Call_connected # [Go 0, Go 0]) @ (?drain @ [Go 0])) (?ls, [])" by simp
  also have "\<dots> = Inr (?l, [])" by (simp only: run_append start mid last bindR_Inr)
  finally show ?thesis using assms False
    by (intro exI [of _ ?ms] exI [of _ ?l]) (auto simp: sk_on_connected_def link_of_def Let_def)
qed

section \<open>What the mutex does not prevent\<close>

definition first_packet :: packet where
  "first_packet = typed_packet type_event ''/'' (Some (String_msg ''first''))"

definition second_packet :: packet where
  "second_packet = typed_packet type_event ''/'' (Some (String_msg ''second''))"

definition queue_first :: "move list" where
  "queue_first = [Call_send first_packet, Go 0, Go 0, Go 0]"

text \<open>A packet sent after a queued one arrives before it, if the client's thread holds the queued one when it is sent.\<close>

lemma queued_packet_overtaken:
  "map_sum id (\<lambda>(l, ts). (lk_sent l, ts)) (run_moves (queue_first @ [Call_connected, Go 0, Go 0, Go 0] @
     [Call_send second_packet, Go 1, Go 1, Go 1, Go 1] @ [Go 0, Go 0]) (new_link, [])) =
   Inr ([second_packet, first_packet], [])"
  by (simp add: queue_first_def new_link_def bindR_def transmit_def)

text \<open>A packet whose sender found the socket not connected is queued after the client's thread has emptied the queue: it stays
  there, although the socket is connected and nothing runs any more.\<close>

lemma packet_stays_queued:
  "map_sum id (\<lambda>(l, ts). (lk_connected l, lk_queue l, ts)) (run_moves ([Call_send first_packet, Go 0, Go 0] @
     [Call_connected, Go 1, Go 1, Go 1] @ [Go 0]) (new_link, [])) =
   Inr (True, [first_packet], [])"
  by (simp add: new_link_def bindR_def)

text \<open>A close between the null test and the sending leaves the sender with a null pointer.\<close>

lemma close_crashes_sender:
  "run_moves ([Call_connected, Go 0, Go 0, Go 0] @ [Call_send first_packet, Go 0, Go 0, Go 0] @ [Call_close, Go 1] @ [Go 0]) (new_link, []) =
   Inl Null_deref"
  by (simp add: new_link_def bindR_def transmit_def)

theorem packets_conserved_witness:
  "\<exists>l. run_moves (queue_first @ [Call_connected, Go 0, Go 0, Go 0, Call_send second_packet, Go 1]) (new_link, []) =
       Inr (l, [Hold first_packet None, Tested second_packet]) \<and>
     lk_dropped l = [] \<and> {#first_packet, second_packet#} = mset (lk_sent l) + mset (lk_queue l) + {#first_packet, second_packet#}"
proof -
  let ?ms = "queue_first @ [Call_connected, Go 0, Go 0, Go 0, Call_send second_packet, Go 1]"
  obtain l where r: "run_moves ?ms (new_link, []) = Inr (l, [Hold first_packet None, Tested second_packet])"
    by (simp add: queue_first_def new_link_def bindR_def)
  with packets_conserved [OF r] show ?thesis by (auto simp: queue_first_def asked_def)
qed

end
